(* ===== verification/Prelude.thy ===== *)
theory Prelude
  imports "HOL-Library.Word" "HOL-Library.Char_ord"
begin

text \<open>
  What every component shares: C programs as state-passing functions that can return a value,
  terminate the process, block in a system call or reach undefined behaviour; C integers and
  their little-endian bytes; character arrays, C strings and \<open>memcpy\<close>.

  A C \<open>char\<close> is HOL's 8-bit \<open>char\<close>, a C \<open>int\<close> is a \<open>32 word\<close> read with \<open>sint\<close>, an array is the
  list of its bytes. The target is the one of the build file: Linux on a 64-bit little-endian
  machine, \<open>sizeof(int) = 4\<close>, \<open>sizeof(long) = sizeof(off_t) = sizeof(size_t) = 8\<close>.
\<close>

unbundle bit_operations_syntax

named_theorems run "rules that execute one step of a program"
named_theorems cmem "facts about character arrays and C strings"

section \<open>Programs\<close>

text \<open>
  Why a call does not return: it waits forever in a system call, the process calls \<open>exit\<close>, or
  the execution reaches undefined behaviour (an access outside an object, a dereference of a
  pointer that points to no object, an overflow of a signed integer).
\<close>

datatype stop = Blocks | Exits int | OutOfBounds | BadPointer | SignedOverflow

type_synonym ('w, 'a) prog = "'w \<Rightarrow> (stop + 'a) \<times> 'w"

definition ret :: "'a \<Rightarrow> ('w, 'a) prog" where
  "ret x w = (Inr x, w)"

definition halt :: "stop \<Rightarrow> ('w, 'a) prog" where
  "halt e w = (Inl e, w)"

definition bnd :: "('w, 'a) prog \<Rightarrow> ('a \<Rightarrow> ('w, 'b) prog) \<Rightarrow> ('w, 'b) prog" where
  "bnd m f w = (case m w of (Inl e, w') \<Rightarrow> (Inl e, w') | (Inr x, w') \<Rightarrow> f x w')"

definition next_do :: "('w, 'a) prog \<Rightarrow> ('w, 'b) prog \<Rightarrow> ('w, 'b) prog" where
  "next_do m n = bnd m (\<lambda>_. n)"

definition reads :: "('w \<Rightarrow> 'a) \<Rightarrow> ('w, 'a) prog" where
  "reads f w = (Inr (f w), w)"

definition update :: "('w \<Rightarrow> 'w) \<Rightarrow> ('w, unit) prog" where
  "update f w = (Inr (), f w)"

text \<open>A partial operation on memory: where it has no result, the C code accesses memory out of
  bounds.\<close>

definition in_bounds :: "'a option \<Rightarrow> ('w, 'a) prog" where
  "in_bounds r = (case r of None \<Rightarrow> halt OutOfBounds | Some x \<Rightarrow> ret x)"

lemma ret_run [run]: "ret x w = (Inr x, w)"
  by (simp add: ret_def)

lemma halt_run [run]: "halt e w = (Inl e, w)"
  by (simp add: halt_def)

lemma reads_run [run]: "reads f w = (Inr (f w), w)"
  by (simp add: reads_def)

lemma update_run [run]: "update f w = (Inr (), f w)"
  by (simp add: update_def)

lemma in_bounds_run [run]:
  "in_bounds None w = (Inl OutOfBounds, w)"
  "in_bounds (Some x) w = (Inr x, w)"
  by (simp_all add: in_bounds_def run)

lemma bnd_run: "m w = (Inr x, w') \<Longrightarrow> bnd m f w = f x w'"
  by (simp add: bnd_def)

lemma bnd_halt: "m w = (Inl e, w') \<Longrightarrow> bnd m f w = (Inl e, w')"
  by (simp add: bnd_def)

lemma bnd_simps [run]:
  "bnd (ret x) f w = f x w"
  "bnd (halt e) f w = (Inl e, w)"
  "bnd (reads g) f w = f (g w) w"
  "bnd (update h) k w = k () (h w)"
  "bnd (in_bounds (Some y)) l w = l y w"
  "bnd (in_bounds None) l w = (Inl OutOfBounds, w)"
  by (simp_all add: bnd_def run)

lemma bnd_assoc: "bnd (bnd m f) g = bnd m (\<lambda>x. bnd (f x) g)"
  by (auto simp: bnd_def fun_eq_iff split: prod.splits sum.splits)

lemma bnd_Some: "bnd (in_bounds (Some y)) l = l y"
  by (rule ext) (rule bnd_simps(5))

lemma next_do_run: "m w = (Inr x, w') \<Longrightarrow> next_do m n w = n w'"
  by (simp add: next_do_def bnd_run)

lemma next_do_halt: "m w = (Inl e, w') \<Longrightarrow> next_do m n w = (Inl e, w')"
  by (simp add: next_do_def bnd_halt)

lemma next_do_simps [run]:
  "next_do (ret x) n w = n w"
  "next_do (halt e) n w = (Inl e, w)"
  "next_do (update h) n w = n (h w)"
  by (simp_all add: next_do_def run)

lemma snd_next_do_ret: "snd (next_do m (ret x) w) = snd (m w)"
  by (simp add: next_do_def bnd_def run split: prod.splits sum.splits)

lemma bnd_Inr_iff:
  "bnd m f w = (Inr y, w2) \<longleftrightarrow> (\<exists>x w1. m w = (Inr x, w1) \<and> f x w1 = (Inr y, w2))"
  by (auto simp: bnd_def split: prod.splits sum.splits)

lemma next_do_Inr_iff:
  "next_do m n w = (Inr y, w2) \<longleftrightarrow> (\<exists>x w1. m w = (Inr x, w1) \<and> n w1 = (Inr y, w2))"
  by (simp add: next_do_def bnd_Inr_iff)

lemma in_bounds_Inr_iff: "in_bounds r w = (Inr x, w') \<longleftrightarrow> r = Some x \<and> w' = w"
  by (auto simp: in_bounds_def run split: option.splits)

lemmas run_iffs = bnd_Inr_iff next_do_Inr_iff in_bounds_Inr_iff

section \<open>What a program leaves alone\<close>

text \<open>A program that keeps a part \<open>f\<close> of the state, whether it returns or not.\<close>

definition keeps :: "('w \<Rightarrow> 'b) \<Rightarrow> ('w, 'a) prog \<Rightarrow> bool" where
  "keeps f m \<longleftrightarrow> (\<forall>w. f (snd (m w)) = f w)"

named_theorems keep "programs that keep a part of the state"

lemma keeps_apply: "keeps f m \<Longrightarrow> f (snd (m w)) = f w"
  by (simp add: keeps_def)

lemma keeps_basic [keep]: "keeps f (ret x)" "keeps f (halt e)" "keeps f (reads g)" "keeps f (in_bounds r)"
  by (auto simp: keeps_def run in_bounds_def split: option.splits)

lemma keeps_bnd [keep]: "keeps f m \<Longrightarrow> (\<And>x. keeps f (k x)) \<Longrightarrow> keeps f (bnd m k)"
  by (auto simp: keeps_def bnd_def split: prod.splits sum.splits) (metis snd_conv)+

lemma keeps_next [keep]: "keeps f m \<Longrightarrow> keeps f n \<Longrightarrow> keeps f (next_do m n)"
  by (simp add: next_do_def keeps_bnd)

lemma keeps_branch [keep]:
  "keeps f a \<Longrightarrow> (\<And>y. keeps f (b y)) \<Longrightarrow> keeps f (case x of None \<Rightarrow> a | Some y \<Rightarrow> b y)"
  "keeps f m \<Longrightarrow> keeps f n \<Longrightarrow> keeps f (if c then m else n)"
  "(\<And>y z. keeps f (d y z)) \<Longrightarrow> keeps f (case p of (y, z) \<Rightarrow> d y z)"
  "(\<And>y. keeps f (g y)) \<Longrightarrow> keeps f (let y = e in g y)"
  by (simp_all split: option.splits prod.splits)

section \<open>C integers\<close>

type_synonym cint = "32 word"

definition INT_MAX :: int where
  "INT_MAX = 2147483647"

text \<open>An \<open>int\<close> passed where \<open>size_t\<close> is expected: a negative value becomes a huge one.\<close>

definition size_t_of :: "cint \<Rightarrow> int" where
  "size_t_of n = (if 0 \<le> sint n then sint n else sint n + 18446744073709551616)"

text \<open>The \<open>int\<close> a 64-bit count is cut down to by a cast or a \<open>return\<close>.\<close>

definition int_of_long :: "int \<Rightarrow> int" where
  "int_of_long n = sint (word_of_int n :: cint)"

lemma int_of_long_small: "- 2147483648 \<le> n \<Longrightarrow> n \<le> INT_MAX \<Longrightarrow> int_of_long n = n"
  by (simp add: int_of_long_def INT_MAX_def int_word_sint)

lemma sint_of_nat_small: "int n \<le> INT_MAX \<Longrightarrow> sint (of_nat n :: cint) = int n"
proof -
  assume "int n \<le> INT_MAX"
  then have "sint (word_of_int (int n) :: cint) = int n"
    using int_of_long_small [of "int n"] by (simp only: int_of_long_def)
  then show ?thesis by simp
qed

lemma size_t_of_nat_small: "int n \<le> INT_MAX \<Longrightarrow> size_t_of (of_nat n) = int n"
  by (simp add: size_t_of_def sint_of_nat_small)

lemma size_t_of_neg: "sint n < 0 \<Longrightarrow> 18446744071562067968 \<le> size_t_of n"
  using sint_range_size [of n] by (simp add: size_t_of_def word_size)

lemma nat_1_int [simp]:
  "nat (1 + int n) = Suc n" "nat (int n + 1) = Suc n" "nat (1 + int n + int m) = Suc (n + m)"
  by simp_all

lemma sint_of_int_clong:
  "- 9223372036854775808 \<le> k \<Longrightarrow> k < 9223372036854775808 \<Longrightarrow> sint (word_of_int k :: 64 word) = k"
  by (simp add: int_word_sint)

lemma sint_of_nat_clong: "int n < 9223372036854775808 \<Longrightarrow> sint (of_nat n :: 64 word) = int n"
  using sint_of_int_clong [of "int n"] by simp

text \<open>The bytes of an \<open>int\<close> in memory and on the wire.\<close>

definition le32 :: "cint \<Rightarrow> char list" where
  "le32 n = [char_of (unat n), char_of (unat n div 256), char_of (unat n div 65536),
             char_of (unat n div 16777216)]"

fun dec32 :: "char list \<Rightarrow> cint" where
  "dec32 [a, b, c, d] =
     of_nat (of_char a + 256 * of_char b + 65536 * of_char c + 16777216 * of_char d)"
| "dec32 _ = 0"

lemma length_le32 [simp]: "length (le32 n) = 4"
  by (simp add: le32_def)

lemma nat_split256:
  assumes "(n :: nat) < 4294967296"
  shows "n mod 256 + 256 * (n div 256 mod 256) + 65536 * (n div 65536 mod 256)
    + 16777216 * (n div 16777216 mod 256) = n"
proof -
  define x where "x = n div 256"
  define y where "y = x div 256"
  define z where "z = y div 256"
  have yz: "n div 65536 = y" "n div 16777216 = z"
    by (simp_all add: x_def y_def z_def flip: div_mult2_eq)
  have "z < 256"
    using assms by (simp add: x_def y_def z_def flip: div_mult2_eq)
  then have "z mod 256 = z" by simp
  moreover have "n = 256 * x + n mod 256" "x = 256 * y + x mod 256" "y = 256 * z + y mod 256"
    by (simp_all add: x_def y_def z_def)
  ultimately show ?thesis
    unfolding yz x_def [symmetric] by linarith
qed

lemma dec32_le32 [simp]: "dec32 (le32 n) = n"
proof -
  have "unat n < 4294967296"
    using unsigned_less [of n] by simp
  then show ?thesis
    by (simp only: le32_def dec32.simps of_char_of nat_split256 of_nat_unat ucast_id)
qed

text \<open>The bytes of an \<open>off_t\<close>, which is a signed 64-bit integer.\<close>

type_synonym clong = "64 word"

definition le64 :: "clong \<Rightarrow> char list" where
  "le64 n = le32 (ucast n) @ le32 (ucast (drop_bit 32 n))"

definition dec64 :: "char list \<Rightarrow> clong" where
  "dec64 bs = ucast (dec32 (take 4 bs)) OR push_bit 32 (ucast (dec32 (drop 4 bs)))"

lemma length_le64 [simp]: "length (le64 n) = 8"
  by (simp add: le64_def)

lemma dec64_le64 [simp]: "dec64 (le64 n) = n"
  by (rule bit_word_eqI) (auto simp: dec64_def le64_def bit_simps)

section \<open>Character arrays and C strings\<close>

abbreviation NUL :: char where
  "NUL \<equiv> CHR 0x00"

definition no_nul :: "string \<Rightarrow> bool" where
  "no_nul s = (NUL \<notin> set s)"

text \<open>Store bytes at an offset of an array.\<close>

definition poke :: "int \<Rightarrow> char list \<Rightarrow> char list \<Rightarrow> char list option" where
  "poke off bs arr =
     (if 0 \<le> off \<and> off + int (length bs) \<le> int (length arr)
      then Some (take (nat off) arr @ bs @ drop (nat off + length bs) arr)
      else None)"

text \<open>Read an array as a C string; an array without a terminator is read past its end.\<close>

definition cstr :: "char list \<Rightarrow> string option" where
  "cstr arr = (if NUL \<in> set arr then Some (takeWhile (\<lambda>c. c \<noteq> NUL) arr) else None)"

text \<open>\<open>memcpy(dst, src, n)\<close> for an \<open>int\<close> length.\<close>

definition memcpy :: "char list \<Rightarrow> char list \<Rightarrow> cint \<Rightarrow> char list option" where
  "memcpy dst src n =
     (if size_t_of n \<le> int (length src) then poke 0 (take (nat (size_t_of n)) src) dst else None)"

lemma poke_length [cmem]: "poke off bs arr = Some arr' \<Longrightarrow> length arr' = length arr"
  by (auto simp: poke_def split: if_splits)

lemma poke_at [cmem]:
  "n + length bs \<le> length arr \<Longrightarrow>
   poke (int n) bs arr = Some (take n arr @ bs @ drop (n + length bs) arr)"
  by (simp add: poke_def)

lemma poke_0 [cmem]:
  "length bs \<le> length arr \<Longrightarrow> poke 0 bs arr = Some (bs @ drop (length bs) arr)"
  by (simp add: poke_def)

lemma poke_out [cmem]: "int (length arr) < off + int (length bs) \<Longrightarrow> poke off bs arr = None"
  by (simp add: poke_def)

lemma takeWhile_no_nul: "no_nul s \<Longrightarrow> takeWhile (\<lambda>c. c \<noteq> NUL) s = s"
  by (induction s) (auto simp: no_nul_def)

lemma cstr_terminated [cmem]: "no_nul s \<Longrightarrow> cstr (s @ NUL # t) = Some s"
  by (simp add: cstr_def takeWhile_tail takeWhile_no_nul)

lemma cstr_padded: "no_nul s \<Longrightarrow> length s < n \<Longrightarrow> cstr (s @ replicate (n - length s) NUL) = Some s"
  using cstr_terminated [of s "replicate (n - length s - 1) NUL"] by (cases "n - length s") auto

lemma cstr_Some_iff: "cstr arr = Some s \<longleftrightarrow> no_nul s \<and> (\<exists>t. arr = s @ NUL # t)"
proof
  assume eq: "cstr arr = Some s"
  then have "NUL \<in> set arr"
    by (simp add: cstr_def split: if_splits)
  then obtain u t where arr: "arr = u @ NUL # t" and "no_nul u"
    using split_list_first [of NUL arr] by (auto simp: no_nul_def)
  with eq have "s = u" by (simp add: cstr_terminated)
  with arr \<open>no_nul u\<close> show "no_nul s \<and> (\<exists>t. arr = s @ NUL # t)" by blast
qed (auto simp: cstr_terminated)

lemma cstr_length: "cstr arr = Some s \<Longrightarrow> length s < length arr"
  by (auto simp: cstr_Some_iff)

lemma cstr_no_nul: "cstr arr = Some s \<Longrightarrow> no_nul s"
  by (simp add: cstr_Some_iff)

lemma memcpy_at [cmem]:
  "size_t_of n = int k \<Longrightarrow> k \<le> length src \<Longrightarrow> k \<le> length dst \<Longrightarrow>
   memcpy dst src n = Some (take k src @ drop k dst)"
  by (simp add: memcpy_def poke_0)

lemma memcpy_out_dst [cmem]:
  "int (length dst) < size_t_of n \<Longrightarrow> memcpy dst src n = None"
  by (simp add: memcpy_def poke_def)

lemma memcpy_neg [cmem]:
  "sint n < 0 \<Longrightarrow> length src \<le> 4096 \<Longrightarrow> memcpy dst src n = None"
  using size_t_of_neg [of n] by (simp add: memcpy_def)

lemma memcpy_length [cmem]: "memcpy dst src n = Some d \<Longrightarrow> length d = length dst"
  by (auto simp: memcpy_def poke_length split: if_splits)

lemma no_nul_append [simp]: "no_nul (s @ t) \<longleftrightarrow> no_nul s \<and> no_nul t"
  by (auto simp: no_nul_def)

lemma no_nul_Cons [simp]: "no_nul (c # s) \<longleftrightarrow> c \<noteq> NUL \<and> no_nul s"
  by (auto simp: no_nul_def)

lemma no_nul_Nil [simp]: "no_nul []"
  by (simp add: no_nul_def)

lemma no_nul_takeWhile: "no_nul s \<Longrightarrow> no_nul (takeWhile P s)"
  by (auto simp: no_nul_def dest: set_takeWhileD)

lemma no_nul_take: "no_nul s \<Longrightarrow> no_nul (take n s)"
  by (auto simp: no_nul_def dest: in_set_takeD)

lemma no_nul_drop: "no_nul s \<Longrightarrow> no_nul (drop n s)"
  by (auto simp: no_nul_def dest: in_set_dropD)

section \<open>Formatted and line input and output\<close>

text \<open>
  \<open>snprintf(arr, sizeof(arr), "%s", s)\<close>: as much of \<open>s\<close> as fits with a terminator. The return
  value of \<open>snprintf\<close> is \<open>length s\<close>.
\<close>

definition snprintf :: "char list \<Rightarrow> string \<Rightarrow> char list" where
  "snprintf arr s =
     (if arr = [] then []
      else let t = take (length arr - 1) s in t @ NUL # drop (Suc (length t)) arr)"

lemma snprintf_length [simp]: "length (snprintf arr s) = length arr"
  by (cases arr) (auto simp: snprintf_def Let_def min_def)

lemma snprintf_cstr [cmem]:
  "arr \<noteq> [] \<Longrightarrow> no_nul s \<Longrightarrow> cstr (snprintf arr s) = Some (take (length arr - 1) s)"
  by (simp add: snprintf_def Let_def cstr_terminated no_nul_take)

lemma snprintf_sized:
  "length arr = n \<Longrightarrow> 0 < n \<Longrightarrow> no_nul s \<Longrightarrow> cstr (snprintf arr s) = Some (take (n - 1) s)"
  using snprintf_cstr [of arr s] by auto

text \<open>
  \<open>fgets\<close> with a buffer of \<open>n\<close> bytes: up to \<open>n - 1\<close> characters, up to and with a newline; \<open>None\<close>
  is \<open>NULL\<close> at the end of the input. The result is the line and the rest of the input.
\<close>

fun fgets :: "nat \<Rightarrow> string \<Rightarrow> (string \<times> string) option" where
  "fgets n [] = None"
| "fgets 0 (c # cs) = None"
| "fgets (Suc 0) (c # cs) = Some ([], c # cs)"
| "fgets (Suc (Suc n)) (c # cs) =
     (if c = CHR 0x0A then Some ([c], cs)
      else (case fgets (Suc n) cs of None \<Rightarrow> Some ([c], cs) | Some (l, r) \<Rightarrow> Some (c # l, r)))"

lemma fgets_split: "fgets n s = Some (l, r) \<Longrightarrow> s = l @ r \<and> length l < n"
  by (induction n s arbitrary: l r rule: fgets.induct)
    (auto split: if_splits option.splits prod.splits)

lemma fgets_progress: "fgets n s = Some (l, r) \<Longrightarrow> 2 \<le> n \<Longrightarrow> length r < length s"
  by (induction n s arbitrary: l r rule: fgets.induct)
    (auto split: if_splits option.splits prod.splits dest!: fgets_split)

lemma fgets_line:
  "CHR 0x0A \<notin> set u \<Longrightarrow> length u + 1 < n \<Longrightarrow> fgets n (u @ CHR 0x0A # r) = Some (u @ [CHR 0x0A], r)"
proof (induction n "u @ CHR 0x0A # r" arbitrary: u rule: fgets.induct)
  case (4 n c cs)
  then show ?case by (cases u) auto
qed (auto simp: Cons_eq_append_conv)

text \<open>The text of a line without its newline: \<open>line[strcspn(line, "\\n")] = 0\<close> on a C string.\<close>

definition chomp :: "string \<Rightarrow> string" where
  "chomp line = takeWhile (\<lambda>c. c \<noteq> CHR 0x0A \<and> c \<noteq> NUL) line"

lemma no_nul_chomp [simp]: "no_nul (chomp s)"
  by (auto simp: no_nul_def chomp_def dest: set_takeWhileD)

lemma chomp_line: "no_nul s \<Longrightarrow> CHR 0x0A \<notin> set s \<Longrightarrow> chomp (s @ [CHR 0x0A]) = s"
  by (induction s) (auto simp: chomp_def)

lemma length_chomp: "length (chomp s) \<le> length s"
  by (simp add: chomp_def length_takeWhile_le)

section \<open>Counting in lists\<close>

lemma count_update:
  "i < length xs \<Longrightarrow>
   length (filter P (xs[i := y])) + of_bool (P (xs ! i)) = length (filter P xs) + of_bool (P y)"
proof (induction xs arbitrary: i)
  case (Cons x xs)
  then show ?case by (cases i) auto
qed simp

lemma sum_list_map_update:
  "i < length xs \<Longrightarrow>
   sum_list (map f (xs[i := y])) + f (xs ! i) = sum_list (map f xs) + (f y :: 'a :: comm_monoid_add)"
proof (induction xs arbitrary: i)
  case (Cons x xs)
  then show ?case by (cases i) (auto simp: ac_simps)
qed simp

end
