(* ===== verification/Task_Queue.thy ===== *)
theory Task_Queue
  imports Prelude
begin

text \<open>
  The task queue of \<open>server/taskQueue.c\<close>: a singly linked list in the heap with head, tail and
  size. An address is a \<open>nat\<close>, 0 is \<open>NULL\<close>. What \<open>malloc\<close> returns and what a fresh node holds in
  \<open>Pnext_\<close> (which \<open>taskQueuePush\<close> does not initialise) are arguments. The queue refines a list:
  \<open>contents\<close> is the abstraction and \<open>queue_ok\<close> the invariant, and the contract a client relies
  on is the locale \<open>fifo\<close>.
\<close>

section \<open>State and operations\<close>

record node =
  netFd :: int
  Pnext :: nat

record tqueue =
  heap :: "nat \<Rightarrow> node option"
  queueSize :: int
  phead :: nat
  ptail :: nat

text \<open>\<open>taskQueueInit\<close> on a queue object in whatever state, with an empty heap.\<close>

definition taskQueueInit :: "tqueue \<Rightarrow> (stop + int) \<times> tqueue" where
  "taskQueueInit q = (Inr 0, q\<lparr>queueSize := 0, phead := 0, ptail := 0\<rparr>)"

definition count_up :: "tqueue \<Rightarrow> (stop + int) \<times> tqueue" where
  "count_up q =
     (if queueSize q = INT_MAX then (Inl SignedOverflow, q)
      else (Inr 0, q\<lparr>queueSize := queueSize q + 1\<rparr>))"

text \<open>\<open>a\<close> is the answer of \<open>malloc\<close> (\<open>ERROR_CHECK\<close> exits when it is \<open>NULL\<close>), \<open>junk\<close> the
  contents of \<open>Pnext_\<close> in the new node.\<close>

definition taskQueuePush :: "nat \<Rightarrow> nat \<Rightarrow> int \<Rightarrow> tqueue \<Rightarrow> (stop + int) \<times> tqueue" where
  "taskQueuePush a junk fd q =
     (if a = 0 then (Inl (Exits 1), q)
      else
        let q1 = q\<lparr>heap := (heap q)(a := Some \<lparr>netFd = fd, Pnext = junk\<rparr>)\<rparr>
        in if queueSize q1 = 0 then count_up (q1\<lparr>phead := a, ptail := a\<rparr>)
           else
             (case heap q1 (ptail q1) of
                None \<Rightarrow> (Inl BadPointer, q1)
              | Some t \<Rightarrow>
                  count_up (q1\<lparr>heap := (heap q1)(ptail q1 := Some (t\<lparr>Pnext := a\<rparr>)), ptail := a\<rparr>)))"

definition taskQueuePop :: "tqueue \<Rightarrow> (stop + int) \<times> tqueue" where
  "taskQueuePop q =
     (if queueSize q = 0 then (Inr (-1), q)
      else
        (case heap q (phead q) of
           None \<Rightarrow> (Inl BadPointer, q)
         | Some n \<Rightarrow>
             (Inr 0, q\<lparr>heap := (heap q)(phead q := None),
                        phead := Pnext n,
                        ptail := (if queueSize q = 1 then 0 else ptail q),
                        queueSize := queueSize q - 1\<rparr>)))"

text \<open>The worker's read of \<open>phead_->netFd\<close> before it pops.\<close>

definition taskQueueFront :: "tqueue \<Rightarrow> (stop + int) \<times> tqueue" where
  "taskQueueFront q =
     (case heap q (phead q) of None \<Rightarrow> (Inl BadPointer, q) | Some n \<Rightarrow> (Inr (netFd n), q))"

section \<open>The list a queue stands for\<close>

text \<open>The addresses met by following \<open>k\<close> nodes from \<open>p\<close>.\<close>

fun nodes :: "(nat \<Rightarrow> node option) \<Rightarrow> nat \<Rightarrow> nat \<Rightarrow> nat list" where
  "nodes h p 0 = []"
| "nodes h p (Suc k) = p # (case h p of None \<Rightarrow> [] | Some n \<Rightarrow> nodes h (Pnext n) k)"

definition fd_at :: "(nat \<Rightarrow> node option) \<Rightarrow> nat \<Rightarrow> int" where
  "fd_at h a = (case h a of None \<Rightarrow> 0 | Some n \<Rightarrow> netFd n)"

definition addrs :: "tqueue \<Rightarrow> nat list" where
  "addrs q = nodes (heap q) (phead q) (nat (queueSize q))"

definition contents :: "tqueue \<Rightarrow> int list" where
  "contents q = map (fd_at (heap q)) (addrs q)"

text \<open>
  The invariant: the list has as many nodes as \<open>queueSize_\<close> says, they are distinct, they are
  exactly the allocated ones (nothing leaks, nothing dangles), and \<open>ptail_\<close> is the last. Nothing
  is said of \<open>Pnext_\<close> in the last node.
\<close>

definition queue_ok :: "tqueue \<Rightarrow> bool" where
  "queue_ok q \<longleftrightarrow>
     0 \<le> queueSize q \<and> queueSize q \<le> INT_MAX \<and>
     length (addrs q) = nat (queueSize q) \<and> distinct (addrs q) \<and>
     set (addrs q) = dom (heap q) \<and> 0 \<notin> dom (heap q) \<and>
     (queueSize q \<noteq> 0 \<longrightarrow> ptail q = last (addrs q))"

lemma length_contents: "queue_ok q \<Longrightarrow> int (length (contents q)) = queueSize q"
  by (simp add: queue_ok_def contents_def)

lemma nodes_other: "a \<notin> set (nodes h p k) \<Longrightarrow> nodes (h(a := x)) p k = nodes h p k"
  by (induction h p k rule: nodes.induct) (auto split: option.splits)

lemma nodes_snoc:
  assumes "length (nodes h p (Suc k)) = Suc k" "distinct (nodes h p (Suc k))"
    "t = last (nodes h p (Suc k))"
  shows "nodes (h(t := Some (n\<lparr>Pnext := a\<rparr>))) p (Suc (Suc k)) = nodes h p (Suc k) @ [a]"
  using assms
proof (induction k arbitrary: p)
  case 0
  then show ?case by (auto split: option.splits)
next
  case (Suc k)
  then obtain m where m: "h p = Some m"
    by (cases "h p") auto
  with Suc.prems have rest: "length (nodes h (Pnext m) (Suc k)) = Suc k"
    "distinct (nodes h (Pnext m) (Suc k))" "t = last (nodes h (Pnext m) (Suc k))"
    and p: "p \<notin> set (nodes h (Pnext m) (Suc k))"
    by simp_all
  from rest(3) have "t \<in> set (nodes h (Pnext m) (Suc k))"
    by (metis last_in_set list.distinct(1) nodes.simps(2))
  with p have "p \<noteq> t" by blast
  with Suc.IH [OF rest] m show ?case by simp
qed

lemma queue_empty_ok: "queue_ok q \<Longrightarrow> contents q = [] \<longleftrightarrow> queueSize q = 0"
  by (auto simp: queue_ok_def contents_def)

lemma fd_at_other: "a \<notin> set as \<Longrightarrow> map (fd_at (h(a := x))) as = map (fd_at h) as"
  by (auto simp: fd_at_def)

lemma fd_at_next: "h t = Some n \<Longrightarrow> fd_at (h(t := Some (n\<lparr>Pnext := a\<rparr>))) = fd_at h"
  by (auto simp: fd_at_def fun_eq_iff)

section \<open>The operations implement a first-in first-out queue\<close>

lemma init_ok:
  assumes "heap q = Map.empty"
  shows "\<exists>q'. taskQueueInit q = (Inr 0, q') \<and> queue_ok q' \<and> contents q' = []"
  using assms by (simp add: taskQueueInit_def queue_ok_def contents_def addrs_def INT_MAX_def)

lemma push_first_ok:
  assumes "queue_ok q" "a \<noteq> 0" "queueSize q = 0"
  shows "\<exists>q'. taskQueuePush a junk fd q = (Inr 0, q') \<and> queue_ok q' \<and> contents q' = contents q @ [fd]"
  using assms
  by (auto simp: taskQueuePush_def count_up_def queue_ok_def contents_def addrs_def fd_at_def
      INT_MAX_def)

lemma push_more_ok:
  assumes ok: "queue_ok q" and a: "a \<noteq> 0" "heap q a = None"
    and n: "queueSize q \<noteq> 0" "queueSize q < INT_MAX"
  shows "\<exists>q'. taskQueuePush a junk fd q = (Inr 0, q') \<and> queue_ok q' \<and> contents q' = contents q @ [fd]"
proof -
  from ok n obtain k where k: "nat (queueSize q) = Suc k" "nat (queueSize q + 1) = Suc (Suc k)"
    by (cases "nat (queueSize q)") (auto simp: queue_ok_def)
  define h1 where "h1 = (heap q)(a := Some \<lparr>netFd = fd, Pnext = junk\<rparr>)"
  have fresh: "a \<notin> set (addrs q)"
    using ok a(2) by (auto simp: queue_ok_def)
  have h1_nodes: "nodes h1 (phead q) (Suc k) = addrs q"
    using fresh unfolding h1_def addrs_def k(1) by (rule nodes_other)
  have ne: "addrs q \<noteq> []" by (simp add: addrs_def k(1))
  have last: "ptail q = last (addrs q)" using ok n(1) by (simp add: queue_ok_def)
  with ne have tail: "ptail q \<in> set (addrs q)" by simp
  with ok obtain t where t: "heap q (ptail q) = Some t" by (auto simp: queue_ok_def)
  from tail fresh have "ptail q \<noteq> a" by blast
  with t have t1: "h1 (ptail q) = Some t" by (simp add: h1_def)
  from ok k have all: "length (addrs q) = Suc k" "distinct (addrs q)"
    by (simp_all add: queue_ok_def)
  define h2 where "h2 = h1(ptail q := Some (t\<lparr>Pnext := a\<rparr>))"
  let ?q' = "q\<lparr>heap := h2, ptail := a, queueSize := queueSize q + 1\<rparr>"
  have "nodes h2 (phead q) (Suc (Suc k)) = nodes h1 (phead q) (Suc k) @ [a]"
    using last by (simp only: h2_def, intro nodes_snoc) (simp_all only: h1_nodes all)
  moreover have "addrs ?q' = nodes h2 (phead q) (Suc (Suc k))"
    by (simp add: addrs_def k(2) del: nodes.simps)
  ultimately have addrs': "addrs ?q' = addrs q @ [a]"
    by (simp only: h1_nodes)
  have h2: "fd_at h2 = fd_at h1"
    unfolding h2_def using t1 by (rule fd_at_next)
  then have "map (fd_at h2) (addrs q) = map (fd_at (heap q)) (addrs q)"
    by (simp only: h1_def fd_at_other [OF fresh])
  moreover have "fd_at h2 a = fd"
    unfolding h2 by (simp add: h1_def fd_at_def)
  ultimately have "contents ?q' = contents q @ [fd]"
    by (simp add: contents_def addrs')
  moreover have "dom h2 = insert a (dom (heap q))"
    using t by (auto simp: h1_def h2_def)
  then have "queue_ok ?q'"
    using ok n(2) a fresh by (auto simp: queue_ok_def addrs')
  moreover have "taskQueuePush a junk fd q = (Inr 0, ?q')"
    using a(1) n t1 by (simp add: taskQueuePush_def count_up_def h1_def h2_def)
  ultimately show ?thesis by blast
qed

lemma push_ok:
  assumes "queue_ok q" "a \<noteq> 0" "heap q a = None" "queueSize q < INT_MAX"
  shows "\<exists>q'. taskQueuePush a junk fd q = (Inr 0, q') \<and> queue_ok q' \<and> contents q' = contents q @ [fd]"
  using assms push_first_ok push_more_ok by (cases "queueSize q = 0") blast+

lemma front_pop_ok:
  assumes ok: "queue_ok q" and c: "contents q = fd # fds"
  shows "taskQueueFront q = (Inr fd, q)"
    "\<exists>q'. taskQueuePop q = (Inr 0, q') \<and> queue_ok q' \<and> contents q' = fds"
proof -
  from ok c have "queueSize q \<noteq> 0" by (auto simp: queue_empty_ok [symmetric])
  with ok obtain k where k: "nat (queueSize q) = Suc k" "nat (queueSize q - 1) = k"
    by (cases "nat (queueSize q)") (auto simp: queue_ok_def)
  then have "phead q \<in> set (addrs q)" by (simp add: addrs_def)
  with ok obtain n where n: "heap q (phead q) = Some n" by (auto simp: queue_ok_def)
  with k have addrs: "addrs q = phead q # nodes (heap q) (Pnext n) k" by (simp add: addrs_def)
  with n c show "taskQueueFront q = (Inr fd, q)"
    by (simp add: taskQueueFront_def contents_def fd_at_def)
  let ?h = "(heap q)(phead q := None)"
  let ?q' = "q\<lparr>heap := ?h, phead := Pnext n,
    ptail := (if queueSize q = 1 then 0 else ptail q), queueSize := queueSize q - 1\<rparr>"
  from ok addrs have head: "phead q \<notin> set (nodes (heap q) (Pnext n) k)"
    by (simp add: queue_ok_def)
  then have addrs': "addrs ?q' = nodes (heap q) (Pnext n) k"
    by (simp add: addrs_def k(2) nodes_other)
  with head addrs c have "contents ?q' = fds"
    by (simp add: contents_def fd_at_other)
  moreover have "queue_ok ?q'"
    using ok addrs addrs' head k by (auto simp: queue_ok_def)
  moreover have "taskQueuePop q = (Inr 0, ?q')"
    using \<open>queueSize q \<noteq> 0\<close> n by (simp add: taskQueuePop_def)
  ultimately show "\<exists>q'. taskQueuePop q = (Inr 0, q') \<and> queue_ok q' \<and> contents q' = fds" by blast
qed

lemma pop_empty: "queue_ok q \<Longrightarrow> contents q = [] \<Longrightarrow> taskQueuePop q = (Inr (-1), q)"
  by (simp add: taskQueuePop_def queue_empty_ok)

section \<open>The contract of a queue\<close>

text \<open>
  What the pool relies on: \<open>push\<close> appends when there is room (\<open>'c\<close> is what the allocator
  answers), \<open>front\<close> reads the oldest item, \<open>pop\<close> removes it, and all keep the invariant.
\<close>

locale fifo =
  fixes push :: "'c \<Rightarrow> int \<Rightarrow> ('q, int) prog"
    and front :: "('q, int) prog" and pop :: "('q, int) prog"
    and items :: "'q \<Rightarrow> int list" and inv :: "'q \<Rightarrow> bool" and room :: "'c \<Rightarrow> 'q \<Rightarrow> bool"
  assumes push_law: "inv q \<Longrightarrow> room c q \<Longrightarrow>
      \<exists>q'. push c x q = (Inr 0, q') \<and> inv q' \<and> items q' = items q @ [x]"
    and front_law: "inv q \<Longrightarrow> items q = x # xs \<Longrightarrow> front q = (Inr x, q)"
    and pop_law: "inv q \<Longrightarrow> items q = x # xs \<Longrightarrow>
      \<exists>q'. pop q = (Inr 0, q') \<and> inv q' \<and> items q' = xs"
    and pop_none: "inv q \<Longrightarrow> items q = [] \<Longrightarrow> pop q = (Inr (-1), q)"

text \<open>A client's calls: it pushes, or reads the front and pops, and collects what it read.\<close>

datatype 'c queue_call = Push 'c int | Take

fun queue_run ::
  "('c \<Rightarrow> int \<Rightarrow> ('q, int) prog) \<Rightarrow> ('q, int) prog \<Rightarrow> ('q, int) prog \<Rightarrow>
   'c queue_call list \<Rightarrow> ('q, int list) prog"
where
  "queue_run push front pop [] = ret []"
| "queue_run push front pop (Push c x # es) = next_do (push c x) (queue_run push front pop es)"
| "queue_run push front pop (Take # es) =
     bnd front (\<lambda>x. next_do pop (bnd (queue_run push front pop es) (\<lambda>xs. ret (x # xs))))"

text \<open>Calls in their place: room for every push, something to read for every take.\<close>

fun queue_legal ::
  "('c \<Rightarrow> int \<Rightarrow> ('q, int) prog) \<Rightarrow> ('q, int) prog \<Rightarrow> ('q \<Rightarrow> int list) \<Rightarrow> ('c \<Rightarrow> 'q \<Rightarrow> bool) \<Rightarrow>
   'c queue_call list \<Rightarrow> 'q \<Rightarrow> bool"
where
  "queue_legal push pop items room [] q = True"
| "queue_legal push pop items room (Push c x # es) q =
     (room c q \<and> queue_legal push pop items room es (snd (push c x q)))"
| "queue_legal push pop items room (Take # es) q =
     (items q \<noteq> [] \<and> queue_legal push pop items room es (snd (pop q)))"

fun pushed :: "'c queue_call list \<Rightarrow> int list" where
  "pushed [] = []"
| "pushed (Push c x # es) = x # pushed es"
| "pushed (Take # es) = pushed es"

context fifo
begin

lemma take_law:
  assumes "inv q" "items q = x # xs"
  shows "\<exists>q'. bnd front (\<lambda>y. next_do pop (ret y)) q = (Inr x, q') \<and> inv q' \<and> items q' = xs"
  using front_law [OF assms] pop_law [OF assms] by (auto simp: bnd_def next_do_def run)

lemma run_fifo:
  assumes "inv q" "queue_legal push pop items room es q"
  shows "\<exists>xs q'. queue_run push front pop es q = (Inr xs, q') \<and> inv q' \<and>
    items q @ pushed es = xs @ items q'"
  using assms
proof (induction es arbitrary: q)
  case Nil
  then show ?case by (simp add: run)
next
  case (Cons e es)
  show ?case
  proof (cases e)
    case (Push c x)
    with Cons.prems push_law [of q c x] obtain q1
      where q1: "push c x q = (Inr 0, q1)" "inv q1" "items q1 = items q @ [x]" by auto
    with Cons.prems Push have "queue_legal push pop items room es q1" by simp
    from Cons.IH [OF q1(2) this] q1 Push show ?thesis by (auto simp: next_do_run)
  next
    case Take
    with Cons.prems obtain x xs where x: "items q = x # xs" by (auto simp: neq_Nil_conv)
    with Cons.prems(1) obtain q1
      where q1: "front q = (Inr x, q)" "pop q = (Inr 0, q1)" "inv q1" "items q1 = xs"
      using front_law pop_law by blast
    with Cons.prems Take have "queue_legal push pop items room es q1" by simp
    from Cons.IH [OF q1(3) this] q1 x Take show ?thesis
      by (auto simp: bnd_run next_do_run run)
  qed
qed

end

text \<open>The allocator answers a node that is not in use; the counter does not overflow.\<close>

definition fresh_node :: "nat \<times> nat \<Rightarrow> tqueue \<Rightarrow> bool" where
  "fresh_node c q \<longleftrightarrow> fst c \<noteq> 0 \<and> heap q (fst c) = None \<and> queueSize q < INT_MAX"

definition push_node :: "nat \<times> nat \<Rightarrow> int \<Rightarrow> (tqueue, int) prog" where
  "push_node c fd = taskQueuePush (fst c) (snd c) fd"

text \<open>The worker's critical section: \<open>clientFd = phead_->netFd; taskQueuePop(...)\<close>.\<close>

definition takeTask :: "(tqueue, int) prog" where
  "takeTask = bnd taskQueueFront (\<lambda>clientFd. next_do taskQueuePop (ret clientFd))"

interpretation tq: fifo push_node taskQueueFront taskQueuePop contents queue_ok fresh_node
proof unfold_locales
  fix q c x
  assume "queue_ok q" "fresh_node c q"
  then show "\<exists>q'. push_node c x q = (Inr 0, q') \<and> queue_ok q' \<and> contents q' = contents q @ [x]"
    using push_ok by (simp add: fresh_node_def push_node_def)
qed (use front_pop_ok pop_empty in blast)+

section \<open>Property\<close>

definition empty_queue :: tqueue where
  "empty_queue = \<lparr>heap = Map.empty, queueSize = 0, phead = 0, ptail = 0\<rparr>"

text \<open>
  C30. First in, first out: any sequence of pushes and takes that never takes from an empty queue
  runs without touching a freed or missing node, and what it reads, followed by what is left in
  the queue, is what was in the queue followed by what was pushed, in order; the node heap stays
  exactly the nodes of the list (no leak, no dangling node).
\<close>

theorem queue_fifo:
  assumes "queue_ok q" "queue_legal push_node taskQueuePop contents fresh_node es q"
  shows "\<exists>xs q'. queue_run push_node taskQueueFront taskQueuePop es q = (Inr xs, q') \<and> queue_ok q' \<and>
    contents q @ pushed es = xs @ contents q'"
  using assms by (rule tq.run_fifo)

theorem queue_fifo_witness:
  "\<exists>xs q'. queue_run push_node taskQueueFront taskQueuePop
      [Push (1, 7) 10, Push (2, 7) 11, Take, Push (1, 9) 12, Take] empty_queue = (Inr xs, q') \<and>
    queue_ok q' \<and> contents empty_queue @ [10, 11, 12] = xs @ contents q'"
proof -
  let ?es = "[Push (1, 7) 10, Push (2, 7) 11, Take, Push (1, 9) 12, Take] :: (nat \<times> nat) queue_call list"
  have "queue_ok empty_queue"
    by (simp add: empty_queue_def queue_ok_def addrs_def INT_MAX_def)
  moreover have "queue_legal push_node taskQueuePop contents fresh_node ?es empty_queue"
    by (simp add: empty_queue_def contents_def addrs_def INT_MAX_def fresh_node_def
        push_node_def taskQueuePush_def taskQueuePop_def count_up_def fd_at_def numeral_2_eq_2)
  moreover have "pushed ?es = [10, 11, 12]" by simp
  ultimately show ?thesis using queue_fifo [of empty_queue ?es] by (simp only:)
qed

end
