(* ===== verification/Worker_Pool.thy ===== *)
theory Worker_Pool
  imports Task_Queue
begin

text \<open>
  The thread pool: \<open>server/threadPool.c\<close>, \<open>server/worker.c\<close> and the event loop of
  \<open>server/server.c\<close>. The workers and the main thread interleave freely; every lock operation,
  condition variable operation and critical section of the code is a step of the relation
  \<open>pool_step\<close>. \<open>pthread_cond_wait\<close> may also return without a signal; \<open>unasked\<close> tells these steps
  from the others. \<open>handleClient\<close> is a step
  that takes any time; what it does is modelled in theory \<open>Client_Handle\<close>.
\<close>

section \<open>Start-up\<close>

record workerArr =
  threadId :: "nat list"
  workerNum :: int

text \<open>\<open>calloc_ok\<close> tells whether \<open>calloc\<close> returned memory, which is zeroed.\<close>

definition tidArrInit :: "bool \<Rightarrow> int \<Rightarrow> workerArr \<Rightarrow> (stop + int) \<times> workerArr" where
  "tidArrInit calloc_ok n arr =
     (if \<not> calloc_ok then (Inl (Exits 1), arr)
      else (Inr 0, arr\<lparr>threadId := replicate (nat n) 0, workerNum := n\<rparr>))"

text \<open>
  \<open>makeWorker\<close>: \<open>create i\<close> is what \<open>pthread_create\<close> returns for thread \<open>i\<close> and the identifier it
  stores. \<open>ERROR_CHECK\<close> compares the return value with \<open>-1\<close>.
\<close>

function makeWorker_loop :: "(nat \<Rightarrow> int \<times> nat) \<Rightarrow> nat \<Rightarrow> workerArr \<Rightarrow> (stop + int) \<times> workerArr"
where
  "makeWorker_loop create i arr =
     (if int i < workerNum arr then
        (case create i of
           (cre_ret, tid) \<Rightarrow>
             let arr1 = arr\<lparr>threadId := (threadId arr)[i := (if cre_ret = 0 then tid else threadId arr ! i)]\<rparr>
             in if cre_ret = -1 then (Inl (Exits 1), arr1) else makeWorker_loop create (Suc i) arr1)
      else (Inr 0, arr))"
  by pat_completeness auto
termination
  by (relation "measure (\<lambda>(create, i, arr). nat (workerNum arr - int i))") auto

declare makeWorker_loop.simps [simp del]

definition makeWorker :: "(nat \<Rightarrow> int \<times> nat) \<Rightarrow> workerArr \<Rightarrow> (stop + int) \<times> workerArr" where
  "makeWorker create = makeWorker_loop create 0"

section \<open>The pool at work\<close>

datatype thread_name = Master | Worker nat

text \<open>
  Where a worker is in \<open>workerFunc\<close>: before \<open>pthread_mutex_lock\<close>; holding the mutex, at the
  \<open>while\<close> condition; inside \<open>pthread_cond_wait\<close>; woken and about to take the mutex back; holding
  the mutex, about to leave; holding the mutex with a connection taken from the queue; in
  \<open>handleClient\<close>; returned.
\<close>

datatype worker_pc =
  WTop | WHolding | WWaiting | WWoken | WLeaving | WTaken int | WServing int | WExited

text \<open>
  Where the main thread is: in \<open>epoll_wait\<close>; with an accepted connection, before, in and after
  the critical section that queues it; with the exit message read, before, in and after the
  critical section that sets the flag; joining worker \<open>j\<close>; returned.
\<close>

datatype master_pc =
  MLoop | MAccepted int | MPushing int | MSignal | MUnlock
| MExit | MExitLocked | MBroadcast | MExitUnlock | MJoin nat | MDone

text \<open>For the statements only, \<open>accepted\<close> and \<open>served\<close> record the connections queued (by
  \<open>taskQueuePush\<close>) and taken so far, in order; the connections \<open>accept\<close> has returned are in the log of
  theory \<open>Server_Main\<close>.\<close>

record pool =
  ptaskQueue :: tqueue
  exitFlag :: int
  mutex :: "thread_name option"
  workers :: "worker_pc list"
  master :: master_pc
  accepted :: "int list"
  served :: "int list"

definition threadPoolInit :: "bool \<Rightarrow> int \<Rightarrow> workerArr \<times> pool \<Rightarrow> (stop + int) \<times> (workerArr \<times> pool)"
where
  "threadPoolInit calloc_ok numThreads ap =
     (case tidArrInit calloc_ok numThreads (fst ap) of
        (Inl e, arr) \<Rightarrow> (Inl e, (arr, snd ap))
      | (Inr _, arr) \<Rightarrow>
          (case taskQueueInit (ptaskQueue (snd ap)) of
             (Inl e, q) \<Rightarrow> (Inl e, (arr, (snd ap)\<lparr>ptaskQueue := q\<rparr>))
           | (Inr _, q) \<Rightarrow> (Inr 0, (arr, (snd ap)\<lparr>ptaskQueue := q, exitFlag := 0, mutex := None\<rparr>))))"

text \<open>The pool when \<open>main\<close> enters its loop: all \<open>n\<close> workers created, none has run yet.\<close>

definition pool_start :: "nat \<Rightarrow> pool" where
  "pool_start n =
     \<lparr>ptaskQueue = empty_queue, exitFlag = 0, mutex = None, workers = replicate n WTop,
      master = MLoop, accepted = [], served = []\<rparr>"

text \<open>The condition of the worker's \<open>while\<close> around \<open>pthread_cond_wait\<close>.\<close>

definition must_wait :: "pool \<Rightarrow> bool" where
  "must_wait s \<longleftrightarrow> exitFlag s = 0 \<and> queueSize (ptaskQueue s) \<le> 0"

text \<open>\<open>pthread_cond_broadcast\<close> ends every wait.\<close>

definition wake :: "worker_pc \<Rightarrow> worker_pc" where
  "wake w = (if w = WWaiting then WWoken else w)"

text \<open>The steps of a worker, from \<open>workerFunc\<close>.\<close>

inductive worker_step :: "pool \<Rightarrow> pool \<Rightarrow> bool" where
  w_lock: "i < length (workers s) \<Longrightarrow> workers s ! i = WTop \<Longrightarrow> mutex s = None \<Longrightarrow>
    worker_step s (s\<lparr>workers := (workers s)[i := WHolding], mutex := Some (Worker i)\<rparr>)"
| w_wait: "i < length (workers s) \<Longrightarrow> workers s ! i = WHolding \<Longrightarrow> must_wait s \<Longrightarrow>
    worker_step s (s\<lparr>workers := (workers s)[i := WWaiting], mutex := None\<rparr>)"
| w_wake: "i < length (workers s) \<Longrightarrow> workers s ! i = WWaiting \<Longrightarrow>
    worker_step s (s\<lparr>workers := (workers s)[i := WWoken]\<rparr>)"
| w_relock: "i < length (workers s) \<Longrightarrow> workers s ! i = WWoken \<Longrightarrow> mutex s = None \<Longrightarrow>
    worker_step s (s\<lparr>workers := (workers s)[i := WHolding], mutex := Some (Worker i)\<rparr>)"
| w_leave: "i < length (workers s) \<Longrightarrow> workers s ! i = WHolding \<Longrightarrow> \<not> must_wait s \<Longrightarrow>
    exitFlag s = 1 \<Longrightarrow>
    worker_step s (s\<lparr>workers := (workers s)[i := WLeaving]\<rparr>)"
| w_exit: "i < length (workers s) \<Longrightarrow> workers s ! i = WLeaving \<Longrightarrow>
    worker_step s (s\<lparr>workers := (workers s)[i := WExited], mutex := None\<rparr>)"
| w_take: "i < length (workers s) \<Longrightarrow> workers s ! i = WHolding \<Longrightarrow> \<not> must_wait s \<Longrightarrow>
    exitFlag s \<noteq> 1 \<Longrightarrow> takeTask (ptaskQueue s) = (Inr fd, q) \<Longrightarrow>
    worker_step s (s\<lparr>workers := (workers s)[i := WTaken fd], ptaskQueue := q, served := served s @ [fd]\<rparr>)"
| w_unlock: "i < length (workers s) \<Longrightarrow> workers s ! i = WTaken fd \<Longrightarrow>
    worker_step s (s\<lparr>workers := (workers s)[i := WServing fd], mutex := None\<rparr>)"
| w_done: "i < length (workers s) \<Longrightarrow> workers s ! i = WServing fd \<Longrightarrow>
    worker_step s (s\<lparr>workers := (workers s)[i := WTop]\<rparr>)"

text \<open>The steps of the main thread on the pool, from the event loop of \<open>main\<close>; theory \<open>Server_Main\<close>
  adds the other system calls it makes.\<close>

inductive master_step :: "pool \<Rightarrow> pool \<Rightarrow> bool" where
  m_accept: "master s = MLoop \<Longrightarrow> master_step s (s\<lparr>master := MAccepted fd\<rparr>)"
| m_lock: "master s = MAccepted fd \<Longrightarrow> mutex s = None \<Longrightarrow>
    master_step s (s\<lparr>master := MPushing fd, mutex := Some Master\<rparr>)"
| m_push: "master s = MPushing fd \<Longrightarrow> fresh_node c (ptaskQueue s) \<Longrightarrow>
    push_node c fd (ptaskQueue s) = (Inr r, q) \<Longrightarrow>
    master_step s (s\<lparr>master := MSignal, ptaskQueue := q, accepted := accepted s @ [fd]\<rparr>)"
| m_signal: "master s = MSignal \<Longrightarrow> i < length (workers s) \<Longrightarrow> workers s ! i = WWaiting \<Longrightarrow>
    master_step s (s\<lparr>master := MUnlock, workers := (workers s)[i := WWoken]\<rparr>)"
| m_signal_none: "master s = MSignal \<Longrightarrow> WWaiting \<notin> set (workers s) \<Longrightarrow>
    master_step s (s\<lparr>master := MUnlock\<rparr>)"
| m_unlock: "master s = MUnlock \<Longrightarrow> master_step s (s\<lparr>master := MLoop, mutex := None\<rparr>)"
| m_exit_event: "master s = MLoop \<Longrightarrow> master_step s (s\<lparr>master := MExit\<rparr>)"
| m_exit_lock: "master s = MExit \<Longrightarrow> mutex s = None \<Longrightarrow>
    master_step s (s\<lparr>master := MExitLocked, mutex := Some Master\<rparr>)"
| m_exit_flag: "master s = MExitLocked \<Longrightarrow>
    master_step s (s\<lparr>master := MBroadcast, exitFlag := 1\<rparr>)"
| m_broadcast: "master s = MBroadcast \<Longrightarrow>
    master_step s (s\<lparr>master := MExitUnlock, workers := map wake (workers s)\<rparr>)"
| m_exit_unlock: "master s = MExitUnlock \<Longrightarrow>
    master_step s (s\<lparr>master := MJoin 0, mutex := None\<rparr>)"
| m_join: "master s = MJoin j \<Longrightarrow> j < length (workers s) \<Longrightarrow> workers s ! j = WExited \<Longrightarrow>
    master_step s (s\<lparr>master := MJoin (Suc j)\<rparr>)"
| m_done: "master s = MJoin j \<Longrightarrow> length (workers s) \<le> j \<Longrightarrow>
    master_step s (s\<lparr>master := MDone\<rparr>)"

inductive pool_step :: "pool \<Rightarrow> pool \<Rightarrow> bool" where
  by_worker: "worker_step s t \<Longrightarrow> pool_step s t"
| by_master: "master_step s t \<Longrightarrow> pool_step s t"

text \<open>A wait that ends although nobody has asked for it, which \<open>pthread_cond_wait\<close> may do but need not.\<close>

definition unasked :: "pool \<Rightarrow> pool \<Rightarrow> bool" where
  "unasked s t \<longleftrightarrow> (\<exists>i < length (workers s). workers s ! i = WWaiting \<and> t = s\<lparr>workers := (workers s)[i := WWoken]\<rparr>)"

inductive pool_reach :: "nat \<Rightarrow> pool \<Rightarrow> bool" for n :: nat where
  pool_init: "pool_reach n (pool_start n)"
| pool_next: "pool_reach n s \<Longrightarrow> pool_step s t \<Longrightarrow> pool_reach n t"

section \<open>Invariants\<close>

fun worker_holds :: "worker_pc \<Rightarrow> bool" where
  "worker_holds WHolding = True"
| "worker_holds WLeaving = True"
| "worker_holds (WTaken _) = True"
| "worker_holds _ = False"

fun master_holds :: "master_pc \<Rightarrow> bool" where
  "master_holds (MPushing _) = True"
| "master_holds MSignal = True"
| "master_holds MUnlock = True"
| "master_holds MExitLocked = True"
| "master_holds MBroadcast = True"
| "master_holds MExitUnlock = True"
| "master_holds _ = False"

text \<open>The mutex records who is in a critical section.\<close>

definition lock_inv :: "pool \<Rightarrow> bool" where
  "lock_inv s \<longleftrightarrow>
     (\<forall>i < length (workers s). worker_holds (workers s ! i) \<longleftrightarrow> mutex s = Some (Worker i)) \<and>
     (\<forall>i. mutex s = Some (Worker i) \<longrightarrow> i < length (workers s)) \<and>
     (master_holds (master s) \<longleftrightarrow> mutex s = Some Master)"

text \<open>The queue holds what was accepted and not yet taken, in order.\<close>

definition queue_inv :: "pool \<Rightarrow> bool" where
  "queue_inv s \<longleftrightarrow>
     queue_ok (ptaskQueue s) \<and> accepted s = served s @ contents (ptaskQueue s)"

text \<open>The flag is set by the main thread once, just before it broadcasts; from the broadcast on
  nobody waits.\<close>

fun shutting :: "master_pc \<Rightarrow> bool" where
  "shutting MExitUnlock = True"
| "shutting (MJoin _) = True"
| "shutting MDone = True"
| "shutting _ = False"

definition exit_inv :: "pool \<Rightarrow> bool" where
  "exit_inv s \<longleftrightarrow>
     exitFlag s = (if master s = MBroadcast \<or> shutting (master s) then 1 else 0) \<and>
     (shutting (master s) \<longrightarrow> WWaiting \<notin> set (workers s)) \<and>
     (\<forall>j. master s = MJoin j \<longrightarrow> j \<le> length (workers s) \<and> (\<forall>k < j. workers s ! k = WExited)) \<and>
     (master s = MDone \<longrightarrow> (\<forall>k < length (workers s). workers s ! k = WExited))"

text \<open>Workers on their way to the queue. As long as a worker waits there is one of them for every
  queued connection, but for the one whose signal is still to come.\<close>

fun heading :: "worker_pc \<Rightarrow> bool" where
  "heading WTop = True"
| "heading WHolding = True"
| "heading WWoken = True"
| "heading _ = False"

definition wakeup_inv :: "pool \<Rightarrow> bool" where
  "wakeup_inv s \<longleftrightarrow>
     (exitFlag s = 0 \<and> WWaiting \<in> set (workers s) \<longrightarrow>
       length (contents (ptaskQueue s))
         \<le> length (filter heading (workers s)) + of_bool (master s = MSignal))"

lemma takeTask_ok:
  assumes "queue_ok q" "takeTask q = (Inr fd, q')" "queueSize q \<noteq> 0"
  shows "queue_ok q' \<and> contents q = fd # contents q'"
proof -
  from assms(1,3) obtain x xs where "contents q = x # xs"
    by (auto simp: queue_empty_ok [symmetric] neq_Nil_conv)
  with tq.take_law [OF assms(1) this] assms(2) show ?thesis by (auto simp: takeTask_def)
qed

lemma push_node_ok:
  assumes "queue_ok q" "fresh_node c q" "push_node c fd q = (Inr r, q')"
  shows "queue_ok q' \<and> contents q' = contents q @ [fd]"
  using tq.push_law [OF assms(1,2), of fd] assms(3) by auto

lemma must_wait_iff:
  "queue_inv s \<Longrightarrow> must_wait s \<longleftrightarrow> exitFlag s = 0 \<and> contents (ptaskQueue s) = []"
  by (auto simp: must_wait_def queue_inv_def queue_empty_ok)
    (simp add: queue_ok_def)

lemma lock_inv_step: "pool_step s t \<Longrightarrow> lock_inv s \<Longrightarrow> lock_inv t"
  by (induction rule: pool_step.induct; elim worker_step.cases master_step.cases)
    (auto simp: lock_inv_def wake_def nth_list_update)

lemma exit_inv_step: "pool_step s t \<Longrightarrow> exit_inv s \<Longrightarrow> exit_inv t"
  by (induction rule: pool_step.induct; elim worker_step.cases master_step.cases)
    (auto simp: exit_inv_def must_wait_def nth_list_update less_Suc_eq wake_def
      dest: set_update_subset_insert [THEN subsetD])

lemma exit_flag_cases: "exit_inv s \<Longrightarrow> exitFlag s \<noteq> 1 \<Longrightarrow> exitFlag s = 0"
  by (simp add: exit_inv_def split: if_splits)

lemma queue_inv_step: "pool_step s t \<Longrightarrow> exit_inv s \<Longrightarrow> queue_inv s \<Longrightarrow> queue_inv t"
  by (induction rule: pool_step.induct; elim worker_step.cases master_step.cases)
    (auto simp: queue_inv_def must_wait_def dest: push_node_ok takeTask_ok exit_flag_cases)

lemma waiting_update:
  "WWaiting \<in> set (ws[i := w]) \<Longrightarrow> w \<noteq> WWaiting \<Longrightarrow> WWaiting \<in> set ws"
  using set_update_subset_insert [of ws i w] by auto

lemma wakeup_inv_worker:
  "worker_step s t \<Longrightarrow> exit_inv s \<Longrightarrow> queue_inv s \<Longrightarrow> wakeup_inv s \<Longrightarrow> wakeup_inv t"
proof (induction rule: worker_step.induct)
  case (w_wait i s)
  then show ?case by (simp add: wakeup_inv_def must_wait_iff)
next
  case (w_take i s fd q)
  then have "contents (ptaskQueue s) = fd # contents q"
    using takeTask_ok [of "ptaskQueue s" fd q]
    by (auto simp: queue_inv_def must_wait_def dest: exit_flag_cases)
  with w_take count_update [of i "workers s" heading "WTaken fd"] show ?case
    by (auto simp: wakeup_inv_def dest: waiting_update)
next
  case (w_lock i s)
  with count_update [of i "workers s" heading WHolding] show ?case
    by (auto simp: wakeup_inv_def dest: waiting_update)
next
  case (w_wake i s)
  with count_update [of i "workers s" heading WWoken] show ?case
    by (auto simp: wakeup_inv_def dest: waiting_update)
next
  case (w_relock i s)
  with count_update [of i "workers s" heading WHolding] show ?case
    by (auto simp: wakeup_inv_def dest: waiting_update)
next
  case (w_exit i s)
  with count_update [of i "workers s" heading WExited] show ?case
    by (auto simp: wakeup_inv_def dest: waiting_update)
next
  case (w_unlock i s fd)
  with count_update [of i "workers s" heading "WServing fd"] show ?case
    by (auto simp: wakeup_inv_def dest: waiting_update)
next
  case (w_done i s fd)
  with count_update [of i "workers s" heading WTop] show ?case
    by (auto simp: wakeup_inv_def dest: waiting_update)
qed (auto simp: wakeup_inv_def exit_inv_def)

lemma wakeup_inv_master:
  "master_step s t \<Longrightarrow> exit_inv s \<Longrightarrow> queue_inv s \<Longrightarrow> wakeup_inv s \<Longrightarrow> wakeup_inv t"
proof (induction rule: master_step.induct)
  case (m_push s fd c r q)
  then show ?case
    using push_node_ok [of "ptaskQueue s" c fd r q] by (auto simp: wakeup_inv_def queue_inv_def)
next
  case (m_signal s i)
  with count_update [of i "workers s" heading WWoken] show ?case
    by (auto simp: wakeup_inv_def dest: waiting_update)
qed (auto simp: wakeup_inv_def exit_inv_def)

lemma wakeup_inv_step:
  "pool_step s t \<Longrightarrow> exit_inv s \<Longrightarrow> queue_inv s \<Longrightarrow> wakeup_inv s \<Longrightarrow> wakeup_inv t"
  by (elim pool_step.cases) (simp_all add: wakeup_inv_worker wakeup_inv_master)

text \<open>All of it together holds in every reachable state.\<close>

definition pool_inv :: "nat \<Rightarrow> pool \<Rightarrow> bool" where
  "pool_inv n s \<longleftrightarrow>
     length (workers s) = n \<and> lock_inv s \<and> queue_inv s \<and> exit_inv s \<and> wakeup_inv s"

lemma workers_length_step: "pool_step s t \<Longrightarrow> length (workers t) = length (workers s)"
  by (induction rule: pool_step.induct; elim worker_step.cases master_step.cases) simp_all

lemma pool_inv_start: "pool_inv n (pool_start n)"
  by (auto simp: pool_inv_def pool_start_def lock_inv_def queue_inv_def exit_inv_def wakeup_inv_def
      empty_queue_def queue_ok_def contents_def addrs_def INT_MAX_def)

lemma pool_inv_step: "pool_step s t \<Longrightarrow> pool_inv n s \<Longrightarrow> pool_inv n t"
  by (simp add: pool_inv_def workers_length_step lock_inv_step queue_inv_step exit_inv_step
      wakeup_inv_step)

lemma pool_reach_inv: "pool_reach n s \<Longrightarrow> pool_inv n s"
  by (induction rule: pool_reach.induct) (auto intro: pool_inv_start pool_inv_step)

lemmas pool_inv_defs = pool_inv_def lock_inv_def queue_inv_def exit_inv_def wakeup_inv_def

section \<open>Shutting down\<close>

text \<open>How many steps a thread has left once the exit flag has been broadcast.\<close>

fun worker_left :: "worker_pc \<Rightarrow> nat" where
  "worker_left (WTaken _) = 5"
| "worker_left (WServing _) = 4"
| "worker_left WWaiting = 4"
| "worker_left WTop = 3"
| "worker_left WWoken = 3"
| "worker_left WHolding = 2"
| "worker_left WLeaving = 1"
| "worker_left WExited = 0"

fun master_left :: "nat \<Rightarrow> master_pc \<Rightarrow> nat" where
  "master_left n MExitUnlock = n + 2"
| "master_left n (MJoin j) = n + 1 - j"
| "master_left n _ = 0"

definition steps_left :: "pool \<Rightarrow> nat" where
  "steps_left s =
     sum_list (map worker_left (workers s)) + master_left (length (workers s)) (master s)"

lemma worker_left_update:
  "i < length ws \<Longrightarrow> worker_left w < worker_left (ws ! i) \<Longrightarrow>
   sum_list (map worker_left (ws[i := w])) < sum_list (map worker_left ws)"
  using sum_list_map_update [of i ws worker_left w] by simp

lemma shutting_step_decreases:
  "pool_step s t \<Longrightarrow> exit_inv s \<Longrightarrow> shutting (master s) \<Longrightarrow>
   steps_left t < steps_left s \<and> shutting (master t) \<and> served t = served s
   \<and> ptaskQueue t = ptaskQueue s"
proof (induction rule: pool_step.induct)
  case (by_worker s t)
  then show ?case
  proof (induction rule: worker_step.induct)
    case (w_wake i s)
    then show ?case by (auto simp: exit_inv_def) (metis nth_mem)
  qed (auto simp: exit_inv_def must_wait_def steps_left_def intro: worker_left_update)
next
  case (by_master s t)
  then show ?case
    by (induction rule: master_step.induct) (auto simp: exit_inv_def steps_left_def)
qed

lemma shutting_run:
  assumes "(pool_step ^^ k) s t" "exit_inv s" "shutting (master s)"
  shows "k + steps_left t \<le> steps_left s \<and> shutting (master t) \<and> served t = served s
    \<and> ptaskQueue t = ptaskQueue s"
  using assms
proof (induction k arbitrary: t)
  case (Suc k)
  from Suc.prems(1) obtain u where u: "(pool_step ^^ k) s u" "pool_step u t" by auto
  note IH = Suc.IH [OF u(1) Suc.prems(2,3)]
  from u(1) Suc.prems(2) have "exit_inv u"
    by (induction k arbitrary: u) (auto intro: exit_inv_step)
  with shutting_step_decreases [OF u(2)] IH show ?case by auto
qed simp

text \<open>Nothing after the broadcast depends on a wait that ends unasked, because nobody waits.\<close>

lemma shutting_asked: "exit_inv s \<Longrightarrow> shutting (master s) \<Longrightarrow> \<not> unasked s t"
  unfolding unasked_def exit_inv_def by (metis nth_mem)

text \<open>Whoever holds the mutex after the broadcast can go on.\<close>

lemma holder_steps:
  assumes "lock_inv s" "exit_inv s" "shutting (master s)" "mutex s = Some (Worker i)"
  shows "\<exists>t. pool_step s t"
proof -
  from assms have i: "i < length (workers s)" "worker_holds (workers s ! i)"
    by (auto simp: lock_inv_def)
  from assms have flag: "exitFlag s = 1" "\<not> must_wait s"
    by (auto simp: exit_inv_def must_wait_def)
  show ?thesis
  proof (cases "workers s ! i")
    case WHolding
    with i flag show ?thesis by (blast intro: by_worker worker_step.w_leave)
  next
    case WLeaving
    with i show ?thesis by (blast intro: by_worker worker_step.w_exit)
  next
    case (WTaken fd)
    with i show ?thesis by (blast intro: by_worker worker_step.w_unlock)
  qed (use i in simp_all)
qed

lemma worker_steps:
  assumes "lock_inv s" "exit_inv s" "shutting (master s)" "master s \<noteq> MExitUnlock"
    "i < length (workers s)" "workers s ! i \<noteq> WExited"
  shows "\<exists>t. pool_step s t"
proof (cases "mutex s")
  case None
  with assms have no: "\<not> worker_holds (workers s ! i)" "workers s ! i \<noteq> WWaiting"
    by (auto simp: lock_inv_def exit_inv_def) (metis nth_mem)
  show ?thesis
  proof (cases "workers s ! i")
    case WTop
    with assms(5) None show ?thesis by (blast intro: by_worker worker_step.w_lock)
  next
    case WWoken
    with assms(5) None show ?thesis by (blast intro: by_worker worker_step.w_relock)
  next
    case (WServing fd)
    with assms(5) show ?thesis by (blast intro: by_worker worker_step.w_done)
  qed (use no assms(6) in simp_all)
next
  case (Some h)
  show ?thesis
  proof (cases h)
    case Master
    with Some assms(1,3,4) show ?thesis
      by (cases "master s") (auto simp: lock_inv_def)
  next
    case (Worker j)
    with Some assms holder_steps show ?thesis by blast
  qed
qed

lemma shutting_progress:
  assumes "lock_inv s" "exit_inv s" "shutting (master s)" "master s \<noteq> MDone"
  shows "\<exists>t. pool_step s t"
proof (cases "master s")
  case MExitUnlock
  then show ?thesis by (blast intro: by_master master_step.m_exit_unlock)
next
  case (MJoin j)
  show ?thesis
  proof (cases "j < length (workers s) \<and> workers s ! j \<noteq> WExited")
    case True
    moreover from MJoin have "master s \<noteq> MExitUnlock" by simp
    ultimately show ?thesis using assms worker_steps by blast
  next
    case False
    with MJoin show ?thesis by (meson linorder_not_less by_master master_step.m_join master_step.m_done)
  qed
qed (use assms in simp_all)

lemma steps_left_bound: "steps_left s \<le> 6 * length (workers s) + 2"
proof -
  have "worker_left w \<le> 5" for w by (cases w) simp_all
  then have "sum_list (map worker_left ws) \<le> 5 * length ws" for ws
    by (induction ws) (auto intro: add_mono)
  moreover have "master_left n m \<le> n + 2" for n m by (cases m) simp_all
  ultimately have "sum_list (map worker_left (workers s)) \<le> 5 * length (workers s)"
    "master_left (length (workers s)) (master s) \<le> length (workers s) + 2" by blast+
  then show ?thesis unfolding steps_left_def by linarith
qed

section \<open>Runs for the witnesses\<close>

text \<open>One worker; connection 7 is accepted and queued in node 1.\<close>

definition one_queued :: tqueue where
  "one_queued =
     \<lparr>heap = [1 \<mapsto> \<lparr>netFd = 7, Pnext = 0\<rparr>], queueSize = 1, phead = 1, ptail = 1\<rparr>"

lemma push_one: "push_node (1, 0) 7 empty_queue = (Inr 0, one_queued)"
  by (simp add: push_node_def taskQueuePush_def count_up_def empty_queue_def one_queued_def
      INT_MAX_def)

lemma fresh_one: "fresh_node (1, 0) empty_queue"
  by (simp add: fresh_node_def empty_queue_def INT_MAX_def)

lemma reach_pushed:
  "pool_reach 1 \<lparr>ptaskQueue = one_queued, exitFlag = 0, mutex = Some Master, workers = [WTop],
     master = MSignal, accepted = [7], served = []\<rparr>"
proof -
  let ?s = "\<lambda>m p. \<lparr>ptaskQueue = empty_queue, exitFlag = 0, mutex = m, workers = [WTop],
     master = p, accepted = [], served = []\<rparr>"
  have "pool_reach 1 (?s None MLoop)"
    using pool_init [of 1] by (simp add: pool_start_def)
  from pool_next [OF this by_master [OF master_step.m_accept [of _ 7]]]
  have "pool_reach 1 (?s None (MAccepted 7))" by simp
  from pool_next [OF this by_master [OF master_step.m_lock [of _ 7]]]
  have "pool_reach 1 (?s (Some Master) (MPushing 7))" by simp
  from pool_next [OF this by_master [OF master_step.m_push [of _ 7 "(1, 0)" 0 one_queued]]]
  show ?thesis using push_one fresh_one by simp
qed

lemma reach_holding:
  "pool_reach 1 \<lparr>ptaskQueue = one_queued, exitFlag = 0, mutex = Some (Worker 0),
     workers = [WHolding], master = MLoop, accepted = [7], served = []\<rparr>"
proof -
  let ?s = "\<lambda>m p w. \<lparr>ptaskQueue = one_queued, exitFlag = 0, mutex = m, workers = [w],
     master = p, accepted = [7], served = []\<rparr>"
  from pool_next [OF reach_pushed by_master [OF master_step.m_signal_none]]
  have "pool_reach 1 (?s (Some Master) MUnlock WTop)" by simp
  from pool_next [OF this by_master [OF master_step.m_unlock]]
  have "pool_reach 1 (?s None MLoop WTop)" by simp
  from pool_next [OF this by_worker [OF worker_step.w_lock [of 0]]]
  show ?thesis by simp
qed

lemma reach_waiting:
  "pool_reach 1 \<lparr>ptaskQueue = empty_queue, exitFlag = 0, mutex = None, workers = [WWaiting],
     master = MLoop, accepted = [], served = []\<rparr>"
proof -
  let ?s = "\<lambda>m w. \<lparr>ptaskQueue = empty_queue, exitFlag = 0, mutex = m, workers = [w],
     master = MLoop, accepted = [], served = []\<rparr>"
  have "pool_reach 1 (?s None WTop)"
    using pool_init [of 1] by (simp add: pool_start_def)
  from pool_next [OF this by_worker [OF worker_step.w_lock [of 0]]]
  have "pool_reach 1 (?s (Some (Worker 0)) WHolding)" by simp
  from pool_next [OF this by_worker [OF worker_step.w_wait [of 0]]]
  show ?thesis by (simp add: must_wait_def empty_queue_def)
qed

text \<open>The exit message arrives while connection 7 is queued and the only worker has not run.\<close>

lemma reach_shutting:
  "pool_reach 1 \<lparr>ptaskQueue = one_queued, exitFlag = 1, mutex = Some Master, workers = [WTop],
     master = MExitUnlock, accepted = [7], served = []\<rparr>"
proof -
  let ?s = "\<lambda>m p f. \<lparr>ptaskQueue = one_queued, exitFlag = f, mutex = m, workers = [WTop],
     master = p, accepted = [7], served = []\<rparr>"
  from pool_next [OF reach_pushed by_master [OF master_step.m_signal_none]]
  have "pool_reach 1 (?s (Some Master) MUnlock 0)" by simp
  from pool_next [OF this by_master [OF master_step.m_unlock]]
  have "pool_reach 1 (?s None MLoop 0)" by simp
  from pool_next [OF this by_master [OF master_step.m_exit_event]]
  have "pool_reach 1 (?s None MExit 0)" by simp
  from pool_next [OF this by_master [OF master_step.m_exit_lock]]
  have "pool_reach 1 (?s (Some Master) MExitLocked 0)" by simp
  from pool_next [OF this by_master [OF master_step.m_exit_flag]]
  have "pool_reach 1 (?s (Some Master) MBroadcast 1)" by simp
  from pool_next [OF this by_master [OF master_step.m_broadcast]]
  show ?thesis by (simp add: wake_def)
qed

section \<open>Properties\<close>

text \<open>
  C10. Mutual exclusion: in every reachable state at most one thread is in a critical section of
  the pool's mutex: two workers that hold it are the same worker, and none holds it while the
  main thread does.
\<close>

theorem pool_mutual_exclusion:
  assumes "pool_reach n s" "i < n" "worker_holds (workers s ! i)"
  shows "(\<forall>j < n. worker_holds (workers s ! j) \<longrightarrow> i = j) \<and> \<not> master_holds (master s)"
  using pool_reach_inv [OF assms(1)] assms(2,3) by (auto simp: pool_inv_def lock_inv_def)

theorem pool_mutual_exclusion_witness:
  "worker_holds ([WHolding] ! 0) \<and> \<not> master_holds MLoop"
  using pool_mutual_exclusion [OF reach_holding, of 0] by simp

text \<open>
  C9. No connection is lost, duplicated or overtaken: in every reachable state the connections that
  have been pushed are, in order, those handed to workers followed by those in the queue, and the
  linked list in the heap is well formed with exactly its nodes allocated.
\<close>

theorem pool_fifo:
  assumes "pool_reach n s"
  shows "accepted s = served s @ contents (ptaskQueue s) \<and> queue_ok (ptaskQueue s)"
  using pool_reach_inv [OF assms] by (simp add: pool_inv_def queue_inv_def)

theorem pool_fifo_witness:
  "[7] = [] @ contents one_queued \<and> queue_ok one_queued"
  using pool_fifo [OF reach_holding] by simp

text \<open>
  A worker that gets past the wait loop without the exit flag takes the oldest queued
  connection: \<open>phead_\<close> points to a node, so reading \<open>phead_->netFd\<close> and freeing the node are
  defined.
\<close>

lemma worker_take_safe:
  assumes "pool_reach n s" "i < n" "workers s ! i = WHolding" "\<not> must_wait s" "exitFlag s \<noteq> 1"
  shows "\<exists>fd q. takeTask (ptaskQueue s) = (Inr fd, q) \<and> contents (ptaskQueue s) = fd # contents q
    \<and> queue_ok q"
proof -
  from pool_reach_inv [OF assms(1)] have inv: "queue_inv s" "exit_inv s"
    by (simp_all add: pool_inv_def)
  with assms(4,5) have "contents (ptaskQueue s) \<noteq> []"
    using exit_flag_cases must_wait_iff by blast
  then obtain fd fds where "contents (ptaskQueue s) = fd # fds" by (auto simp: neq_Nil_conv)
  with inv(1) tq.take_law show ?thesis by (fastforce simp: queue_inv_def takeTask_def)
qed

lemma worker_take_safe_example:
  "\<exists>fd q. takeTask one_queued = (Inr fd, q) \<and> contents one_queued = fd # contents q \<and> queue_ok q"
  using worker_take_safe [OF reach_holding, of 0] by (simp add: must_wait_def one_queued_def)

text \<open>
  C7. No lost wake-up: whenever a worker sleeps in \<open>pthread_cond_wait\<close> and the exit flag is not
  set, at least as many workers are awake and on their way to the queue as there are queued
  connections (one fewer only between the push and its signal).
\<close>

theorem no_lost_wakeup:
  assumes "pool_reach n s" "i < n" "workers s ! i = WWaiting" "exitFlag s = 0"
  shows "length (contents (ptaskQueue s))
    \<le> length (filter heading (workers s)) + (if master s = MSignal then 1 else 0)"
  using pool_reach_inv [OF assms(1)] assms(2-4) nth_mem [of i "workers s"]
  by (auto simp: pool_inv_def wakeup_inv_def split: if_splits)

theorem no_lost_wakeup_witness:
  "length (contents empty_queue) \<le> length (filter heading [WWaiting]) + 0"
  using no_lost_wakeup [OF reach_waiting, of 0] by simp

text \<open>
  Shutdown completes: once the exit flag has been broadcast, at most \<open>6 n + 2\<close> steps of all
  threads together remain (a call of \<open>handleClient\<close> that returns is one of them), some step is
  possible until the main thread has joined all workers, and when it has, all have returned.
\<close>

lemma shutdown_completes:
  assumes "pool_reach n s" "shutting (master s)"
  shows "(\<forall>k t. (pool_step ^^ k) s t \<longrightarrow> k \<le> 6 * n + 2) \<and>
    (master s \<noteq> MDone \<longrightarrow> (\<exists>t. pool_step s t)) \<and>
    (master s = MDone \<longrightarrow> (\<forall>i < n. workers s ! i = WExited))"
proof -
  from pool_reach_inv [OF assms(1)] have inv: "length (workers s) = n" "lock_inv s" "exit_inv s"
    by (simp_all add: pool_inv_def)
  have "k \<le> 6 * n + 2" if "(pool_step ^^ k) s t" for k t
    using shutting_run [OF that inv(3) assms(2)] steps_left_bound [of s] inv(1) by linarith
  with shutting_progress [OF inv(2,3) assms(2)] inv show ?thesis
    by (auto simp: exit_inv_def)
qed

lemma shutdown_completes_example:
  "\<exists>s. pool_reach 1 s \<and> shutting (master s) \<and> master s \<noteq> MDone \<and>
     (\<forall>t. \<not> (pool_step ^^ 9) s t) \<and> (\<exists>t. pool_step s t)"
proof -
  let ?s = "\<lparr>ptaskQueue = one_queued, exitFlag = 1, mutex = Some Master, workers = [WTop],
     master = MExitUnlock, accepted = [7], served = []\<rparr>"
  from shutdown_completes [OF reach_shutting]
  have "\<forall>k t. (pool_step ^^ k) ?s t \<longrightarrow> k \<le> 6 * 1 + 2" "\<exists>t. pool_step ?s t" by simp_all
  then have "\<forall>t. \<not> (pool_step ^^ 9) ?s t" by fastforce
  with \<open>\<exists>t. pool_step ?s t\<close> reach_shutting show ?thesis by (intro exI [of _ ?s]) simp
qed

text \<open>
  Shutdown abandons the queue: after the broadcast no worker takes another connection, so
  whatever is queued at that moment is never handed to \<open>handleClient\<close> and stays in the queue.
\<close>

lemma shutdown_drops_queue:
  assumes "pool_reach n s" "shutting (master s)" "(pool_step ^^ k) s t"
  shows "served t = served s \<and> contents (ptaskQueue t) = contents (ptaskQueue s)"
proof -
  from pool_reach_inv [OF assms(1)] have "exit_inv s" by (simp add: pool_inv_def)
  with shutting_run [OF assms(3) this assms(2)] show ?thesis by simp
qed

lemma shutdown_drops_queue_example:
  "\<exists>s. pool_reach 1 s \<and> contents (ptaskQueue s) = [7] \<and>
     \<not> (\<exists>k t. (pool_step ^^ k) s t \<and> (served t, contents (ptaskQueue t)) \<noteq> ([], [7]))"
proof -
  let ?s = "\<lparr>ptaskQueue = one_queued, exitFlag = 1, mutex = Some Master, workers = [WTop],
     master = MExitUnlock, accepted = [7], served = []\<rparr>"
  have "contents one_queued = [7]"
    by (simp add: contents_def addrs_def one_queued_def fd_at_def)
  moreover have "served t = [] \<and> contents (ptaskQueue t) = contents one_queued"
    if "(pool_step ^^ k) ?s t" for k t
    using shutdown_drops_queue [OF reach_shutting _ that] by simp
  ultimately show ?thesis using reach_shutting by (intro exI [of _ ?s]) simp
qed

end
