(* ===== verification/File_Path.thy ===== *)
theory File_Path
  imports Prelude
begin

text \<open>
  The path stack of \<open>server/filePath.c\<close>: a heap-allocated path string and a depth counter. The
  string is kept as its memory (an array with a terminator), so every store is bounds-checked.
  The intended meaning is a list of directory names, \<open>render\<close> writes one as a path, and
  \<open>stands_for\<close> relates the two.
\<close>

section \<open>State and operations\<close>

record filePath =
  path :: "char list option"
  top :: int

abbreviation SLASH :: char where
  "SLASH \<equiv> CHR 0x2F"

text \<open>\<open>malloc\<close> returns \<open>NULL\<close> or memory of the requested size with any contents.\<close>

definition initFilePath :: "bool \<Rightarrow> (nat \<Rightarrow> char list option) \<Rightarrow> filePath option" where
  "initFilePath malloc_ok malloc =
     (if \<not> malloc_ok then None
      else
        (case malloc 2 of
           None \<Rightarrow> None
         | Some mem \<Rightarrow> Some \<lparr>path = Some (mem[0 := SLASH, 1 := NUL]), top = 1\<rparr>))"

text \<open>The loop that shortens \<open>dirLen\<close> while the name ends in a slash.\<close>

fun trim_slashes :: "string \<Rightarrow> nat \<Rightarrow> nat" where
  "trim_slashes dir 0 = 0"
| "trim_slashes dir (Suc n) = (if dir ! n = SLASH then trim_slashes dir n else Suc n)"

text \<open>The four stores that build the new path in fresh memory \<open>mem\<close>.\<close>

definition build_path :: "char list \<Rightarrow> string \<Rightarrow> bool \<Rightarrow> string \<Rightarrow> char list option" where
  "build_path mem old isRoot dir =
     Option.bind (poke 0 old mem) (\<lambda>m1.
     Option.bind (if isRoot then Some m1 else poke (int (length old)) [SLASH] m1) (\<lambda>m2.
     let off = length old + (if isRoot then 0 else 1) in
     Option.bind (poke (int off) dir m2) (\<lambda>m3.
     poke (int (off + length dir)) [NUL] m3)))"

definition pushFilePath ::
  "(nat \<Rightarrow> char list option) \<Rightarrow> string option \<Rightarrow> filePath option \<Rightarrow> (stop + int) \<times> filePath option"
where
  "pushFilePath malloc dirName fp =
     (case fp of
        None \<Rightarrow> (Inr (-1), fp)
      | Some p \<Rightarrow>
        (case path p of
           None \<Rightarrow> (Inr (-1), fp)
         | Some mem \<Rightarrow>
           (case dirName of
              None \<Rightarrow> (Inr (-1), fp)
            | Some name \<Rightarrow>
              (let dir = dropWhile (\<lambda>c. c = SLASH) name in
               if dir = [] then (Inr (-1), fp)
               else
                 let dirLen = trim_slashes dir (length dir) in
                 if dirLen = 0 then (Inr (-1), fp)
                 else
                   (case cstr mem of
                      None \<Rightarrow> (Inl OutOfBounds, fp)
                    | Some old \<Rightarrow>
                      (let isRoot = (length old = 1 \<and> old ! 0 = SLASH);
                           newLen = length old + (if isRoot then 0 else 1) + dirLen in
                       case malloc (newLen + 1) of
                         None \<Rightarrow> (Inr (-1), fp)
                       | Some newPath \<Rightarrow>
                         (case build_path newPath old isRoot (take dirLen dir) of
                            None \<Rightarrow> (Inl OutOfBounds, fp)
                          | Some built \<Rightarrow>
                              if top p = INT_MAX then (Inl SignedOverflow, fp)
                              else (Inr 0, Some (p\<lparr>path := Some built, top := top p + 1\<rparr>)))))))))"

text \<open>\<open>strrchr\<close>: the last position of a character.\<close>

fun last_index :: "char \<Rightarrow> string \<Rightarrow> nat option" where
  "last_index c [] = None"
| "last_index c (x # xs) =
     (case last_index c xs of
        Some i \<Rightarrow> Some (Suc i)
      | None \<Rightarrow> if x = c then Some 0 else None)"

definition popFilePath :: "filePath option \<Rightarrow> (stop + int) \<times> filePath option" where
  "popFilePath fp =
     (case fp of
        None \<Rightarrow> (Inr (-1), fp)
      | Some p \<Rightarrow>
        (case path p of
           None \<Rightarrow> (Inr (-1), fp)
         | Some mem \<Rightarrow>
           if top p \<le> 1 then (Inr (-1), fp)
           else
           (case cstr mem of
              None \<Rightarrow> (Inl OutOfBounds, fp)
            | Some str \<Rightarrow>
              if str = [SLASH] then (Inr (-1), fp)
              else
                (case last_index SLASH str of
                   None \<Rightarrow> (Inr (-1), fp)
                 | Some i \<Rightarrow>
                   (case poke (if i = 0 then 1 else int i) [NUL] mem of
                      None \<Rightarrow> (Inl OutOfBounds, fp)
                    | Some mem' \<Rightarrow>
                        (Inr 0, Some (p\<lparr>path := Some mem', top := top p - 1\<rparr>)))))))"

section \<open>Paths as lists of names\<close>

definition name_ok :: "string \<Rightarrow> bool" where
  "name_ok d \<longleftrightarrow> d \<noteq> [] \<and> SLASH \<notin> set d \<and> no_nul d"

fun join :: "string list \<Rightarrow> string" where
  "join [] = []"
| "join (d # ds) = SLASH # d @ join ds"

definition render :: "string list \<Rightarrow> string" where
  "render ds = (if ds = [] then [SLASH] else join ds)"

definition stands_for :: "filePath option \<Rightarrow> string list \<Rightarrow> bool" where
  "stands_for fp ds \<longleftrightarrow>
     (case fp of
        None \<Rightarrow> False
      | Some p \<Rightarrow>
        (case path p of
           None \<Rightarrow> False
         | Some mem \<Rightarrow> cstr mem = Some (render ds)) \<and>
        top p = 1 + int (length ds) \<and> list_all name_ok ds)"

text \<open>An allocator that does not fail.\<close>

definition good_malloc :: "(nat \<Rightarrow> char list option) \<Rightarrow> bool" where
  "good_malloc malloc \<longleftrightarrow> (\<forall>n. \<exists>mem. malloc n = Some mem \<and> length mem = n)"

lemma join_append [simp]: "join (ds @ es) = join ds @ join es"
  by (induction ds) simp_all

lemma join_Nil_iff [simp]: "join ds = [] \<longleftrightarrow> ds = []"
  by (cases ds) simp_all

lemma render_snoc: "render (ds @ [d]) = join ds @ SLASH # d"
  by (simp add: render_def)

lemma join_root: "list_all name_ok ds \<Longrightarrow> join ds \<noteq> [SLASH]"
  by (cases ds) (auto simp: name_ok_def)

lemma render_root_iff: "list_all name_ok ds \<Longrightarrow> render ds = [SLASH] \<longleftrightarrow> ds = []"
  by (auto simp: render_def join_root)

lemma no_nul_render: "list_all name_ok ds \<Longrightarrow> no_nul (render ds)"
proof -
  assume "list_all name_ok ds"
  then have "no_nul (join ds)" by (induction ds) (auto simp: name_ok_def)
  then show ?thesis by (simp add: render_def)
qed

lemma last_index_append: "last_index c (xs @ c # ys) = Some (length xs + (case last_index c ys of None \<Rightarrow> 0 | Some i \<Rightarrow> Suc i))"
  by (induction xs) (auto split: option.splits)

lemma last_index_None: "last_index c xs = None \<longleftrightarrow> c \<notin> set xs"
  by (induction xs) (auto split: option.splits)

lemma trim_slashes_last:
  "d \<noteq> [] \<Longrightarrow> last d \<noteq> SLASH \<Longrightarrow> trim_slashes (d @ replicate k SLASH) (length d + k) = length d"
proof (induction k)
  case 0
  then obtain n where "length d = Suc n" by (cases d) auto
  moreover from this 0 have "d ! n \<noteq> SLASH" by (metis diff_Suc_1 last_conv_nth)
  ultimately show ?case by simp
next
  case (Suc k)
  have "replicate (Suc k) SLASH = replicate k SLASH @ [SLASH]"
    by (simp add: replicate_append_same)
  then have "trim_slashes (d @ replicate (Suc k) SLASH) (length d + Suc k)
      = trim_slashes (d @ replicate (Suc k) SLASH) (length d + k)"
    by (simp add: nth_append)
  moreover have "trim_slashes (xs @ [c]) n = trim_slashes xs n" if "n \<le> length xs" for xs c n
    using that by (induction n) (auto simp: nth_append)
  from this [of "length d + k" "d @ replicate k SLASH" SLASH]
  have "trim_slashes (d @ replicate (Suc k) SLASH) (length d + k)
      = trim_slashes (d @ replicate k SLASH) (length d + k)"
    by (simp add: replicate_append_same)
  ultimately show ?case using Suc by simp
qed

lemma trim_slashes_name:
  "name_ok d \<Longrightarrow> trim_slashes (d @ replicate k SLASH) (length d + k) = length d"
  by (rule trim_slashes_last) (auto simp: name_ok_def dest: last_in_set)

section \<open>What the operations do\<close>

lemma build_path_ok:
  assumes "length mem = length old + (if isRoot then 0 else 1) + length dir + 1"
  shows "build_path mem old isRoot dir
    = Some (old @ (if isRoot then [] else [SLASH]) @ dir @ [NUL])"
  using assms by (cases isRoot) (auto simp: build_path_def poke_def Let_def)

lemma is_root_iff: "length old = Suc 0 \<and> old ! 0 = SLASH \<longleftrightarrow> old = [SLASH]"
  by (cases old) auto

lemma dropWhile_slashes: "name_ok d \<Longrightarrow>
  dropWhile (\<lambda>c. c = SLASH) (replicate j SLASH @ d @ t) = d @ t"
  by (induction j) (cases d; auto simp: name_ok_def)+

text \<open>Pushing any string that is a valid name once outer slashes are stripped, or any other string
  without a NUL, from a state whose path is \<open>old\<close>.\<close>

lemma push_path:
  assumes fp: "fp = Some p" "path p = Some mem" "cstr mem = Some old" "top p \<noteq> INT_MAX"
    and malloc: "good_malloc malloc"
    and dir: "dropWhile (\<lambda>c. c = SLASH) name = dir" "dir \<noteq> []"
    and len: "trim_slashes dir (length dir) = n" "0 < n" "n \<le> length dir"
  shows "pushFilePath malloc (Some name) fp = (Inr 0, Some (p\<lparr>
    path := Some (old @ (if old = [SLASH] then [] else [SLASH]) @ take n dir @ [NUL]),
    top := top p + 1\<rparr>))"
proof -
  let ?len = "length old + (if old = [SLASH] then 0 else 1) + n + 1"
  from malloc obtain fresh where fresh: "malloc ?len = Some fresh" "length fresh = ?len"
    by (auto simp: good_malloc_def)
  have "build_path fresh old (old = [SLASH]) (take n dir)
      = Some (old @ (if old = [SLASH] then [] else [SLASH]) @ take n dir @ [NUL])"
    using fresh(2) len(3) by (intro build_path_ok) (simp add: min_def)
  with assms(1-4) dir len fresh(1) show ?thesis
    by (cases "old = [SLASH]") (simp_all add: pushFilePath_def Let_def is_root_iff)
qed

lemma push_name_ok:
  assumes "stands_for fp ds" "name_ok d" "good_malloc malloc" "int (length ds) + 1 < INT_MAX"
    "name = replicate j SLASH @ d @ replicate k SLASH"
  shows "\<exists>fp'. pushFilePath malloc (Some name) fp = (Inr 0, fp') \<and> stands_for fp' (ds @ [d])"
proof -
  from assms(1) obtain p mem where p: "fp = Some p" "path p = Some mem" "cstr mem = Some (render ds)"
    "top p = 1 + int (length ds)" and ds: "list_all name_ok ds"
    by (auto simp: stands_for_def split: option.splits)
  have "d \<noteq> []" using assms(2) by (simp add: name_ok_def)
  with push_path [OF p(1-3) _ assms(3), of name "d @ replicate k SLASH" "length d"]
  have push: "pushFilePath malloc (Some name) fp = (Inr 0, Some (p\<lparr>
      path := Some (render ds @ (if render ds = [SLASH] then [] else [SLASH]) @ d @ [NUL]),
      top := top p + 1\<rparr>))"
    using assms(2,4,5) p(4) trim_slashes_name [of d k] dropWhile_slashes [of d j]
    by simp
  let ?sep = "if render ds = [SLASH] then [] else [SLASH]"
  have eq: "render ds @ ?sep @ d = render (ds @ [d])"
    using ds by (auto simp: render_root_iff) (auto simp: render_def)
  have "no_nul (render ds @ ?sep @ d)"
    unfolding eq using ds assms(2) by (intro no_nul_render) simp
  then have "cstr (render ds @ ?sep @ d @ [NUL]) = Some (render ds @ ?sep @ d)"
    using cstr_terminated [of "render ds @ ?sep @ d" "[]"] by (simp only: append_assoc)
  then have "cstr (render ds @ ?sep @ d @ [NUL]) = Some (render (ds @ [d]))"
    by (simp only: eq)
  with push show ?thesis
    using p(4) ds assms(2) by (auto simp: stands_for_def)
qed

lemma pop_name_ok:
  assumes "stands_for fp (ds @ [d])"
  shows "\<exists>fp'. popFilePath fp = (Inr 0, fp') \<and> stands_for fp' ds"
proof -
  from assms obtain p mem where p: "fp = Some p" "path p = Some mem"
    "cstr mem = Some (join ds @ SLASH # d)" "top p = 2 + int (length ds)"
    and ok: "list_all name_ok ds" "name_ok d"
    by (auto simp: stands_for_def render_snoc split: option.splits)
  from p(3) obtain t where t: "mem = join ds @ SLASH # d @ NUL # t" by (auto simp: cstr_Some_iff)
  from ok(2) have idx: "last_index SLASH (join ds @ SLASH # d) = Some (length (join ds))"
    using last_index_None [of SLASH d] by (simp add: last_index_append name_ok_def)
  have "join ds @ SLASH # d \<noteq> [SLASH]"
    using ok(2) by (cases ds) (auto simp: name_ok_def)
  moreover
  let ?i = "if length (join ds) = 0 then 1 else int (length (join ds))"
  have "\<exists>mem'. poke ?i [NUL] mem = Some mem' \<and> cstr mem' = Some (render ds)"
  proof (cases "ds = []")
    case True
    with t ok(2) show ?thesis
      by (cases d) (auto simp: name_ok_def poke_def render_def cstr_terminated [of "[SLASH]", simplified])
  next
    case False
    with ok(1) no_nul_render [of ds] have "no_nul (join ds)" by (simp add: render_def)
    with False t show ?thesis
      by (auto simp: poke_def render_def cstr_terminated)
  qed
  ultimately show ?thesis
    using p idx ok by (auto simp: popFilePath_def stands_for_def)
qed

lemma pop_root: "stands_for fp [] \<Longrightarrow> popFilePath fp = (Inr (-1), fp)"
  by (auto simp: popFilePath_def stands_for_def split: option.splits)

lemma init_root:
  assumes "good_malloc malloc"
  shows "stands_for (initFilePath True malloc) []"
proof -
  from assms obtain mem where mem: "malloc 2 = Some mem" "length mem = 2"
    by (auto simp: good_malloc_def)
  then have "mem[0 := SLASH, 1 := NUL] = [SLASH] @ NUL # []"
    by (auto simp: numeral_2_eq_2 length_Suc_conv)
  with mem cstr_terminated [of "[SLASH]" "[]"] show ?thesis
    by (simp add: initFilePath_def stands_for_def render_def)
qed

section \<open>The contract of a stack\<close>

text \<open>A push adds a value at the end, a pop takes it away, within a depth limit; at the bottom a
  pop reports failure and changes nothing.\<close>

locale stack =
  fixes push :: "'e \<Rightarrow> ('s, int) prog" and pop :: "('s, int) prog"
    and rep :: "'s \<Rightarrow> 'v list \<Rightarrow> bool" and val :: "'e \<Rightarrow> 'v" and good :: "'e \<Rightarrow> bool"
    and limit :: nat
  assumes push_law: "rep s xs \<Longrightarrow> good e \<Longrightarrow> length xs < limit \<Longrightarrow>
      \<exists>s'. push e s = (Inr 0, s') \<and> rep s' (xs @ [val e])"
    and pop_law: "rep s (xs @ [x]) \<Longrightarrow> \<exists>s'. pop s = (Inr 0, s') \<and> rep s' xs"
    and pop_bottom: "rep s [] \<Longrightarrow> pop s = (Inr (-1), s)"

text \<open>Run calls one after the other.\<close>

fun do_all :: "('s, int) prog list \<Rightarrow> ('s, unit) prog" where
  "do_all [] = ret ()"
| "do_all (m # ms) = next_do m (do_all ms)"

lemma do_all_append:
  "do_all (ms @ ns) s = (case do_all ms s of (Inl e, s') \<Rightarrow> (Inl e, s') | (Inr _, s') \<Rightarrow> do_all ns s')"
  by (induction ms arbitrary: s) (auto simp: run next_do_def bnd_def split: sum.splits prod.splits)

context stack
begin

lemma push_all:
  assumes "rep s xs" "list_all good es" "length xs + length es \<le> limit"
  shows "\<exists>s'. do_all (map push es) s = (Inr (), s') \<and> rep s' (xs @ map val es)"
  using assms
proof (induction es arbitrary: s xs)
  case Nil
  then show ?case by (simp add: run)
next
  case (Cons e es)
  with push_law [of s xs e] obtain s1
    where "push e s = (Inr 0, s1)" "rep s1 (xs @ [val e])" by auto
  with Cons.IH [of s1 "xs @ [val e]"] Cons.prems show ?case by (auto simp: next_do_run)
qed

lemma pop_all:
  assumes "rep s (xs @ ys)"
  shows "\<exists>s'. do_all (replicate (length ys) pop) s = (Inr (), s') \<and> rep s' xs"
  using assms
proof (induction ys arbitrary: s rule: rev_induct)
  case Nil
  then show ?case by (simp add: run)
next
  case (snoc y ys)
  then have "rep s ((xs @ ys) @ [y])" by simp
  from pop_law [OF this] obtain s1 where "pop s = (Inr 0, s1)" "rep s1 (xs @ ys)" by blast
  with snoc.IH [of s1] show ?case by (auto simp: next_do_run)
qed

lemma push_pop_all:
  assumes "rep s xs" "list_all good es" "length xs + length es \<le> limit"
  shows "\<exists>s'. do_all (map push es @ replicate (length es) pop) s = (Inr (), s') \<and> rep s' xs"
proof -
  from push_all [OF assms] obtain s1
    where "do_all (map push es) s = (Inr (), s1)" "rep s1 (xs @ map val es)" by blast
  with pop_all [of s1 xs "map val es"] show ?thesis by (simp add: do_all_append)
qed

end

text \<open>An argument of a push: an allocator and a name with slashes around it.\<close>

definition wrapped :: "nat \<times> string \<times> nat \<Rightarrow> string" where
  "wrapped e = (case e of (j, d, k) \<Rightarrow> replicate j SLASH @ d @ replicate k SLASH)"

definition push_wrapped ::
  "(nat \<Rightarrow> char list option) \<times> nat \<times> string \<times> nat \<Rightarrow> (filePath option, int) prog" where
  "push_wrapped e = pushFilePath (fst e) (Some (wrapped (snd e)))"

definition wrapped_ok :: "(nat \<Rightarrow> char list option) \<times> nat \<times> string \<times> nat \<Rightarrow> bool" where
  "wrapped_ok e \<longleftrightarrow> good_malloc (fst e) \<and> name_ok (fst (snd (snd e)))"

interpretation path_stack: stack push_wrapped popFilePath stands_for
  "\<lambda>e. fst (snd (snd e))" wrapped_ok "nat (INT_MAX - 1)"
proof unfold_locales
  fix s xs and e :: "(nat \<Rightarrow> char list option) \<times> nat \<times> string \<times> nat"
  assume "stands_for s xs" "wrapped_ok e" "length xs < nat (INT_MAX - 1)"
  moreover obtain M j d k where "e = (M, j, d, k)" by (cases e)
  ultimately show "\<exists>s'. push_wrapped e s = (Inr 0, s') \<and> stands_for s' (xs @ [fst (snd (snd e))])"
    using push_name_ok [of s xs d M _ j k] by (simp add: push_wrapped_def wrapped_ok_def wrapped_def)
qed (use pop_name_ok pop_root in blast)+

section \<open>Properties\<close>

abbreviation zero_malloc :: "nat \<Rightarrow> char list option" where
  "zero_malloc n \<equiv> Some (replicate n NUL)"

lemma zero_malloc_good: "good_malloc (\<lambda>n. zero_malloc n)"
  by (simp add: good_malloc_def)

text \<open>
  C36. Pushing directory names, with any slashes around them, extends the path by exactly these
  names in order, and popping as often as was pushed restores the path, all without leaving the
  allocated memory.
\<close>

theorem path_push_pop:
  assumes "stands_for fp xs" "list_all wrapped_ok es" "int (length xs + length es) < INT_MAX"
  shows "\<exists>fp1 fp2. do_all (map push_wrapped es) fp = (Inr (), fp1) \<and>
    stands_for fp1 (xs @ map (\<lambda>e. fst (snd (snd e))) es) \<and>
    do_all (replicate (length es) popFilePath) fp1 = (Inr (), fp2) \<and> stands_for fp2 xs"
proof -
  from assms(3) have "length xs + length es \<le> nat (INT_MAX - 1)" by simp
  from path_stack.push_all [OF assms(1,2) this] obtain fp1
    where fp1: "do_all (map push_wrapped es) fp = (Inr (), fp1)"
      "stands_for fp1 (xs @ map (\<lambda>e. fst (snd (snd e))) es)" by blast
  with path_stack.pop_all [OF fp1(2)] show ?thesis by auto
qed

theorem path_push_pop_witness:
  "\<exists>fp1. do_all (map push_wrapped [(\<lambda>n. zero_malloc n, 1, ''a'', 2), (\<lambda>n. zero_malloc n, 0, ''b'', 0)])
      (initFilePath True (\<lambda>n. zero_malloc n)) = (Inr (), fp1) \<and> stands_for fp1 [''a'', ''b'']"
  using path_push_pop [OF init_root [OF zero_malloc_good],
      of "[(\<lambda>n. zero_malloc n, 1, ''a'', 2), (\<lambda>n. zero_malloc n, 0, ''b'', 0)]"]
  by (auto simp: wrapped_ok_def zero_malloc_good name_ok_def no_nul_def INT_MAX_def)

text \<open>
  A name with a slash inside is pushed as one step although it adds two directories: after
  one pop the counter says root while the path is still one directory deep, and the second pop
  is refused.
\<close>

lemma path_nested_name:
  assumes "good_malloc malloc" "name_ok c" "name_ok d"
  shows "\<exists>fp1 fp2 p mem.
    pushFilePath malloc (Some (c @ SLASH # d)) (initFilePath True malloc) = (Inr 0, fp1) \<and>
    popFilePath fp1 = (Inr 0, fp2) \<and> popFilePath fp2 = (Inr (-1), fp2) \<and>
    fp2 = Some p \<and> path p = Some mem \<and> cstr mem = Some (SLASH # c)"
proof -
  let ?name = "c @ SLASH # d"
  from init_root [OF assms(1)] obtain p0 mem0
    where p0: "initFilePath True malloc = Some p0" "path p0 = Some mem0"
      "cstr mem0 = Some [SLASH]" "top p0 = 1"
    by (auto simp: stands_for_def render_def split: option.splits)
  have name: "dropWhile (\<lambda>x. x = SLASH) ?name = ?name"
    using assms(2) by (cases c) (auto simp: name_ok_def)
  have len: "trim_slashes ?name (length ?name) = length ?name"
  proof -
    from assms(3) have "d \<noteq> []" "last d \<noteq> SLASH" by (auto simp: name_ok_def dest: last_in_set)
    then have "last ?name \<noteq> SLASH" by simp
    with trim_slashes_last [of ?name 0] show ?thesis by simp
  qed
  let ?mem1 = "SLASH # c @ SLASH # d @ [NUL]"
  let ?p1 = "p0\<lparr>path := Some ?mem1, top := 2\<rparr>"
  have push: "pushFilePath malloc (Some ?name) (initFilePath True malloc) = (Inr 0, Some ?p1)"
    using push_path [OF p0(1-3) _ assms(1) name _ len] p0(4) by (simp add: INT_MAX_def)
  have str: "cstr ?mem1 = Some (SLASH # c @ SLASH # d)"
    using cstr_terminated [of "SLASH # c @ SLASH # d" "[]"] assms(2,3) by (simp add: name_ok_def)
  have idx: "last_index SLASH (SLASH # c @ SLASH # d) = Some (Suc (length c))"
    using last_index_append [of SLASH "SLASH # c" d] assms(3) last_index_None [of SLASH d]
    by (simp add: name_ok_def)
  let ?mem2 = "SLASH # c @ NUL # d @ [NUL]"
  let ?p2 = "p0\<lparr>path := Some ?mem2, top := 1\<rparr>"
  have "poke (int (Suc (length c))) [NUL] ?mem1 = Some ?mem2"
    by (simp only: poke_def) simp
  with str idx have pop: "popFilePath (Some ?p1) = (Inr 0, Some ?p2)"
    by (simp add: popFilePath_def)
  have str2: "cstr ?mem2 = Some (SLASH # c)"
    using cstr_terminated [of "SLASH # c" "d @ [NUL]"] assms(2) by (simp add: name_ok_def)
  then have "popFilePath (Some ?p2) = (Inr (-1), Some ?p2)"
    by (simp add: popFilePath_def)
  with push pop str2 show ?thesis
    by (intro exI [of _ "Some ?p1"] exI [of _ "Some ?p2"] exI [of _ ?p2] exI [of _ ?mem2]) simp
qed

lemma path_nested_name_example:
  "\<exists>fp1 fp2 p mem.
    pushFilePath (\<lambda>n. zero_malloc n) (Some ''a/b'') (initFilePath True (\<lambda>n. zero_malloc n)) = (Inr 0, fp1) \<and>
    popFilePath fp1 = (Inr 0, fp2) \<and> popFilePath fp2 = (Inr (-1), fp2) \<and>
    fp2 = Some p \<and> path p = Some mem \<and> cstr mem = Some ''/a''"
  using path_nested_name [OF zero_malloc_good, of "''a''" "''b''"]
  by (simp add: name_ok_def no_nul_def)

end
