(* ===== verification/Protocol.thy ===== *)
theory Protocol
  imports Prelude
begin

text \<open>
  The wire protocol of \<open>shared/protocol.h\<close>: command codes, result states, the three structures
  that travel over a connection and their memory images, which are what \<open>send\<close> and \<open>recv\<close>
  transfer. Enumerators are datatypes; where one is stored in an integer field its value is
  \<open>code_val\<close> or \<open>status_val\<close>.
\<close>

section \<open>Enumerations\<close>

datatype CommandCode =
  REQ_INVALID | REQ_CD | REQ_LS | REQ_PWD | REQ_RM | REQ_PUT | REQ_GET | REQ_MKDIR

primrec code_val :: "CommandCode \<Rightarrow> nat" where
  "code_val REQ_INVALID = 0"
| "code_val REQ_CD = 1"
| "code_val REQ_LS = 2"
| "code_val REQ_PWD = 3"
| "code_val REQ_RM = 4"
| "code_val REQ_PUT = 5"
| "code_val REQ_GET = 6"
| "code_val REQ_MKDIR = 7"

lemma code_val_inject [simp]: "code_val c = code_val d \<longleftrightarrow> c = d"
  by (cases c; cases d) simp_all

lemma code_val_le: "code_val c \<le> 7"
  by (cases c) simp_all

text \<open>Enumerators are ordered by their values, as the range tests of the code order them.\<close>

instantiation CommandCode :: linorder
begin

definition less_eq_CommandCode :: "CommandCode \<Rightarrow> CommandCode \<Rightarrow> bool" where
  "less_eq_CommandCode c d = (code_val c \<le> code_val d)"

definition less_CommandCode :: "CommandCode \<Rightarrow> CommandCode \<Rightarrow> bool" where
  "less_CommandCode c d = (code_val c < code_val d)"

instance
  by standard (auto simp: less_eq_CommandCode_def less_CommandCode_def)

end

text \<open>The value as the \<open>uint32_t\<close> field \<open>cmdCode_\<close> stores it.\<close>

definition code_word :: "CommandCode \<Rightarrow> cint" where
  "code_word c = of_nat (code_val c)"

lemma code_word_simps [simp]:
  "code_word REQ_INVALID = 0" "code_word REQ_CD = 1" "code_word REQ_LS = 2"
  "code_word REQ_PWD = 3" "code_word REQ_RM = 4" "code_word REQ_PUT = 5"
  "code_word REQ_GET = 6" "code_word REQ_MKDIR = 7"
  by (simp_all add: code_word_def)

lemma code_word_inject [simp]: "code_word c = code_word d \<longleftrightarrow> c = d"
  by (cases c; cases d) simp_all

datatype CmdStatus = CMD_SUCCESS | CMD_NOHANDLE | CMD_FAILURE | CMD_NOT_FOUND | CMD_INVALID

primrec status_val :: "CmdStatus \<Rightarrow> cint" where
  "status_val CMD_SUCCESS = 1"
| "status_val CMD_NOHANDLE = 0"
| "status_val CMD_FAILURE = -1"
| "status_val CMD_NOT_FOUND = -2"
| "status_val CMD_INVALID = -3"

section \<open>From command names to codes\<close>

definition str_to_cmdcode :: "string option \<Rightarrow> CommandCode" where
  "str_to_cmdcode cmd_str =
     (case cmd_str of
        None \<Rightarrow> REQ_INVALID
      | Some s \<Rightarrow>
          if s = ''cd'' then REQ_CD
          else if s = ''ls'' then REQ_LS
          else if s = ''mkdir'' then REQ_MKDIR
          else if s = ''rm'' then REQ_RM
          else if s = ''put'' then REQ_PUT
          else if s = ''get'' then REQ_GET
          else if s = ''pwd'' then REQ_PWD
          else REQ_INVALID)"

text \<open>The names a user types, for stating what \<open>str_to_cmdcode\<close> promises.\<close>

primrec command_name :: "CommandCode \<Rightarrow> string option" where
  "command_name REQ_INVALID = None"
| "command_name REQ_CD = Some ''cd''"
| "command_name REQ_LS = Some ''ls''"
| "command_name REQ_PWD = Some ''pwd''"
| "command_name REQ_RM = Some ''rm''"
| "command_name REQ_PUT = Some ''put''"
| "command_name REQ_GET = Some ''get''"
| "command_name REQ_MKDIR = Some ''mkdir''"

lemma str_to_cmdcode_name: "str_to_cmdcode (command_name c) = c"
  by (cases c) (simp_all add: str_to_cmdcode_def)

lemma str_to_cmdcode_valid:
  "str_to_cmdcode s = c \<Longrightarrow> c \<noteq> REQ_INVALID \<Longrightarrow> s = command_name c"
  by (cases c) (auto simp: str_to_cmdcode_def split: option.splits if_splits)

lemma command_name_inject:
  "command_name c = command_name d \<Longrightarrow> c = d"
  using str_to_cmdcode_name by metis

section \<open>Structures\<close>

abbreviation DATA_SIZE :: nat where
  "DATA_SIZE \<equiv> 1024"

record train =
  t_length :: cint
  t_data :: "char list"

record packetCmd =
  cmdCode :: cint
  argFlag :: cint
  p_length :: cint
  p_data :: "char list"

text \<open>\<open>message_\<close> is a flexible array member: it adds nothing to \<open>sizeof(cmdSignal_t)\<close>.\<close>

record cmdSignal =
  sendACK :: cint
  recvACK :: cint
  cmdStatus :: cint
  s_length :: cint

definition packet_ok :: "packetCmd \<Rightarrow> bool" where
  "packet_ok p = (length (p_data p) = DATA_SIZE)"

abbreviation PACKET_SIZE :: nat where
  "PACKET_SIZE \<equiv> 1036"

abbreviation SIGNAL_SIZE :: nat where
  "SIGNAL_SIZE \<equiv> 16"

text \<open>Memory images. The structures have no padding: all members are 4-byte integers or bytes.\<close>

definition enc_packet :: "packetCmd \<Rightarrow> char list" where
  "enc_packet p = le32 (cmdCode p) @ le32 (argFlag p) @ le32 (p_length p) @ p_data p"

definition dec_packet :: "char list \<Rightarrow> packetCmd" where
  "dec_packet bs =
     \<lparr>cmdCode = dec32 (take 4 bs), argFlag = dec32 (take 4 (drop 4 bs)),
      p_length = dec32 (take 4 (drop 8 bs)), p_data = drop 12 bs\<rparr>"

definition enc_signal :: "cmdSignal \<Rightarrow> char list" where
  "enc_signal s = le32 (sendACK s) @ le32 (recvACK s) @ le32 (cmdStatus s) @ le32 (s_length s)"

definition dec_signal :: "char list \<Rightarrow> cmdSignal" where
  "dec_signal bs =
     \<lparr>sendACK = dec32 (take 4 bs), recvACK = dec32 (take 4 (drop 4 bs)),
      cmdStatus = dec32 (take 4 (drop 8 bs)), s_length = dec32 (take 4 (drop 12 bs))\<rparr>"

text \<open>
  A \<open>train_t\<close> is always sent as its length field and that many bytes of its data:
  \<open>sizeof(train.length_) + train.length_\<close> bytes from its address.
\<close>

definition frame :: "string \<Rightarrow> char list" where
  "frame s = le32 (of_nat (length s)) @ s"

lemma length_frame [simp]: "length (frame s) = 4 + length s"
  by (simp add: frame_def)

section \<open>What a memory image promises\<close>

text \<open>
  The contract between the two ends of a connection that exchange structures by their memory
  images: images of well-formed values have the structure's size, and reading one back gives
  the value.
\<close>

locale image =
  fixes enc :: "'a \<Rightarrow> char list" and dec :: "char list \<Rightarrow> 'a"
    and size_of :: nat and well :: "'a \<Rightarrow> bool"
  assumes enc_size: "well x \<Longrightarrow> length (enc x) = size_of"
    and dec_enc: "well x \<Longrightarrow> dec (enc x) = x"
begin

lemma enc_inject: "well x \<Longrightarrow> well y \<Longrightarrow> enc x = enc y \<Longrightarrow> x = y"
  by (metis dec_enc)

text \<open>Structures written one after the other are told apart by their size alone.\<close>

lemma enc_split:
  assumes "well x" "well y" "enc x @ r = enc y @ t"
  shows "x = y \<and> r = t"
proof -
  from assms have "enc x = enc y" "r = t"
    by (metis append_eq_append_conv enc_size)+
  with assms(1,2) show ?thesis by (simp add: enc_inject)
qed

lemma dec_take: "well x \<Longrightarrow> dec (take size_of (enc x @ r)) = x"
  by (simp add: enc_size dec_enc)

end

interpretation int_image: image le32 dec32 4 "\<lambda>_. True"
  by unfold_locales simp_all

interpretation packet_image: image enc_packet dec_packet PACKET_SIZE packet_ok
  by unfold_locales
    (simp_all add: enc_packet_def dec_packet_def packet_ok_def)

interpretation signal_image: image enc_signal dec_signal SIGNAL_SIZE "\<lambda>_. True"
  by unfold_locales (simp_all add: enc_signal_def dec_signal_def)

text \<open>A signal structure that was only zeroed.\<close>

lemma char_of_0: "char_of (0 :: nat) = NUL"
  by (simp add: char_of_def)

lemma le32_0: "le32 0 = replicate (Suc (Suc (Suc (Suc 0)))) NUL"
  by (simp add: le32_def char_of_0)

lemma dec_signal_zeroed:
  "dec_signal (replicate SIGNAL_SIZE NUL) = \<lparr>sendACK = 0, recvACK = 0, cmdStatus = 0, s_length = 0\<rparr>"
proof -
  have "replicate SIGNAL_SIZE NUL = enc_signal \<lparr>sendACK = 0, recvACK = 0, cmdStatus = 0, s_length = 0\<rparr>"
    by (simp only: enc_signal_def le32_0 cmdSignal.simps replicate_add [symmetric])
      (simp add: eval_nat_numeral)
  then show ?thesis by (simp only: signal_image.dec_enc)
qed

end
