(* ===== verification/C_Text.thy ===== *)
theory C_Text
  imports Prelude
begin

text \<open>
  Text as the configuration parsers read it: \<open>isspace\<close>, \<open>strstr\<close>, the decimal conversions of
  \<open>strtol\<close> and \<open>scanf\<close>, and the network byte order of \<open>sockaddr_in\<close>, which both configuration
  components fill. The functions of the C library follow the C standard in the "C" locale.
\<close>

section \<open>White space and searching\<close>

definition isspace :: "char \<Rightarrow> bool" where
  "isspace c \<longleftrightarrow> c \<in> set [CHR '' '', CHR 0x09, CHR 0x0A, CHR 0x0B, CHR 0x0C, CHR 0x0D]"

lemma isspace_blank [simp]: "isspace CHR '' ''" "\<not> isspace NUL"
  by (simp_all add: isspace_def)

text \<open>A string without the white space around it.\<close>

definition strip :: "string \<Rightarrow> string" where
  "strip s = rev (dropWhile isspace (rev (dropWhile isspace s)))"

definition bare :: "string \<Rightarrow> bool" where
  "bare s \<longleftrightarrow> (\<forall>c \<in> set s. \<not> isspace c)"

text \<open>The offset at which a string first occurs in another.\<close>

fun strstr :: "string \<Rightarrow> string \<Rightarrow> nat option" where
  "strstr [] n = (if n = [] then Some 0 else None)"
| "strstr (c # cs) n =
     (if take (length n) (c # cs) = n then Some 0 else map_option Suc (strstr cs n))"

lemma bare_dropWhile: "bare s \<Longrightarrow> dropWhile isspace s = s"
  by (cases s) (auto simp: bare_def)

lemma strip_bare: "bare s \<Longrightarrow> strip s = s"
  using bare_dropWhile [of s] bare_dropWhile [of "rev s"] by (simp add: strip_def bare_def)

lemma set_strip: "set (strip s) \<subseteq> set s"
  using set_dropWhileD [of _ isspace s] set_dropWhileD [of _ isspace "rev (dropWhile isspace s)"]
  by (auto simp: strip_def)

lemma no_nul_strip: "no_nul s \<Longrightarrow> no_nul (strip s)"
  using set_strip [of s] by (auto simp: no_nul_def)

lemma length_strip: "length (strip s) \<le> length s"
proof -
  have "length (dropWhile isspace (rev (dropWhile isspace s))) \<le> length (dropWhile isspace s)"
    using length_dropWhile_le [of isspace "rev (dropWhile isspace s)"] by simp
  also have "\<dots> \<le> length s" by (rule length_dropWhile_le)
  finally show ?thesis by (simp add: strip_def)
qed

lemma strstr_found: "strstr h n = Some i \<Longrightarrow> h = take i h @ n @ drop (i + length n) h \<and> i + length n \<le> length h"
proof (induction h n arbitrary: i rule: strstr.induct)
  case (2 c cs n)
  show ?case
  proof (cases "take (length n) (c # cs) = n")
    case True
    with "2.prems" have "i = 0" by simp
    moreover from True have "length n \<le> length (c # cs)" by (metis length_take min.absorb_iff1 min.commute)
    moreover have "c # cs = take (length n) (c # cs) @ drop (length n) (c # cs)" by simp
    ultimately show ?thesis using True by simp
  next
    case False
    with "2.prems" obtain k where k: "strstr cs n = Some k" "i = Suc k" by auto
    from "2.IH" [OF False k(1)] k(2) show ?thesis by simp
  qed
qed (auto split: if_splits)

text \<open>A word starting with a character that is not in the text before it is found after that text.\<close>

lemma strstr_skip: "n \<noteq> [] \<Longrightarrow> hd n \<notin> set u \<Longrightarrow> strstr (u @ n @ v) n = Some (length u)"
proof (induction u)
  case Nil
  then show ?case by (cases n) auto
next
  case (Cons c u)
  then have "take (length n) (c # u @ n @ v) \<noteq> n" by (cases n) auto
  with Cons show ?case by simp
qed

lemma strstr_absent: "n \<noteq> [] \<Longrightarrow> hd n \<notin> set u \<Longrightarrow> strstr (u @ v) n = map_option ((+) (length u)) (strstr v n)"
proof (induction u)
  case (Cons c u)
  then have "take (length n) (c # u @ v) \<noteq> n" by (cases n) auto
  with Cons show ?case by (cases "strstr v n") auto
qed (cases "strstr v n"; simp)

section \<open>Tokens\<close>

text \<open>One call of \<open>strtok_r\<close> on the text where the last one stopped, with
  the separators \<open>sep\<close>: the token and the text after
  the separator that ended it.\<close>

definition strtok_by :: "(char \<Rightarrow> bool) \<Rightarrow> string \<Rightarrow> (string \<times> string) option" where
  "strtok_by sep s =
     (let t = dropWhile sep s in
      if t = [] then None
      else Some (takeWhile (\<lambda>c. \<not> sep c) t, drop 1 (dropWhile (\<lambda>c. \<not> sep c) t)))"

lemma strtok_by_shorter: "strtok_by sep s = Some (t, r) \<Longrightarrow> length r < length s"
proof -
  assume tok: "strtok_by sep s = Some (t, r)"
  then have ne: "dropWhile sep s \<noteq> []"
    and r: "r = drop 1 (dropWhile (\<lambda>c. \<not> sep c) (dropWhile sep s))"
    by (auto simp: strtok_by_def Let_def split: if_splits)
  have "length (dropWhile P xs) \<le> length xs" for P and xs :: string
    by (simp add: length_dropWhile_le)
  then have le: "length (dropWhile (\<lambda>c. \<not> sep c) (dropWhile sep s)) \<le> length s"
    by (meson order_trans)
  moreover from ne have "0 < length s" by (cases s) auto
  moreover have "length r = length (dropWhile (\<lambda>c. \<not> sep c) (dropWhile sep s)) - 1"
    by (simp add: r)
  ultimately show ?thesis by linarith
qed

lemma strtok_by_sep: "sep c \<Longrightarrow> strtok_by sep (c # s) = strtok_by sep s"
  by (simp add: strtok_by_def)

lemma strtok_by_word:
  assumes "u \<noteq> []" "\<forall>c \<in> set u. \<not> sep c" "r = [] \<or> sep (hd r)"
  shows "strtok_by sep (u @ r) = Some (u, drop 1 r)"
proof -
  have "dropWhile sep (u @ r) = u @ r"
    using assms(1,2) by (cases u) auto
  moreover have "takeWhile (\<lambda>c. \<not> sep c) (u @ r) = u" "dropWhile (\<lambda>c. \<not> sep c) (u @ r) = r"
    using assms(2,3) by (cases r; simp add: takeWhile_tail)+
  ultimately show ?thesis using assms(1) by (simp add: strtok_by_def)
qed

lemma strtok_by_no_nul: "no_nul s \<Longrightarrow> strtok_by sep s = Some (t, r) \<Longrightarrow> no_nul t \<and> no_nul r"
  by (auto simp: strtok_by_def Let_def no_nul_def split: if_splits
      dest!: in_set_takeD in_set_dropD set_takeWhileD set_dropWhileD)

section \<open>Decimal numbers\<close>

definition is_digit :: "char \<Rightarrow> bool" where
  "is_digit c \<longleftrightarrow> (of_char c :: nat) \<in> {48..57}"

definition digit_val :: "char \<Rightarrow> nat" where
  "digit_val c = of_char c - 48"

definition dec_val :: "string \<Rightarrow> nat" where
  "dec_val ds = foldl (\<lambda>n c. 10 * n + digit_val c) 0 ds"

text \<open>
  What \<open>strtol\<close> with base 10 and the conversion \<open>%d\<close> match: white space, a sign, at least one
  digit. The result is the number and the text after it.
\<close>

definition number_at :: "string \<Rightarrow> (int \<times> string) option" where
  "number_at s =
     (let t = dropWhile isspace s;
          neg = (t \<noteq> [] \<and> hd t = CHR ''-'');
          u = (if t \<noteq> [] \<and> (hd t = CHR ''-'' \<or> hd t = CHR ''+'') then tl t else t);
          ds = takeWhile is_digit u
      in if ds = [] then None
         else Some (if neg then - int (dec_val ds) else int (dec_val ds), dropWhile is_digit u))"

definition LONG_MAX :: int where
  "LONG_MAX = 9223372036854775807"

text \<open>\<open>strtol(s, &endPtr, 10)\<close>: the value, cut to the range of \<open>long\<close>, and the offset of \<open>endPtr\<close>.\<close>

definition strtol :: "string \<Rightarrow> int \<times> nat" where
  "strtol s =
     (case number_at s of
        None \<Rightarrow> (0, 0)
      | Some (n, r) \<Rightarrow> (max (- LONG_MAX - 1) (min n LONG_MAX), length s - length r))"

text \<open>How a number is written.\<close>

fun decimal :: "nat \<Rightarrow> string" where
  "decimal n = (if n < 10 then [char_of (48 + n)] else decimal (n div 10) @ [char_of (48 + n mod 10)])"

declare decimal.simps [simp del]

lemma digit_char: "d < 10 \<Longrightarrow> is_digit (char_of (48 + d)) \<and> digit_val (char_of (48 + d)) = d"
  by (simp add: is_digit_def digit_val_def of_char_of)

lemma dec_val_snoc: "dec_val (ds @ [c]) = 10 * dec_val ds + digit_val c"
  by (simp add: dec_val_def)

lemma decimal_digits: "decimal n \<noteq> [] \<and> (\<forall>c \<in> set (decimal n). is_digit c)"
proof (induction n rule: decimal.induct)
  case (1 n)
  then show ?case
    using digit_char [of n] digit_char [of "n mod 10"] by (subst (1 2) decimal.simps) auto
qed

lemma dec_val_decimal [simp]: "dec_val (decimal n) = n"
proof (induction n rule: decimal.induct)
  case (1 n)
  then show ?case
    using digit_char [of n] digit_char [of "n mod 10"]
    by (subst decimal.simps) (auto simp: dec_val_snoc dec_val_def)
qed

lemma digit_plain: "is_digit c \<Longrightarrow> \<not> isspace c \<and> c \<noteq> CHR ''-'' \<and> c \<noteq> CHR ''+'' \<and> c \<noteq> NUL \<and> c \<noteq> CHR ''<''"
  by (auto simp: is_digit_def isspace_def)

lemma number_at_digits:
  assumes "ds \<noteq> []" "\<forall>c \<in> set ds. is_digit c" "r = [] \<or> \<not> is_digit (hd r)"
  shows "number_at (ds @ r) = Some (int (dec_val ds), r)"
proof -
  from assms(1,2) obtain d e where ds: "ds = d # e" "is_digit d" by (cases ds) auto
  note plain = digit_plain [OF ds(2)]
  have "takeWhile is_digit (ds @ r) = ds" "dropWhile is_digit (ds @ r) = r"
    using assms(2,3) by (cases r; simp add: takeWhile_tail)+
  with plain show ?thesis by (simp add: number_at_def ds(1) Let_def)
qed

lemma strtol_decimal: "int n \<le> LONG_MAX \<Longrightarrow> strtol (decimal n) = (int n, length (decimal n))"
  using number_at_digits [of "decimal n" "[]"] decimal_digits [of n] by (simp add: strtol_def LONG_MAX_def)

lemma bare_decimal: "bare (decimal n)" "no_nul (decimal n)" "CHR ''<'' \<notin> set (decimal n)"
  using decimal_digits [of n] digit_plain by (auto simp: bare_def no_nul_def)

section \<open>Files of settings\<close>

text \<open>
  What both configuration parsers promise: a reader of settings that meets an item written in the
  format finds its setting and goes on behind it. Whatever items a file consists of, it then reads
  exactly these settings, in order.
\<close>

locale settings_file =
  fixes settings :: "string \<Rightarrow> 'e list"
    and item :: "'e \<Rightarrow> string"
    and well_formed :: "'e \<Rightarrow> bool"
  assumes settings_end: "settings [] = []"
    and settings_item: "well_formed e \<Longrightarrow> settings (item e @ rest) = e # settings rest"
begin

lemma settings_items: "\<forall>e \<in> set es. well_formed e \<Longrightarrow> settings (concat (map item es) @ rest) = es @ settings rest"
  by (induction es) (simp_all add: settings_item)

lemma settings_of_items: "\<forall>e \<in> set es. well_formed e \<Longrightarrow> settings (concat (map item es)) = es"
  using settings_items [of es "[]"] by (simp add: settings_end)

lemma settings_append:
  "\<forall>e \<in> set es. well_formed e \<Longrightarrow> \<forall>e \<in> set ds. well_formed e \<Longrightarrow>
   settings (concat (map item es) @ concat (map item ds)) = es @ ds"
  by (simp add: settings_items settings_of_items)

end

section \<open>Network addresses\<close>

text \<open>\<open>sin_zero\<close>, which stays zero, is left out.\<close>

record sockaddr_in =
  sin_family :: int
  sin_port :: "16 word"
  s_addr :: cint

definition AF_INET :: int where
  "AF_INET = 2"

definition zero_addr :: sockaddr_in where
  "zero_addr = \<lparr>sin_family = 0, sin_port = 0, s_addr = 0\<rparr>"

definition htons :: "16 word \<Rightarrow> 16 word" where
  "htons p = push_bit 8 p OR drop_bit 8 p"

lemma htons_htons [simp]: "htons (htons p) = p"
  by (rule bit_word_eqI) (auto simp: htons_def bit_simps)

end
