(* ===== verification/Cmd_Opt.thy ===== *)
theory Cmd_Opt
  imports Protocol C_Text
begin

text \<open>
  The client's command line parser, \<open>client/cmdOpt.c\<close>: \<open>cmdCut\<close> splits a line into a command and
  at most one argument and fills a packet, \<open>cmdVeri\<close> checks the packet, \<open>cmdCheck\<close> does both. A
  pointer that may be \<open>NULL\<close> is an option.
\<close>

section \<open>Splitting a line\<close>

text \<open>The separators passed to \<open>strtok_r\<close>: blank, tab, carriage return, newline.\<close>

definition is_sep :: "char \<Rightarrow> bool" where
  "is_sep c \<longleftrightarrow> c = CHR '' '' \<or> c = CHR 0x09 \<or> c = CHR 0x0D \<or> c = CHR 0x0A"

abbreviation strtok_r :: "string \<Rightarrow> (string \<times> string) option" where
  "strtok_r \<equiv> strtok_by is_sep"

text \<open>All tokens of a line.\<close>

function tokens :: "string \<Rightarrow> string list" where
  "tokens s = (case strtok_r s of None \<Rightarrow> [] | Some (t, r) \<Rightarrow> t # tokens r)"
  by pat_completeness auto
termination
  by (relation "measure length") (auto dest: strtok_by_shorter)

declare tokens.simps [simp del]

lemma tokens_no_nul: "no_nul s \<Longrightarrow> t \<in> set (tokens s) \<Longrightarrow> no_nul t"
proof (induction s rule: tokens.induct)
  case (1 s)
  then show ?case
    by (cases "strtok_r s") (auto simp: tokens.simps [of s] dest: strtok_by_no_nul)
qed

section \<open>The parser\<close>

definition cmdCut :: "string option \<Rightarrow> packetCmd option \<Rightarrow> (stop + int) \<times> packetCmd option" where
  "cmdCut cmd pcmdArg =
     (case (cmd, pcmdArg) of
        (Some line, Some p) \<Rightarrow>
          (let p0 = p\<lparr>cmdCode := code_word REQ_INVALID, argFlag := 0, p_length := 0,
                      p_data := (p_data p)[0 := NUL]\<rparr> in
           case strtok_r line of
             None \<Rightarrow> (Inr (-1), Some p0)
           | Some (token, rest) \<Rightarrow>
               (let p1 = p0\<lparr>cmdCode := code_word (str_to_cmdcode (Some token))\<rparr> in
                case strtok_r rest of
                  None \<Rightarrow> (Inr 0, Some p1)
                | Some (arg, rest2) \<Rightarrow>
                    if DATA_SIZE \<le> length arg
                    then (Inr (-1), Some (p1\<lparr>cmdCode := code_word REQ_INVALID\<rparr>))
                    else
                      (case poke 0 (arg @ [NUL]) (p_data p1) of
                         None \<Rightarrow> (Inl OutOfBounds, Some p1)
                       | Some d \<Rightarrow>
                           (let p2 = p1\<lparr>p_data := d, argFlag := 1, p_length := of_nat (length arg)\<rparr> in
                            if strtok_r rest2 \<noteq> None
                            then (Inr (-1), Some (p2\<lparr>cmdCode := code_word REQ_INVALID, argFlag := 0,
                                    p_length := 0, p_data := (p_data p2)[0 := NUL]\<rparr>))
                            else (Inr 0, Some p2)))))
      | _ \<Rightarrow> (Inr (-1), pcmdArg))"

text \<open>The range test is on \<open>argFlag_\<close>, as in the code. \<open>strlen\<close> reads past an array without a
  terminator; \<open>||\<close> evaluates it last.\<close>

definition cmdVeri :: "packetCmd \<Rightarrow> stop + int" where
  "cmdVeri p =
     (if cmdCode p = code_word REQ_INVALID then Inr (-1)
      else if 4 \<le> argFlag p \<and> argFlag p \<le> 7 then
        (if argFlag p \<noteq> 1 \<or> sint (p_length p) \<le> 0 then Inr (-1)
         else case cstr (p_data p) of None \<Rightarrow> Inl OutOfBounds
              | Some s \<Rightarrow> if length s = 0 then Inr (-1) else Inr 0)
      else if cmdCode p = code_word REQ_PWD then
        (if argFlag p \<noteq> 0 \<or> p_length p \<noteq> 0 then Inr (-1)
         else case cstr (p_data p) of None \<Rightarrow> Inl OutOfBounds
              | Some s \<Rightarrow> if length s \<noteq> 0 then Inr (-1) else Inr 0)
      else Inr 0)"

definition cmdCheck :: "string option \<Rightarrow> packetCmd option \<Rightarrow> (stop + int) \<times> packetCmd option" where
  "cmdCheck cmd pcmdArg =
     (case cmdCut cmd pcmdArg of
        (Inl e, p) \<Rightarrow> (Inl e, p)
      | (Inr r, p) \<Rightarrow>
          if r \<noteq> 0 then (Inr r, p)
          else (case p of None \<Rightarrow> (Inl BadPointer, p) | Some q \<Rightarrow> (cmdVeri q, p)))"

section \<open>What is accepted\<close>

text \<open>The packet a command without and with an argument is put into.\<close>

definition bare_packet :: "CommandCode \<Rightarrow> packetCmd \<Rightarrow> packetCmd" where
  "bare_packet c p =
     p\<lparr>cmdCode := code_word c, argFlag := 0, p_length := 0, p_data := (p_data p)[0 := NUL]\<rparr>"

definition arg_packet :: "CommandCode \<Rightarrow> string \<Rightarrow> packetCmd \<Rightarrow> packetCmd" where
  "arg_packet c a p =
     p\<lparr>cmdCode := code_word c, argFlag := 1, p_length := of_nat (length a),
       p_data := a @ NUL # drop (Suc (length a)) (p_data p)\<rparr>"

text \<open>The rule for a line, from its tokens: a known command, at most one argument, which fits, and
  none for \<open>pwd\<close>.\<close>

definition parse_tokens :: "string list \<Rightarrow> packetCmd \<Rightarrow> packetCmd option" where
  "parse_tokens ts p =
     (case ts of
        [t] \<Rightarrow> (let c = str_to_cmdcode (Some t) in
                if c = REQ_INVALID then None else Some (bare_packet c p))
      | [t, a] \<Rightarrow> (let c = str_to_cmdcode (Some t) in
                   if c = REQ_INVALID \<or> c = REQ_PWD \<or> DATA_SIZE \<le> length a then None
                   else Some (arg_packet c a p))
      | _ \<Rightarrow> None)"

lemma cstr_bare: "packet_ok p \<Longrightarrow> cstr (p_data (bare_packet c p)) = Some []"
  by (cases "p_data p") (auto simp: bare_packet_def packet_ok_def cstr_def)

lemma cstr_arg: "no_nul a \<Longrightarrow> cstr (p_data (arg_packet c a p)) = Some a"
  by (simp add: arg_packet_def cstr_terminated)

lemma packet_ok_bare: "packet_ok p \<Longrightarrow> packet_ok (bare_packet c p)"
  by (simp add: bare_packet_def packet_ok_def)

lemma packet_ok_arg: "packet_ok p \<Longrightarrow> length a < DATA_SIZE \<Longrightarrow> packet_ok (arg_packet c a p)"
  by (simp add: arg_packet_def packet_ok_def)

lemma tokens_None: "strtok_r s = None \<Longrightarrow> tokens s = []"
  by (simp add: tokens.simps [of s])

lemma tokens_Some: "strtok_r s = Some (t, r) \<Longrightarrow> tokens s = t # tokens r"
  by (simp add: tokens.simps [of s])

lemma tokens_Nil_iff: "tokens s = [] \<longleftrightarrow> strtok_r s = None"
  by (cases "strtok_r s") (auto simp: tokens_None tokens_Some)

text \<open>How \<open>cmdCut\<close> ends, by the tokens of the line.\<close>

lemma cmdCut_none: "strtok_r line = None \<Longrightarrow> fst (cmdCut (Some line) (Some p)) = Inr (-1)"
  by (simp add: cmdCut_def)

lemma cmdCut_one:
  assumes "strtok_r line = Some (t, r)" "strtok_r r = None"
  shows "cmdCut (Some line) (Some p) = (Inr 0, Some (bare_packet (str_to_cmdcode (Some t)) p))"
  using assms by (simp add: cmdCut_def bare_packet_def Let_def)

lemma cmdCut_two:
  assumes "strtok_r line = Some (t, r)" "strtok_r r = Some (a, r2)" "packet_ok p"
  shows "cmdCut (Some line) (Some p) = (if DATA_SIZE \<le> length a \<or> strtok_r r2 \<noteq> None
      then (Inr (-1), snd (cmdCut (Some line) (Some p)))
      else (Inr 0, Some (arg_packet (str_to_cmdcode (Some t)) a p)))"
proof -
  have "poke 0 (a @ [NUL]) ((p_data p)[0 := NUL]) = Some (a @ NUL # drop (Suc (length a)) (p_data p))"
    if "length a < DATA_SIZE"
    using that assms(3) by (simp add: poke_def packet_ok_def drop_update_cancel)
  then show ?thesis
    using assms(1,2) by (simp add: cmdCut_def arg_packet_def Let_def)
qed

lemma cmdVeri_bare:
  "packet_ok p \<Longrightarrow> cmdVeri (bare_packet c p) = (if c = REQ_INVALID then Inr (-1) else Inr 0)"
  using cstr_bare [of p c] by (cases c) (simp_all add: cmdVeri_def bare_packet_def)

lemma word_4_le_1 [simp]: "\<not> (4 :: cint) \<le> 1"
  by (simp add: word_le_nat_alt)

lemma cmdVeri_arg:
  "cmdVeri (arg_packet c a p) = (if c = REQ_INVALID \<or> c = REQ_PWD then Inr (-1) else Inr 0)"
  by (cases c) (simp_all add: cmdVeri_def arg_packet_def)

lemma strtok_r_token:
  assumes "strtok_r s = Some (t, r)"
  shows "t \<noteq> [] \<and> list_all (\<lambda>c. \<not> is_sep c) t \<and> (no_nul s \<longrightarrow> no_nul t \<and> no_nul r)"
proof -
  let ?d = "dropWhile is_sep s"
  from assms have d: "?d \<noteq> []" "t = takeWhile (\<lambda>c. \<not> is_sep c) ?d"
    "r = drop 1 (dropWhile (\<lambda>c. \<not> is_sep c) ?d)"
    by (auto simp: strtok_by_def Let_def split: if_splits)
  then have "t \<noteq> []" using hd_dropWhile [of is_sep s] by (cases ?d) auto
  moreover have "list_all (\<lambda>c. \<not> is_sep c) t"
    unfolding d(2) by (auto simp: list_all_iff dest: set_takeWhileD)
  moreover have "no_nul t \<and> no_nul r" if "no_nul s"
    using that unfolding d(2,3) no_nul_def
    by (auto dest!: set_takeWhileD set_dropWhileD in_set_dropD)
  ultimately show ?thesis by blast
qed

text \<open>A line that is one word.\<close>

lemma tokens_word: "t \<noteq> [] \<Longrightarrow> list_all (\<lambda>c. \<not> is_sep c) t \<Longrightarrow> tokens t = [t]"
proof -
  assume t: "t \<noteq> []" "list_all (\<lambda>c. \<not> is_sep c) t"
  then have skip: "dropWhile is_sep t = t" by (cases t) auto
  from t(2) have all: "takeWhile (\<lambda>c. \<not> is_sep c) t = t" "dropWhile (\<lambda>c. \<not> is_sep c) t = []"
    by (simp_all only: takeWhile_eq_all_conv dropWhile_eq_Nil_conv list_all_iff)
  have "strtok_r t = Some (t, [])"
    unfolding strtok_by_def Let_def skip all using t(1) by simp
  then show ?thesis by (simp add: tokens_Some tokens_None strtok_by_def)
qed

lemma cmdCheck_parse:
  assumes ok: "packet_ok p"
  shows "cmdCheck (Some line) (Some p) = (case parse_tokens (tokens line) p of
      Some q \<Rightarrow> (Inr 0, Some q)
    | None \<Rightarrow> (Inr (-1), snd (cmdCheck (Some line) (Some p))))"
proof (cases "strtok_r line")
  case None
  with cmdCut_none [OF None, of p] show ?thesis
    by (auto simp: cmdCheck_def parse_tokens_def tokens_None split: prod.splits)
next
  case (Some tr)
  obtain t r where tr: "strtok_r line = Some (t, r)" using Some by (cases tr) auto
  let ?c = "str_to_cmdcode (Some t)"
  show ?thesis
  proof (cases "strtok_r r")
    case None
    with tr have "tokens line = [t]" by (simp add: tokens_Some tokens_None)
    with cmdCut_one [OF tr None, of p] cmdVeri_bare [OF ok, of ?c] show ?thesis
      by (simp add: cmdCheck_def parse_tokens_def Let_def)
  next
    case (Some ar)
    obtain a r2 where ar: "strtok_r r = Some (a, r2)" using Some by (cases ar) auto
    note cut = cmdCut_two [OF tr ar ok]
    show ?thesis
    proof (cases "strtok_r r2")
      case None
      with tr ar have "tokens line = [t, a]" by (simp add: tokens_Some tokens_None)
      with cut None cmdVeri_arg [of ?c a p] show ?thesis
        by (auto simp: cmdCheck_def parse_tokens_def Let_def split: prod.splits if_splits)
    next
      case (Some br)
      then have "tokens r2 \<noteq> []" by (simp add: tokens_Nil_iff)
      with tr ar have "parse_tokens (tokens line) p = None"
        by (auto simp: parse_tokens_def tokens_Some neq_Nil_conv)
      with cut Some show ?thesis
        by (auto simp: cmdCheck_def split: prod.splits if_splits)
    qed
  qed
qed

lemma accepted_packet_ok:
  assumes "packet_ok p" "no_nul line" "cmdCheck (Some line) (Some p) = (Inr 0, Some q)"
  shows "packet_ok q \<and>
    (\<exists>a. cstr (p_data q) = Some a \<and> p_length q = of_nat (length a) \<and> length a < DATA_SIZE \<and>
      argFlag q = (if a = [] then 0 else 1)) \<and>
    (\<exists>c. c \<noteq> REQ_INVALID \<and> cmdCode q = code_word c)"
proof -
  from assms(1,3) have q: "parse_tokens (tokens line) p = Some q"
    using cmdCheck_parse [OF assms(1), of line]
    by (cases "parse_tokens (tokens line) p") (simp_all add: prod_eq_iff)
  from q consider
      c where "c \<noteq> REQ_INVALID" "q = bare_packet c p"
    | t a c where "tokens line = [t, a]" "c \<noteq> REQ_INVALID" "length a < DATA_SIZE"
        "q = arg_packet c a p"
    by (auto simp: parse_tokens_def Let_def split: list.splits if_splits)
  then show ?thesis
  proof cases
    case 1
    with assms(1) cstr_bare [OF assms(1)] show ?thesis
      by (auto simp: packet_ok_bare) (auto simp: bare_packet_def)
  next
    case 2
    then obtain r r2 where "strtok_r line = Some (t, r)" "strtok_r r = Some (a, r2)"
      by (auto simp: tokens.simps [of line] split: option.splits)
        (auto simp: tokens_Nil_iff tokens.simps split: option.splits)
    with assms(2) have "a \<noteq> []" "no_nul a" by (auto dest!: strtok_r_token)
    with 2 assms(1) show ?thesis
      by (auto simp: packet_ok_arg cstr_arg) (auto simp: arg_packet_def)
  qed
qed

section \<open>The rule of the comments\<close>

text \<open>
  The rule the source states for a line (\<open>cmdOpt.h:8\<close>, \<open>cmdOpt.c:64\<close> and \<open>cmdOpt.c:72\<close>): the
  commands 4 to 7, \<open>rm\<close>, \<open>put\<close>, \<open>get\<close> and \<open>mkdir\<close>, must have an argument, \<open>pwd\<close> must have none, the
  others may have one. There is at most one (\<open>cmdOpt.c:50\<close>), and it fits the packet
  (\<open>cmdOpt.c:39\<close>). \<open>documented ws c a\<close>: the words are command \<open>c\<close> with argument \<open>a\<close> by this rule.
  It does not use the parser.
\<close>

definition needs_arg :: "CommandCode \<Rightarrow> bool" where
  "needs_arg c \<longleftrightarrow> 4 \<le> code_val c \<and> code_val c \<le> 7"

definition documented :: "string list \<Rightarrow> CommandCode \<Rightarrow> string option \<Rightarrow> bool" where
  "documented ws c a \<longleftrightarrow>
     (case command_name c of None \<Rightarrow> False
      | Some name \<Rightarrow> ws = name # (case a of None \<Rightarrow> [] | Some x \<Rightarrow> [x])) \<and>
     (needs_arg c \<longrightarrow> a \<noteq> None) \<and> (c = REQ_PWD \<longrightarrow> a = None) \<and>
     (case a of None \<Rightarrow> True | Some x \<Rightarrow> length x < DATA_SIZE)"

text \<open>A command that needs an argument, typed alone.\<close>

definition left_alone :: "string list \<Rightarrow> CommandCode \<Rightarrow> bool" where
  "left_alone ws c \<longleftrightarrow> needs_arg c \<and> (case command_name c of None \<Rightarrow> False | Some name \<Rightarrow> ws = [name])"

definition filled_packet :: "CommandCode \<Rightarrow> string option \<Rightarrow> packetCmd \<Rightarrow> packetCmd" where
  "filled_packet c a p = (case a of None \<Rightarrow> bare_packet c p | Some x \<Rightarrow> arg_packet c x p)"

lemma documented_parse: "documented ws c a \<Longrightarrow> parse_tokens ws p = Some (filled_packet c a p)"
  using str_to_cmdcode_name [of c]
  by (auto simp: documented_def parse_tokens_def filled_packet_def split: option.splits)

lemma left_alone_parse: "left_alone ws c \<Longrightarrow> parse_tokens ws p = Some (bare_packet c p)"
  using str_to_cmdcode_name [of c]
  by (auto simp: left_alone_def parse_tokens_def split: option.splits)

lemma parse_documented:
  assumes "parse_tokens ws p = Some q"
  shows "\<exists>c. (\<exists>a. documented ws c a) \<or> left_alone ws c"
proof -
  from assms consider
      t c where "ws = [t]" "str_to_cmdcode (Some t) = c" "c \<noteq> REQ_INVALID"
    | t x c where "ws = [t, x]" "str_to_cmdcode (Some t) = c" "c \<noteq> REQ_INVALID" "c \<noteq> REQ_PWD"
        "length x < DATA_SIZE"
    by (auto simp: parse_tokens_def Let_def split: list.splits if_splits)
  then show ?thesis
  proof cases
    case 1
    then have "command_name c = Some t" using str_to_cmdcode_valid by metis
    with 1 have "documented ws c None \<or> left_alone ws c"
      by (auto simp: documented_def left_alone_def)
    then show ?thesis by blast
  next
    case 2
    then have "command_name c = Some t" using str_to_cmdcode_valid by metis
    with 2 have "documented ws c (Some x)" by (simp add: documented_def)
    then show ?thesis by blast
  qed
qed

section \<open>Properties\<close>

text \<open>A packet variable with some contents.\<close>

definition blank_packet :: packetCmd where
  "blank_packet = \<lparr>cmdCode = 0, argFlag = 0, p_length = 0, p_data = replicate DATA_SIZE (CHR ''x'')\<rparr>"

lemma blank_packet_ok: "packet_ok blank_packet"
  by (simp add: blank_packet_def packet_ok_def)

text \<open>
  C31. The parser against the rule the comments state. On every line and every packet buffer
  \<open>cmdCheck\<close> returns 0 or \<open>-1\<close> without reading or writing out of bounds. A line that follows the rule
  is accepted, and the packet is the command with its argument. Every other line is refused, but
  for \<open>rm\<close>, \<open>put\<close>, \<open>get\<close> and \<open>mkdir\<close> typed alone: these the rule forbids and the code accepts,
  with an empty argument. They are the only lines where the code departs from the rule.
\<close>

theorem cmdCheck_exact:
  assumes "packet_ok p"
  shows "(\<forall>c a. documented (tokens line) c a \<longrightarrow>
      cmdCheck (Some line) (Some p) = (Inr 0, Some (filled_packet c a p))) \<and>
    (\<forall>c. left_alone (tokens line) c \<longrightarrow>
      cmdCheck (Some line) (Some p) = (Inr 0, Some (filled_packet c None p)) \<and>
      (\<forall>d a. \<not> documented (tokens line) d a)) \<and>
    ((\<forall>c a. \<not> documented (tokens line) c a) \<and> (\<forall>c. \<not> left_alone (tokens line) c) \<longrightarrow>
      fst (cmdCheck (Some line) (Some p)) = Inr (-1))"
proof (intro conjI allI impI)
  show "cmdCheck (Some line) (Some p) = (Inr 0, Some (filled_packet c a p))"
    if "documented (tokens line) c a" for c a
    using cmdCheck_parse [OF assms, of line] documented_parse [OF that, of p] by simp
  show "cmdCheck (Some line) (Some p) = (Inr 0, Some (filled_packet c None p))"
    if "left_alone (tokens line) c" for c
    using cmdCheck_parse [OF assms, of line] left_alone_parse [OF that, of p]
    by (simp add: filled_packet_def)
  show "\<not> documented (tokens line) d a" if "left_alone (tokens line) c" for c d a
    using that command_name_inject [of c d]
    by (auto simp: documented_def left_alone_def split: option.splits)
  show "fst (cmdCheck (Some line) (Some p)) = Inr (-1)"
    if none: "(\<forall>c a. \<not> documented (tokens line) c a) \<and> (\<forall>c. \<not> left_alone (tokens line) c)"
  proof (cases "parse_tokens (tokens line) p")
    case None
    with cmdCheck_parse [OF assms, of line] show ?thesis
      by (auto dest: arg_cong [where f = fst])
  next
    case (Some q)
    with parse_documented [OF Some] none show ?thesis by blast
  qed
qed

theorem cmdCheck_exact_witness:
  "cmdCheck (Some ''get a.txt'') (Some blank_packet)
     = (Inr 0, Some (arg_packet REQ_GET ''a.txt'' blank_packet)) \<and>
   cmdCheck (Some ''put'') (Some blank_packet) = (Inr 0, Some (bare_packet REQ_PUT blank_packet)) \<and>
   fst (cmdCheck (Some ''pwd x'') (Some blank_packet)) = Inr (-1)"
proof -
  have t: "tokens ''get a.txt'' = [''get'', ''a.txt'']" "tokens ''put'' = [''put'']"
    "tokens ''pwd x'' = [''pwd'', ''x'']"
    by (simp_all add: tokens.simps strtok_by_def is_sep_def)
  have "documented [''get'', ''a.txt''] REQ_GET (Some ''a.txt'')" "left_alone [''put''] REQ_PUT"
    by (simp_all add: documented_def left_alone_def needs_arg_def)
  moreover have "\<not> documented [''pwd'', ''x''] c a" "\<not> left_alone [''pwd'', ''x''] c" for c a
    by (cases c; auto simp: documented_def left_alone_def split: option.splits)+
  ultimately show ?thesis
    using cmdCheck_exact [OF blank_packet_ok, of "''get a.txt''"]
      cmdCheck_exact [OF blank_packet_ok, of "''put''"]
      cmdCheck_exact [OF blank_packet_ok, of "''pwd x''"]
    unfolding t by (auto simp: filled_packet_def)
qed

text \<open>
  C32. What an accepted packet looks like: a known command code, a terminated argument string of
  exactly \<open>length_\<close> characters, and \<open>argFlag_\<close> 1 or 0 according to whether it is non-empty.
\<close>

theorem cmdCheck_packet_ok:
  assumes "packet_ok p" "no_nul line" "cmdCheck (Some line) (Some p) = (Inr 0, Some q)"
  shows "packet_ok q \<and>
    (\<exists>a. cstr (p_data q) = Some a \<and> p_length q = of_nat (length a) \<and> length a < DATA_SIZE \<and>
      argFlag q = (if a = [] then 0 else 1)) \<and>
    (\<exists>c. c \<noteq> REQ_INVALID \<and> cmdCode q = code_word c)"
  using assms by (rule accepted_packet_ok)

theorem cmdCheck_packet_ok_witness:
  "\<exists>q. cmdCheck (Some ''rm a'') (Some blank_packet) = (Inr 0, Some q) \<and>
     (\<exists>a. cstr (p_data q) = Some a \<and> p_length q = of_nat (length a))"
proof -
  have "tokens ''rm a'' = [''rm'', ''a'']"
    by (simp add: tokens.simps strtok_by_def is_sep_def)
  then obtain q where q: "cmdCheck (Some ''rm a'') (Some blank_packet) = (Inr 0, Some q)"
    using cmdCheck_parse [OF blank_packet_ok, of "''rm a''"]
    by (simp add: parse_tokens_def str_to_cmdcode_def)
  have "no_nul ''rm a''" by (simp add: no_nul_def)
  with q cmdCheck_packet_ok [OF blank_packet_ok _ q] show ?thesis by blast
qed

text \<open>
  The check that a command carries its argument never fires, because it tests \<open>argFlag_\<close>
  instead of \<open>cmdCode_\<close>: \<open>rm\<close>, \<open>put\<close>, \<open>get\<close> and \<open>mkdir\<close> typed alone are accepted with
  \<open>argFlag_ = 0\<close> and an empty argument.
\<close>

lemma missing_argument_accepted:
  assumes "packet_ok p" "REQ_RM \<le> c" "command_name c = Some name"
  shows "\<exists>q. cmdCheck (Some name) (Some p) = (Inr 0, Some q) \<and> argFlag q = 0 \<and>
    cmdCode q = code_word c \<and> cstr (p_data q) = Some []"
proof -
  have toks: "tokens name = [name]"
    using assms(3) by (cases c) (auto intro: tokens_word simp: is_sep_def)
  have code: "str_to_cmdcode (Some name) = c"
    using assms(3) str_to_cmdcode_name [of c] by simp
  from assms(2) have "c \<noteq> REQ_INVALID" by (auto simp: less_eq_CommandCode_def)
  with toks code have "cmdCheck (Some name) (Some p) = (Inr 0, Some (bare_packet c p))"
    using cmdCheck_parse [OF assms(1), of name] by (simp add: parse_tokens_def Let_def)
  with cstr_bare [OF assms(1)] show ?thesis by (auto simp: bare_packet_def)
qed

lemma missing_argument_accepted_example:
  "\<exists>q. cmdCheck (Some ''put'') (Some blank_packet) = (Inr 0, Some q) \<and> argFlag q = 0 \<and>
    cmdCode q = 5 \<and> cstr (p_data q) = Some []"
  using missing_argument_accepted [OF blank_packet_ok, of REQ_PUT "''put''"]
  by (simp add: less_eq_CommandCode_def)

end
