(* ===== verification/Kernel.thy ===== *)
theory Kernel
  imports Protocol
begin

text \<open>
  The operating system as the code sees it. Each process talks to one connected socket, whose
  behaviour is a script: the segments, end of stream and errors that successive \<open>recv\<close> calls
  meet, and the amounts and errors of successive \<open>send\<close> calls. No assumption is made on how the
  network cuts the byte stream into segments. All other system calls are answered by a record of
  functions, an argument of the definitions that use it; each function sees the whole history of
  calls, so it can stand for any file system. The calls made are logged.
\<close>

section \<open>The socket\<close>

datatype errno = EINTR | EOTHER

datatype rx_event = RxData "char list" | RxEof | RxFail errno

datatype tx_event = TxTake nat | TxFail errno | TxBlock

datatype rx_result = RxWaits | Got "char list" | RxError errno

datatype tx_result = TxWaits | Took nat | TxError errno

text \<open>
  \<open>recv(fd, p, n, 0)\<close> for \<open>0 < n\<close>: it returns at most \<open>n\<close> bytes of the next segment (\<open>Got []\<close>
  is the return value 0 at the end of the stream, which lasts), fails, or waits when the script
  is used up. The rest of a segment stays for the next call.
\<close>

fun recv_sys :: "nat \<Rightarrow> rx_event list \<Rightarrow> rx_result \<times> rx_event list" where
  "recv_sys n [] = (RxWaits, [])"
| "recv_sys n (RxEof # s) = (Got [], RxEof # s)"
| "recv_sys n (RxFail e # s) = (RxError e, s)"
| "recv_sys n (RxData d # s) =
     (if d = [] then recv_sys n s
      else (Got (take n d), if n < length d then RxData (drop n d) # s else s))"

text \<open>
  \<open>send(fd, p, n, MSG_NOSIGNAL)\<close>: the kernel takes up to \<open>n\<close> bytes, fails, or waits for the peer
  to read. A used-up script takes all that is offered.
\<close>

fun send_sys :: "nat \<Rightarrow> tx_event list \<Rightarrow> tx_result \<times> tx_event list" where
  "send_sys n [] = (Took n, [])"
| "send_sys n (TxTake k # p) = (Took (min k n), p)"
| "send_sys n (TxFail e # p) = (TxError e, p)"
| "send_sys n (TxBlock # p) = (TxWaits, TxBlock # p)"

text \<open>The bytes a script delivers before its first end of stream or error, and what that is.\<close>

fun payload :: "rx_event list \<Rightarrow> char list" where
  "payload [] = []"
| "payload (RxData d # s) = d @ payload s"
| "payload (RxFail EINTR # s) = payload s"
| "payload (RxFail EOTHER # s) = []"
| "payload (RxEof # s) = []"

fun ending :: "rx_event list \<Rightarrow> rx_result" where
  "ending [] = RxWaits"
| "ending (RxData d # s) = ending s"
| "ending (RxFail EINTR # s) = ending s"
| "ending (RxFail EOTHER # s) = RxError EOTHER"
| "ending (RxEof # s) = Got []"

text \<open>Whether a script of \<open>send\<close> outcomes lets \<open>n\<close> bytes through.\<close>

fun accepts :: "tx_event list \<Rightarrow> nat \<Rightarrow> bool" where
  "accepts [] n = True"
| "accepts (TxTake k # p) n = (n \<le> k \<or> accepts p (n - k))"
| "accepts (TxFail EINTR # p) n = (n = 0 \<or> accepts p n)"
| "accepts (TxFail EOTHER # p) n = (n = 0)"
| "accepts (TxBlock # p) n = (n = 0)"

text \<open>Bytes delivered in two segments with an interrupted call in between.\<close>

definition cut :: "nat \<Rightarrow> char list \<Rightarrow> rx_event list" where
  "cut k bs = [RxData (take k bs), RxFail EINTR, RxData (drop k bs)]"

lemma payload_cut [simp]: "payload (cut k bs) = bs" "ending (cut k bs) = RxWaits"
  by (simp_all only: cut_def payload.simps ending.simps append_Nil2 append_take_drop_id)

lemma payload_cut_more [simp]:
  "payload (cut k bs @ s) = bs @ payload s" "ending (cut k bs @ s) = ending s"
proof -
  have "cut k bs @ s = RxData (take k bs) # RxFail EINTR # RxData (drop k bs) # s" by (simp add: cut_def)
  then show "payload (cut k bs @ s) = bs @ payload s" "ending (cut k bs @ s) = ending s"
    by (simp_all only: payload.simps ending.simps append_assoc [symmetric] append_take_drop_id)
qed

lemma accepts_0 [simp]: "accepts p 0"
  by (induction p "0::nat" rule: accepts.induct) auto

lemma recv_sys_got:
  "recv_sys n s = (Got d, s') \<Longrightarrow>
   payload s = d @ payload s' \<and> ending s' = ending s \<and> length d \<le> n \<and> length s' \<le> length s
   \<and> (d = [] \<longrightarrow> 0 < n \<longrightarrow> payload s = [] \<and> ending s = Got [])"
  by (induction n s arbitrary: d s' rule: recv_sys.induct) (auto split: if_splits)

lemma recv_sys_intr:
  "recv_sys n s = (RxError EINTR, s') \<Longrightarrow>
   payload s' = payload s \<and> ending s' = ending s \<and> length s' < length s"
  by (induction n s arbitrary: s' rule: recv_sys.induct) (auto split: if_splits)

lemma recv_sys_fail:
  "recv_sys n s = (RxError EOTHER, s') \<Longrightarrow>
   payload s = [] \<and> ending s = RxError EOTHER \<and> length s' < length s"
  by (induction n s arbitrary: s' rule: recv_sys.induct) (auto split: if_splits)

lemma recv_sys_waits:
  "recv_sys n s = (RxWaits, s') \<Longrightarrow> payload s = [] \<and> ending s = RxWaits"
  by (induction n s arbitrary: s' rule: recv_sys.induct) (auto split: if_splits)

lemma recv_sys_error: "recv_sys n s = (RxError e, s') \<Longrightarrow> length s' < length s"
  by (cases e) (auto dest: recv_sys_intr recv_sys_fail)

lemma recv_sys_order: "recv_sys n s = (r, s') \<Longrightarrow> length s' \<le> length s"
  by (induction n s arbitrary: r s' rule: recv_sys.induct) (auto split: if_splits)

lemmas recv_sys_facts = recv_sys_got recv_sys_intr recv_sys_fail recv_sys_waits

lemma send_sys_took: "send_sys n p = (Took k, p') \<Longrightarrow> k \<le> n"
  by (cases "(n, p)" rule: send_sys.cases) auto

lemma send_sys_progress:
  "send_sys n p = (r, p') \<Longrightarrow> r \<noteq> TxWaits \<Longrightarrow> length p' < length p \<or> length p' = length p \<and> r = Took n"
  by (cases "(n, p)" rule: send_sys.cases) auto

section \<open>The process and its other system calls\<close>

datatype oflag = O_RDONLY | O_RDWR | O_CREAT | O_TRUNC

text \<open>The calls whose effect lasts, with what they were given and what they returned.\<close>

datatype sysop =
  OpOpen string "oflag list" int
| OpOpenAt cint int
| OpTruncate int int
| OpMap int int
| OpStore int "char list"
| OpSendfile int int
| OpUnlink string int
| OpMkdir string int
| OpOpendir string
| OpClosedir string
| OpPrint string
| OpEpollCreate int
| OpEpollAdd int int int
| OpClose int

text \<open>
  \<open>k_map\<close> gives the memory a mapping shows (\<open>None\<close> is \<open>MAP_FAILED\<close>), \<open>k_content\<close> the bytes of an
  open file, \<open>k_stack\<close> what an uninitialised local object holds, \<open>k_calloc\<close> whether \<open>calloc\<close> finds
  memory, \<open>k_open_at\<close> the result of \<open>open\<close> for a path given by its address.
\<close>

record kernel =
  k_open :: "sysop list \<Rightarrow> string \<Rightarrow> oflag list \<Rightarrow> int"
  k_open_at :: "cint \<Rightarrow> int"
  k_map :: "sysop list \<Rightarrow> int \<Rightarrow> int \<Rightarrow> char list option"
  k_content :: "sysop list \<Rightarrow> int \<Rightarrow> char list"
  k_stack :: "sysop list \<Rightarrow> nat \<Rightarrow> char list"
  k_calloc :: "sysop list \<Rightarrow> nat \<Rightarrow> bool"
  k_size :: "sysop list \<Rightarrow> int \<Rightarrow> int"
  k_unlink :: "sysop list \<Rightarrow> string \<Rightarrow> int"
  k_mkdir :: "sysop list \<Rightarrow> string \<Rightarrow> int"
  k_opendir :: "sysop list \<Rightarrow> string \<Rightarrow> string list option"
  k_getcwd :: "sysop list \<Rightarrow> string option"
  k_epoll_create :: "sysop list \<Rightarrow> int"
  k_epoll_add :: "sysop list \<Rightarrow> int \<Rightarrow> int \<Rightarrow> int"

record proc =
  rx :: "rx_event list"
  plan :: "tx_event list"
  txed :: "char list"
  ops :: "sysop list"

definition log_op :: "sysop \<Rightarrow> ('z proc_scheme, unit) prog" where
  "log_op e = update (\<lambda>w. w\<lparr>ops := ops w @ [e]\<rparr>)"

definition sys_open :: "kernel \<Rightarrow> string \<Rightarrow> oflag list \<Rightarrow> ('z proc_scheme, int) prog" where
  "sys_open K path flags =
     bnd (reads (\<lambda>w. k_open K (ops w) path flags)) (\<lambda>r.
     next_do (log_op (OpOpen path flags r)) (ret r))"

text \<open>Contents cut or filled up to the size of the object they are in.\<close>

definition fit :: "nat \<Rightarrow> char list \<Rightarrow> char list" where
  "fit n bs = take n (bs @ replicate n NUL)"

lemma length_fit [simp]: "length (fit n bs) = n"
  by (simp add: fit_def)

definition stack_bytes :: "kernel \<Rightarrow> nat \<Rightarrow> ('z proc_scheme, char list) prog" where
  "stack_bytes K n = reads (\<lambda>w. fit n (k_stack K (ops w) n))"

definition sys_map :: "kernel \<Rightarrow> int \<Rightarrow> int \<Rightarrow> ('z proc_scheme, char list option) prog" where
  "sys_map K fd sz =
     bnd (reads (\<lambda>w. k_map K (ops w) fd sz)) (\<lambda>m.
     (case m of
        None \<Rightarrow> ret None
      | Some mem \<Rightarrow> next_do (log_op (OpMap fd sz)) (ret (Some (fit (nat sz) mem)))))"

definition sys_unlink :: "kernel \<Rightarrow> string \<Rightarrow> ('z proc_scheme, int) prog" where
  "sys_unlink K path =
     bnd (reads (\<lambda>w. k_unlink K (ops w) path)) (\<lambda>r.
     next_do (log_op (OpUnlink path r)) (ret r))"

definition sys_mkdir :: "kernel \<Rightarrow> string \<Rightarrow> ('z proc_scheme, int) prog" where
  "sys_mkdir K path =
     bnd (reads (\<lambda>w. k_mkdir K (ops w) path)) (\<lambda>r.
     next_do (log_op (OpMkdir path r)) (ret r))"

lemma log_op_run [run]: "log_op e w = (Inr (), w\<lparr>ops := ops w @ [e]\<rparr>)"
  by (simp add: log_op_def run)

lemma log_op_next [run]: "next_do (log_op e) n w = n (w\<lparr>ops := ops w @ [e]\<rparr>)"
  by (simp add: log_op_def run)

lemma stack_bytes_run [run]:
  "stack_bytes K n w = (Inr (fit n (k_stack K (ops w) n)), w)"
  "bnd (stack_bytes K n) f w = f (fit n (k_stack K (ops w) n)) w"
  by (simp_all add: stack_bytes_def run)

lemma sys_open_run [run]:
  "bnd (sys_open K p fl) f w
     = f (k_open K (ops w) p fl) (w\<lparr>ops := ops w @ [OpOpen p fl (k_open K (ops w) p fl)]\<rparr>)"
  by (simp add: sys_open_def bnd_def run)

lemma sys_unlink_run [run]:
  "bnd (sys_unlink K p) f w
     = f (k_unlink K (ops w) p) (w\<lparr>ops := ops w @ [OpUnlink p (k_unlink K (ops w) p)]\<rparr>)"
  by (simp add: sys_unlink_def bnd_def run)

lemma sys_mkdir_run [run]:
  "bnd (sys_mkdir K p) f w
     = f (k_mkdir K (ops w) p) (w\<lparr>ops := ops w @ [OpMkdir p (k_mkdir K (ops w) p)]\<rparr>)"
  by (simp add: sys_mkdir_def bnd_def run)

lemma sys_map_run [run]:
  "bnd (sys_map K fd sz) f w =
     (case k_map K (ops w) fd sz of
        None \<Rightarrow> f None w
      | Some mem \<Rightarrow> f (Some (fit (nat sz) mem)) (w\<lparr>ops := ops w @ [OpMap fd sz]\<rparr>))"
  by (simp add: sys_map_def bnd_def run split: option.splits)

text \<open>A system in which every call succeeds and descriptor 5 is the next one, for examples.\<close>

definition calm_kernel :: kernel where
  "calm_kernel =
     \<lparr>k_open = \<lambda>h p fl. 5, k_open_at = \<lambda>a. -1, k_map = \<lambda>h fd n. if 0 < n then Some [] else None,
      k_content = \<lambda>h fd. [], k_stack = \<lambda>h n. [], k_calloc = \<lambda>h n. True,
      k_size = \<lambda>h fd. 0, k_unlink = \<lambda>h p. 0,
      k_mkdir = \<lambda>h p. 0, k_opendir = \<lambda>h p. Some [], k_getcwd = \<lambda>h. Some ''/'',
      k_epoll_create = \<lambda>h. 4, k_epoll_add = \<lambda>h e fd. 0\<rparr>"

end
