(* ===== verification/Transport.thy ===== *)
theory Transport
  imports Kernel
begin

text \<open>
  Whole-message transfer over a stream socket: \<open>recvn\<close> and \<open>sendn\<close> of the server
  (\<open>server/sendMessage.c\<close>) and of the client (\<open>client/clientsendMessage.c\<close>). The loops run over
  the socket scripts of theory \<open>Kernel\<close>; their specifications speak of the bytes the scripts
  deliver (\<open>payload\<close>) and of how they end (\<open>ending\<close>), whatever the segmentation.
\<close>

section \<open>recvn of the server\<close>

text \<open>Every iteration uses up a part of the script or comes closer to the requested length.\<close>

lemma recv_advance_nat:
  assumes "(Got d, s') = recv_sys n s" "d \<noteq> []" "cur < want"
  shows "length s' + (want - (cur + length d)) < length s + (want - cur)"
  using assms(2,3) sym [OF assms(1), THEN recv_sys_order] by (cases d) auto

lemma recv_advance_int:
  assumes "(Got d, s') = recv_sys n s" "d \<noteq> []" "cur < want"
  shows "length s' < length s \<or>
    length s' = length s \<and> nat (want - (cur + int (length d))) < nat (want - cur)"
  using assms(2,3) sym [OF assms(1), THEN recv_sys_order] by (cases d) auto


text \<open>
  \<open>cur\<close> is \<open>cursize\<close>, which only grows; \<open>buf\<close> is the memory from \<open>buf\<close> to the end of the object
  the caller passes. The result is the return value and that memory.
\<close>

function recvn_loop ::
  "rx_event list \<Rightarrow> char list \<Rightarrow> nat \<Rightarrow> nat \<Rightarrow> (stop + (int \<times> char list)) \<times> rx_event list"
where
  "recvn_loop s buf cur want =
     (if cur < want then
        (case recv_sys (want - cur) s of
           (RxWaits, s') \<Rightarrow> (Inl Blocks, s')
         | (RxError EINTR, s') \<Rightarrow> recvn_loop s' buf cur want
         | (RxError EOTHER, s') \<Rightarrow> (Inr (-1, buf), s')
         | (Got d, s') \<Rightarrow>
             (if d = [] then (Inr (0, buf), s')
              else case poke (int cur) d buf of
                     None \<Rightarrow> (Inl OutOfBounds, s')
                   | Some buf' \<Rightarrow> recvn_loop s' buf' (cur + length d) want))
      else (Inr (int_of_long (int cur), buf), s))"
  by pat_completeness auto
termination
proof (relation "measure (\<lambda>(s, buf, cur, want). length s + (want - cur))", goal_cases)
  case 2
  then show ?case
    by (simp only: in_measure prod.case) (rule recv_advance_nat; assumption)
next
  case 3
  then show ?case
    by (auto dest: sym [THEN recv_sys_error])
qed simp

declare recvn_loop.simps [simp del]

definition recvn :: "char list \<Rightarrow> int \<Rightarrow> ('z proc_scheme, int \<times> char list) prog" where
  "recvn buf want w =
     (case recvn_loop (rx w) buf 0 (nat want) of (r, s) \<Rightarrow> (r, w\<lparr>rx := s\<rparr>))"

section \<open>recvn of the client\<close>

text \<open>
  The client's \<open>recvn\<close> does not look at the sign of what \<open>recv\<close> returns: a failed call adds
  \<open>-1\<close> to \<open>cursize\<close>, and success is reported as 0, end of stream as 1.
\<close>

function client_recvn_loop ::
  "rx_event list \<Rightarrow> char list \<Rightarrow> int \<Rightarrow> int \<Rightarrow> (stop + (int \<times> char list)) \<times> rx_event list"
where
  "client_recvn_loop s buf cur want =
     (if cur < want then
        (case recv_sys (nat (want - cur)) s of
           (RxWaits, s') \<Rightarrow> (Inl Blocks, s')
         | (RxError e, s') \<Rightarrow> client_recvn_loop s' buf (cur - 1) want
         | (Got d, s') \<Rightarrow>
             (if d = [] then (Inr (1, buf), s')
              else case poke cur d buf of
                     None \<Rightarrow> (Inl OutOfBounds, s')
                   | Some buf' \<Rightarrow> client_recvn_loop s' buf' (cur + int (length d)) want))
      else (Inr (0, buf), s))"
  by pat_completeness auto
termination
  by (relation "measures [\<lambda>(s, buf, cur, want). length s,
      \<lambda>(s, buf, cur, want). nat (want - cur)]")
    (auto dest: sym [THEN recv_sys_error] recv_advance_int)

declare client_recvn_loop.simps [simp del]

definition client_recvn :: "char list \<Rightarrow> int \<Rightarrow> ('z proc_scheme, int \<times> char list) prog" where
  "client_recvn buf want w =
     (case client_recvn_loop (rx w) buf 0 want of (r, s) \<Rightarrow> (r, w\<lparr>rx := s\<rparr>))"

section \<open>send and sendn\<close>

text \<open>
  A single \<open>send\<close> of the bytes \<open>data\<close>: the return value is the number of bytes taken, possibly
  fewer than offered, or \<open>-1\<close>.
\<close>

definition send1 :: "char list \<Rightarrow> ('z proc_scheme, int) prog" where
  "send1 data w =
     (case send_sys (length data) (plan w) of
        (TxWaits, p) \<Rightarrow> (Inl Blocks, w\<lparr>plan := p\<rparr>)
      | (TxError e, p) \<Rightarrow> (Inr (-1), w\<lparr>plan := p\<rparr>)
      | (Took k, p) \<Rightarrow> (Inr (int k), w\<lparr>plan := p, txed := txed w @ take k data\<rparr>))"

text \<open>
  The loop of \<open>sendn\<close>: \<open>data\<close> is the memory sent, \<open>sent\<close> the bytes already taken. The result is
  the return value, the rest of the script and the bytes handed to the kernel.
\<close>

function sendn_loop ::
  "tx_event list \<Rightarrow> char list \<Rightarrow> nat \<Rightarrow> (stop + int) \<times> tx_event list \<times> char list"
where
  "sendn_loop p data sent =
     (if sent < length data then
        (case send_sys (length data - sent) p of
           (TxWaits, p') \<Rightarrow> (Inl Blocks, p', [])
         | (TxError EINTR, p') \<Rightarrow> sendn_loop p' data sent
         | (TxError EOTHER, p') \<Rightarrow> (Inr (-1), p', [])
         | (Took k, p') \<Rightarrow>
             (case sendn_loop p' data (sent + k) of
                (r, p'', out) \<Rightarrow> (r, p'', take k (drop sent data) @ out)))
      else (Inr (int_of_long (int sent)), p, []))"
  by pat_completeness auto
termination
  by (relation "measures [\<lambda>(p, data, sent). length p, \<lambda>(p, data, sent). length data - sent]")
    (auto dest!: sym [THEN send_sys_progress])

declare sendn_loop.simps [simp del]

definition sendn :: "char list \<Rightarrow> ('z proc_scheme, int) prog" where
  "sendn data w =
     (case sendn_loop (plan w) data 0 of
        (r, p, out) \<Rightarrow> (r, w\<lparr>plan := p, txed := txed w @ out\<rparr>))"

text \<open>The client's \<open>sendn\<close> has the same text as the server's.\<close>

definition client_sendn :: "char list \<Rightarrow> ('z proc_scheme, int) prog" where
  "client_sendn data w =
     (case sendn_loop (plan w) data 0 of
        (r, p, out) \<Rightarrow> (r, w\<lparr>plan := p, txed := txed w @ out\<rparr>))"

section \<open>What recvn returns\<close>

text \<open>How a stream that gives too little ends a call: how it ends decides between 0 (closed), \<open>-1\<close>
  (failed) and waiting.\<close>

definition short_result :: "rx_result \<Rightarrow> char list \<Rightarrow> stop + (int \<times> char list)" where
  "short_result e buf =
     (case e of RxWaits \<Rightarrow> Inl Blocks | Got _ \<Rightarrow> Inr (0, buf) | RxError _ \<Rightarrow> Inr (-1, buf))"

text \<open>One iteration: the stream is at its end, the call was interrupted, or bytes are stored.\<close>

lemma recvn_loop_cases:
  assumes "cur < want" "want \<le> length buf"
  obtains (over) s1 where "recvn_loop s buf cur want = (short_result (ending s) buf, s1)" "payload s = []"
      "ending s = Got [] \<longrightarrow> payload s1 = [] \<and> ending s1 = Got []"
  | (again) s1 where "recvn_loop s buf cur want = recvn_loop s1 buf cur want"
      "payload s1 = payload s" "ending s1 = ending s" "length s1 < length s"
  | (stored) d s1 where
      "recvn_loop s buf cur want = recvn_loop s1 (take cur buf @ d @ drop (cur + length d) buf) (cur + length d) want"
      "payload s = d @ payload s1" "ending s1 = ending s" "d \<noteq> []" "cur + length d \<le> want" "length s1 \<le> length s"
proof -
  obtain r s1 where rs: "recv_sys (want - cur) s = (r, s1)" by fastforce
  note step = recvn_loop.simps [of s buf cur want] assms(1) rs
  show ?thesis
  proof (cases r)
    case RxWaits
    with rs recv_sys_waits [of "want - cur" s s1] show ?thesis by (intro over) (auto simp: step short_result_def)
  next
    case (RxError e)
    with rs recv_sys_intr [of "want - cur" s s1] recv_sys_fail [of "want - cur" s s1] that(1,2) [of s1] show ?thesis
      by (cases e) (auto simp: step short_result_def)
  next
    case (Got d)
    note got = recv_sys_got [OF rs [unfolded Got]]
    show ?thesis
    proof (cases "d = []")
      case True
      with got assms(1) Got show ?thesis by (intro over) (auto simp: step short_result_def)
    next
      case False
      from got assms have "poke (int cur) d buf = Some (take cur buf @ d @ drop (cur + length d) buf)"
        by (intro poke_at) linarith
      then have "recvn_loop s buf cur want
          = recvn_loop s1 (take cur buf @ d @ drop (cur + length d) buf) (cur + length d) want"
        using False by (simp add: step Got)
      then show ?thesis by (rule stored) (use got False assms(1) in auto)
    qed
  qed
qed

text \<open>
  Enough bytes: the request is met exactly, whatever the segments and interrupted calls, and
  what is left in the socket starts right after the request.
\<close>

lemma recvn_loop_enough:
  assumes "cur \<le> want" "want \<le> length buf" "want - cur \<le> length (payload s)"
  shows "\<exists>s'. recvn_loop s buf cur want =
      (Inr (int_of_long (int want),
            take cur buf @ take (want - cur) (payload s) @ drop want buf), s')
    \<and> payload s' = drop (want - cur) (payload s) \<and> ending s' = ending s"
  using assms
proof (induction "length s + (want - cur)" arbitrary: s buf cur rule: less_induct)
  case less
  show ?case
  proof (cases "cur < want")
    case True
    then show ?thesis
    proof (cases rule: recvn_loop_cases [OF True less.prems(2), of s, case_names over again stored])
      case (again s1)
      with less.hyps [of s1 cur buf] less.prems show ?thesis by simp
    next
      case (stored d s1)
      let ?buf = "take cur buf @ d @ drop (cur + length d) buf"
      have "length s1 + (want - (cur + length d)) < length s + (want - cur)" "cur + length d \<le> want"
        "want \<le> length ?buf" "want - (cur + length d) \<le> length (payload s1)"
        using stored less.prems True by (auto simp: Suc_le_eq [symmetric] neq_Nil_conv)
      from less.hyps [OF this] stored(2,3) show ?thesis
        using stored(4,5) less.prems(2) True by (auto simp: stored(1) min_def diff_diff_left)
    qed (use less.prems True in auto)
  qed (use less.prems in \<open>simp add: recvn_loop.simps [of s]\<close>)
qed

text \<open>Too few bytes: what had arrived is in the buffer.\<close>

lemma recvn_loop_short:
  assumes "want \<le> length buf" "length (payload s) < want - cur"
  shows "\<exists>s'. recvn_loop s buf cur want =
      (short_result (ending s)
        (take cur buf @ payload s @ drop (cur + length (payload s)) buf), s')
    \<and> (ending s = Got [] \<longrightarrow> payload s' = [] \<and> ending s' = Got [])"
  using assms
proof (induction "length s + (want - cur)" arbitrary: s buf cur rule: less_induct)
  case less
  from less.prems have True: "cur < want" by linarith
  show ?case
  proof (cases rule: recvn_loop_cases [OF True less.prems(1), of s, case_names over again stored])
    case (again s1)
    with less.hyps [of s1 cur buf] less.prems show ?thesis by simp
  next
    case (stored d s1)
    let ?buf = "take cur buf @ d @ drop (cur + length d) buf"
    have "length s1 + (want - (cur + length d)) < length s + (want - cur)"
      "want \<le> length ?buf" "length (payload s1) < want - (cur + length d)"
      using stored less.prems True by (auto simp: Suc_le_eq [symmetric] neq_Nil_conv)
    from less.hyps [OF this] stored(2,3) show ?thesis
      using stored(4,5) less.prems(1) True by (auto simp: stored(1) min_def ac_simps)
  qed (use less.prems True in auto)
qed

section \<open>What sendn transmits\<close>

text \<open>Whatever happens, a prefix of the data goes out; the return value tells if it is all of it.\<close>

lemma sendn_loop_prefix:
  assumes "sendn_loop p data sent = (r, p', out)" "sent \<le> length data"
  shows "\<exists>k. sent + k \<le> length data \<and> out = take k (drop sent data) \<and>
    (r = Inl Blocks \<or> r = Inr (-1) \<or>
     sent + k = length data \<and> r = Inr (int_of_long (int (length data))))"
  using assms
proof (induction p data sent arbitrary: r p' out rule: sendn_loop.induct)
  case (1 p data sent)
  show ?case
  proof (cases "sent < length data")
    case False
    with "1.prems" show ?thesis by (auto simp: sendn_loop.simps [of p])
  next
    case True
    obtain t p1 where tp: "send_sys (length data - sent) p = (t, p1)" by fastforce
    note step = sendn_loop.simps [of p data sent] True tp
    show ?thesis
    proof (cases t)
      case (Took k)
      note le = send_sys_took [OF tp [unfolded Took]]
      obtain r1 p2 out1 where rec: "sendn_loop p1 data (sent + k) = (r1, p2, out1)"
        by (cases "sendn_loop p1 data (sent + k)")
      have "sent + k \<le> length data" using le True by simp
      from "1.IH"(1) [OF True tp [symmetric] Took rec this] obtain j
        where j: "sent + k + j \<le> length data" "out1 = take j (drop (sent + k) data)"
          "r1 = Inl Blocks \<or> r1 = Inr (-1) \<or>
           sent + k + j = length data \<and> r1 = Inr (int_of_long (int (length data)))" by blast
      have "take (k + j) (drop sent data) = take k (drop sent data) @ out1"
        using j(2) by (simp add: take_add add.commute [of k sent])
      then show ?thesis
        using "1.prems"(1) j(1,3) rec by (intro exI [of _ "k + j"]) (auto simp: step Took ac_simps)
    next
      case (TxError e)
      show ?thesis
      proof (cases e)
        case EINTR
        with "1.IH"(2) [OF True tp [symmetric] TxError EINTR] "1.prems" show ?thesis
          by (simp add: step TxError)
      next
        case EOTHER
        with "1.prems" show ?thesis
          by (intro exI [of _ 0]) (simp add: step TxError)
      qed
    next
      case TxWaits
      with "1.prems" show ?thesis by (intro exI [of _ 0]) (simp add: step)
    qed
  qed
qed

lemma send_sys_accepts:
  assumes "send_sys n p = (t, p')" "accepts p n" "0 < n"
  shows "(\<exists>k. t = Took k \<and> accepts p' (n - k)) \<or> t = TxError EINTR \<and> accepts p' n"
  using assms
proof (cases "(n, p)" rule: send_sys.cases)
  case (3 n e p)
  with assms show ?thesis by (cases e) auto
qed (auto simp: min_def)

lemma sendn_loop_complete:
  assumes "accepts p (length data - sent)" "sent \<le> length data"
  shows "\<exists>p'. sendn_loop p data sent
    = (Inr (int_of_long (int (length data))), p', drop sent data)"
  using assms
proof (induction p data sent rule: sendn_loop.induct)
  case (1 p data sent)
  show ?case
  proof (cases "sent < length data")
    case False
    with "1.prems" show ?thesis by (simp add: sendn_loop.simps [of p])
  next
    case True
    obtain t p1 where tp: "send_sys (length data - sent) p = (t, p1)" by fastforce
    note step = sendn_loop.simps [of p data sent] True tp
    from send_sys_accepts [OF tp "1.prems"(1)] True consider
      k where "t = Took k" "accepts p1 (length data - (sent + k))"
      | "t = TxError EINTR" "accepts p1 (length data - sent)" by fastforce
    then show ?thesis
    proof cases
      case 1
      from send_sys_took [OF tp [unfolded 1(1)]] True have "sent + k \<le> length data" by simp
      with "1.IH"(1) [OF True tp [symmetric] 1(1)] 1(2) obtain p' where
        "sendn_loop p1 data (sent + k)
           = (Inr (int_of_long (int (length data))), p', drop (sent + k) data)" by blast
      moreover have "take k (drop sent data) @ drop (sent + k) data = drop sent data"
        by (metis append_take_drop_id drop_drop add.commute)
      ultimately show ?thesis by (simp add: step 1(1))
    next
      case 2
      with "1.IH"(2) [OF True tp [symmetric] 2(1) refl] "1.prems" show ?thesis
        by (simp add: step)
    qed
  qed
qed

section \<open>The transfers as programs\<close>

lemma recvn_enough:
  assumes "n \<le> length buf" "n \<le> length (payload (rx w))"
  obtains s' where
    "recvn buf (int n) w = (Inr (int_of_long (int n), take n (payload (rx w)) @ drop n buf),
       w\<lparr>rx := s'\<rparr>)"
    "payload s' = drop n (payload (rx w))" "ending s' = ending (rx w)"
  using recvn_loop_enough [of 0 n buf "rx w"] assms by (auto simp: recvn_def)

lemma recvn_short:
  assumes "n \<le> length buf" "length (payload (rx w)) < n"
  obtains s' where
    "recvn buf (int n) w = (short_result (ending (rx w))
       (payload (rx w) @ drop (length (payload (rx w))) buf), w\<lparr>rx := s'\<rparr>)"
    "ending (rx w) = Got [] \<Longrightarrow> payload s' = []" "ending (rx w) = Got [] \<Longrightarrow> ending s' = Got []"
  using recvn_loop_short [of n buf "rx w" 0] assms by (auto simp: recvn_def)

text \<open>What \<open>recvn\<close> has stored when it returns, whatever the size asked for, if no \<open>recv\<close> failed.\<close>

lemma recv_sys_steady:
  "recv_sys n s = (t, s1) \<Longrightarrow> RxFail EOTHER \<notin> set s \<Longrightarrow> RxFail EOTHER \<notin> set s1 \<and> t \<noteq> RxError EOTHER"
  by (induction n s arbitrary: t s1 rule: recv_sys.induct) (auto split: if_splits)

lemma recvn_loop_steady:
  assumes "recvn_loop s buf cur want = (Inr (r, b), s')" "RxFail EOTHER \<notin> set s" "cur \<le> length buf"
  shows "b = take cur buf @ take (want - cur) (payload s) @ drop (cur + length (take (want - cur) (payload s))) buf \<and>
    cur + length (take (want - cur) (payload s)) \<le> length buf \<and>
    payload s' = drop (want - cur) (payload s) \<and> RxFail EOTHER \<notin> set s'"
  using assms
proof (induction s buf cur want arbitrary: r b s' rule: recvn_loop.induct)
  case (1 s buf cur want)
  show ?case
  proof (cases "cur < want")
    case True
    obtain t s1 where ts: "recv_sys (want - cur) s = (t, s1)" by fastforce
    note step = recvn_loop.simps [of s buf cur want] True ts
    have s1: "RxFail EOTHER \<notin> set s1" "t \<noteq> RxError EOTHER"
      using recv_sys_steady [OF ts "1.prems"(2)] by simp_all
    show ?thesis
    proof (cases t)
      case (RxError e)
      with s1 have e: "e = EINTR" by (cases e) auto
      with recv_sys_intr ts RxError have p: "payload s1 = payload s" by blast
      from "1.prems"(1) have "recvn_loop s1 buf cur want = (Inr (r, b), s')" by (simp add: step RxError e)
      from "1.IH"(2) [OF True ts [symmetric] RxError e this s1(1) "1.prems"(3)] p show ?thesis by simp
    next
      case (Got d)
      note got = recv_sys_got [OF ts [unfolded Got]]
      show ?thesis
      proof (cases "d = []")
        case True
        with "1.prems" got s1 \<open>cur < want\<close> show ?thesis by (auto simp: step Got)
      next
        case False
        with "1.prems"(1) obtain b1 where b1: "poke (int cur) d buf = Some b1"
          "recvn_loop s1 b1 (cur + length d) want = (Inr (r, b), s')"
          by (auto simp: step Got split: option.splits)
        then have fits: "cur + length d \<le> length buf" by (simp add: poke_def split: if_splits)
        with b1(1) have b1': "b1 = take cur buf @ d @ drop (cur + length d) buf"
          by (simp add: poke_at)
        define more where "more = take (want - (cur + length d)) (payload s1)"
        have split: "take (want - cur) (payload s) = d @ more" "drop (want - cur) (payload s) = drop (want - (cur + length d)) (payload s1)"
          using got by (simp_all add: more_def)
        have le: "cur + length d \<le> length b1" and len: "length b1 = length buf" using fits by (simp_all add: b1')
        from "1.IH"(1) [OF True ts [symmetric] Got False b1 s1(1) le, folded more_def] have
          IH: "b = take (cur + length d) b1 @ more @ drop (cur + length d + length more) b1"
            "cur + length d + length more \<le> length b1"
            "payload s' = drop (want - (cur + length d)) (payload s1)" "RxFail EOTHER \<notin> set s'" by blast+
        have "take (cur + length d) b1 = take cur buf @ d" "drop (cur + length d + length more) b1 = drop (cur + length d + length more) buf"
          using fits by (simp_all add: b1' ac_simps)
        with IH len show ?thesis unfolding split by (simp add: add.assoc)
      qed
    qed (use "1.prems" in \<open>simp add: step\<close>)
  next
    case False
    with "1.prems" show ?thesis by (simp add: recvn_loop.simps [of s])
  qed
qed
lemma recvn_steady:
  assumes "recvn buf n w = (Inr (r, b), w')" "RxFail EOTHER \<notin> set (rx w)"
  shows "b = take (nat n) (payload (rx w)) @ drop (length (take (nat n) (payload (rx w)))) buf"
    "payload (rx w') = drop (nat n) (payload (rx w))" "RxFail EOTHER \<notin> set (rx w')"
  using assms recvn_loop_steady [of "rx w" buf 0 "nat n" r b "rx w'"]
  by (auto simp: recvn_def split: prod.splits)

lemma recvn_nothing [run]: "want \<le> 0 \<Longrightarrow> recvn buf want w = (Inr (0, buf), w)"
  by (simp add: recvn_def recvn_loop.simps [of "rx w"] int_of_long_def)

lemma sendn_complete:
  assumes "accepts (plan w) (length data)"
  obtains p' where "sendn data w
    = (Inr (int_of_long (int (length data))), w\<lparr>plan := p', txed := txed w @ data\<rparr>)"
  using sendn_loop_complete [of "plan w" data 0] assms by (auto simp: sendn_def)

lemma client_sendn_sendn: "client_sendn data = sendn data"
  by (simp add: fun_eq_iff client_sendn_def sendn_def)

text \<open>What one end writes as the image of a structure, the other reads back, however the bytes
  are cut up on the way.\<close>

context image
begin

lemma recvn_image:
  assumes "well x" "length buf = size_of" "int size_of \<le> INT_MAX"
    "payload (rx w) = enc x @ rest"
  obtains s' where "recvn buf (int size_of) w = (Inr (int size_of, enc x), w\<lparr>rx := s'\<rparr>)"
    "payload s' = rest" "ending s' = ending (rx w)" "dec (enc x) = x"
proof -
  have n: "int_of_long (int size_of) = int size_of"
    using assms(3) by (intro int_of_long_small) simp_all
  show ?thesis
    by (rule recvn_enough [of size_of buf w])
      (use assms n that in \<open>auto simp: enc_size dec_enc\<close>)
qed

lemma sendn_recvn:
  assumes "well x" "length buf = size_of" "int size_of \<le> INT_MAX"
    "accepts (plan c) size_of" "payload (rx v) = txed (snd (sendn (enc x) c))" "txed c = []"
  shows "\<exists>b v'. recvn buf (int size_of) v = (Inr (int size_of, b), v') \<and> dec b = x"
proof -
  obtain p' where "sendn (enc x) c
      = (Inr (int_of_long (int size_of)), c\<lparr>plan := p', txed := txed c @ enc x\<rparr>)"
    using sendn_complete [of c "enc x"] assms(1,4) by (auto simp: enc_size)
  with assms(5,6) have "payload (rx v) = enc x @ []" by simp
  with assms(1-3) show ?thesis by (metis recvn_image)
qed

end

section \<open>The client's recvn\<close>

definition failfree :: "rx_event list \<Rightarrow> bool" where
  "failfree s = list_all (\<lambda>e. case e of RxFail _ \<Rightarrow> False | _ \<Rightarrow> True) s"

lemma recv_sys_failfree:
  "recv_sys n s = (r, s') \<Longrightarrow> failfree s \<Longrightarrow> failfree s' \<and> (\<forall>e. r \<noteq> RxError e)"
  by (induction n s arbitrary: r s' rule: recv_sys.induct)
    (auto simp: failfree_def split: if_splits)

text \<open>
  While no call fails, the client's loop stores what the server's stores; only the return codes
  differ: 0 for success and 1 for the end of the stream.
\<close>

definition client_code :: "nat \<Rightarrow> stop + (int \<times> char list) \<Rightarrow> stop + (int \<times> char list)" where
  "client_code n res =
     (case res of Inl e \<Rightarrow> Inl e | Inr (r, b) \<Rightarrow> Inr (if r = 0 \<and> 0 < n then 1 else 0, b))"

lemma client_recvn_loop_eq:
  assumes "failfree s" "int n \<le> INT_MAX" "c \<le> n"
  shows "client_recvn_loop s buf (int c) (int n)
    = (case recvn_loop s buf c n of (r, s') \<Rightarrow> (client_code n r, s'))"
  using assms
proof (induction s buf c n rule: recvn_loop.induct)
  case (1 s buf c n)
  obtain r s1 where rs: "recv_sys (n - c) s = (r, s1)" by fastforce
  note step = recvn_loop.simps [of s buf c n] client_recvn_loop.simps [of s buf "int c" "int n"]
  note ff = recv_sys_failfree [OF rs "1.prems"(1)]
  show ?case
  proof (cases "c < n")
    case False
    with "1.prems" have "int_of_long (int n) = int n" by (intro int_of_long_small) simp_all
    moreover from False "1.prems" have "c = n" by simp
    ultimately show ?thesis
      by (auto simp: recvn_loop.simps [of s buf n n] client_code_def
          client_recvn_loop.simps [of s buf "int n" "int n"])
  next
    case True
    have nat: "nat (int n - int c) = n - c" by simp
    show ?thesis
    proof (cases r)
      case (Got d)
      note le = recv_sys_got [OF rs [unfolded Got]]
      show ?thesis
      proof (cases "poke (int c) d buf")
        case None
        with True rs Got nat show ?thesis by (simp add: step client_code_def)
      next
        case (Some buf')
        show ?thesis
        proof (cases "d = []")
          case False
          moreover have "c + length d \<le> n" using le True by linarith
          ultimately show ?thesis
            using "1.IH"(1) [OF True rs [symmetric] Got False Some] "1.prems" ff True
            by (simp add: step rs nat Got Some)
        qed (use True rs Got nat in \<open>simp add: step client_code_def\<close>)
      qed
    qed (use True rs nat ff in \<open>auto simp: step client_code_def\<close>)
  qed
qed

text \<open>
  A call that fails moves the client's write position back. Before the first byte that is in
  front of the buffer.
\<close>

lemma client_recvn_loop_fail:
  "0 < want \<Longrightarrow> d \<noteq> [] \<Longrightarrow>
   client_recvn_loop (RxFail e # RxData d # s) buf 0 want
     = (Inl OutOfBounds, if nat (want + 1) < length d then RxData (drop (nat (want + 1)) d) # s else s)"
  by (simp add: client_recvn_loop.simps [of "RxFail e # RxData d # s"]
      client_recvn_loop.simps [of "RxData d # s"] poke_def)

lemma recvn_loop_failfree:
  "recvn_loop s buf c n = (r, s') \<Longrightarrow> failfree s \<Longrightarrow> failfree s'"
proof (induction s buf c n arbitrary: r s' rule: recvn_loop.induct)
  case (1 s buf c n)
  obtain t s1 where ts: "recv_sys (n - c) s = (t, s1)" by fastforce
  note ff = recv_sys_failfree [OF ts "1.prems"(2)]
  show ?case
  proof (cases "c < n")
    case True
    note step = recvn_loop.simps [of s buf c n] True ts
    show ?thesis
    proof (cases t)
      case (Got d)
      with "1.prems" ff "1.IH"(1) [OF True ts [symmetric] Got] show ?thesis
        by (auto simp: step split: if_splits option.splits)
    qed (use "1.prems" ff step in auto)
  qed (use "1.prems" in \<open>simp add: recvn_loop.simps [of s]\<close>)
qed

lemma client_recvn_enough:
  assumes "failfree (rx w)" "int n \<le> INT_MAX" "n \<le> length buf" "n \<le> length (payload (rx w))"
  obtains s' where
    "client_recvn buf (int n) w = (Inr (0, take n (payload (rx w)) @ drop n buf), w\<lparr>rx := s'\<rparr>)"
    "payload s' = drop n (payload (rx w))" "failfree s'" "ending s' = ending (rx w)"
proof -
  from recvn_loop_enough [of 0 n buf "rx w"] assms(3,4) obtain s' where s':
    "recvn_loop (rx w) buf 0 n
       = (Inr (int_of_long (int n), take n (payload (rx w)) @ drop n buf), s')"
    "payload s' = drop n (payload (rx w))" "ending s' = ending (rx w)" by auto
  moreover have "int_of_long (int n) = int n"
    using assms(2) by (intro int_of_long_small) simp_all
  ultimately have "client_recvn buf (int n) w
      = (Inr (0, take n (payload (rx w)) @ drop n buf), w\<lparr>rx := s'\<rparr>)"
    using client_recvn_loop_eq [OF assms(1,2), of 0 buf]
    by (auto simp: client_recvn_def client_code_def)
  with s' recvn_loop_failfree [OF s'(1) assms(1)] that show ?thesis by blast
qed

lemma client_recvn_same:
  assumes "failfree (rx w)" "int n \<le> INT_MAX"
  shows "client_recvn buf (int n) w
    = (client_code n (fst (recvn buf (int n) w)), snd (recvn buf (int n) w))"
  using client_recvn_loop_eq [OF assms, of 0 buf]
  by (auto simp: client_recvn_def recvn_def split: prod.splits)

lemma client_recvn_short:
  assumes "failfree (rx w)" "int n \<le> INT_MAX" "n \<le> length buf" "length (payload (rx w)) < n"
  obtains s' where "client_recvn buf (int n) w = (client_code n (short_result (ending (rx w))
       (payload (rx w) @ drop (length (payload (rx w))) buf)), w\<lparr>rx := s'\<rparr>)"
proof -
  obtain s' where "recvn buf (int n) w = (short_result (ending (rx w))
       (payload (rx w) @ drop (length (payload (rx w))) buf), w\<lparr>rx := s'\<rparr>)"
    by (rule recvn_short [OF assms(3,4)])
  with that client_recvn_same [OF assms(1,2), of buf] show ?thesis by simp
qed

section \<open>Sockets that keep taking data\<close>

definition flowing :: "tx_event list \<Rightarrow> bool" where
  "flowing p = list_all (\<lambda>e. case e of TxTake _ \<Rightarrow> True | TxFail e \<Rightarrow> e = EINTR | TxBlock \<Rightarrow> False) p"

lemma flowing_Nil [simp]: "flowing []"
  by (simp add: flowing_def)

lemma flowing_accepts: "flowing p \<Longrightarrow> accepts p n"
  by (induction p n rule: accepts.induct) (auto simp: flowing_def)

lemma send_sys_flowing: "send_sys n p = (t, p') \<Longrightarrow> flowing p \<Longrightarrow> flowing p'"
  by (cases "(n, p)" rule: send_sys.cases) (auto simp: flowing_def)

lemma sendn_loop_flowing:
  "sendn_loop p data sent = (r, p', out) \<Longrightarrow> flowing p \<Longrightarrow> flowing p'"
proof (induction p data sent arbitrary: r p' out rule: sendn_loop.induct)
  case (1 p data sent)
  obtain t p1 where tp: "send_sys (length data - sent) p = (t, p1)" by fastforce
  note fl = send_sys_flowing [OF tp "1.prems"(2)]
  show ?case
  proof (cases "sent < length data")
    case True
    note step = sendn_loop.simps [of p data sent] True tp
    show ?thesis
    proof (cases t)
      case (Took k)
      with "1.prems" fl "1.IH"(1) [OF True tp [symmetric] Took] show ?thesis
        by (auto simp: step split: prod.splits)
    next
      case (TxError e)
      with "1.prems" fl "1.IH"(2) [OF True tp [symmetric] TxError] show ?thesis
        by (cases e) (auto simp: step)
    qed (use "1.prems" fl step in auto)
  qed (use "1.prems" in \<open>simp add: sendn_loop.simps [of p]\<close>)
qed

lemma sendn_flowing:
  assumes "flowing (plan w)" "int (length data) \<le> INT_MAX"
  obtains p' where
    "sendn data w = (Inr (int (length data)), w\<lparr>plan := p', txed := txed w @ data\<rparr>)" "flowing p'"
    "plan w = [] \<longrightarrow> p' = []"
proof -
  from sendn_loop_complete [of "plan w" data 0] flowing_accepts [OF assms(1)] obtain p' where
    p': "sendn_loop (plan w) data 0 = (Inr (int_of_long (int (length data))), p', data)" by auto
  moreover have "int_of_long (int (length data)) = int (length data)"
    using assms(2) by (intro int_of_long_small) simp_all
  moreover from p' have "plan w = [] \<longrightarrow> p' = []"
    by (auto simp: sendn_loop.simps [of "[]"] split: if_splits prod.splits)
  ultimately show ?thesis
    using that sendn_loop_flowing [OF p' assms(1)] by (simp add: sendn_def)
qed

section \<open>Properties\<close>

lemma short_result_ne [simp]: "short_result e b \<noteq> Inl OutOfBounds"
  by (cases e) (simp_all add: short_result_def)

text \<open>
  C26. The server's \<open>recvn\<close> on a buffer that holds the request: however the stream is cut into
  segments and whatever calls are interrupted, it returns the requested number and stores the
  next bytes of the stream in order, leaving the stream right behind them; when the stream ends
  earlier it returns 0 (closed) or \<open>-1\<close> (failed) or waits, and it never writes outside the buffer.
\<close>

theorem recvn_exact:
  assumes "n \<le> length buf" "int n \<le> INT_MAX"
  shows "if n \<le> length (payload (rx w))
    then \<exists>s. recvn buf (int n) w = (Inr (int n, take n (payload (rx w)) @ drop n buf), w\<lparr>rx := s\<rparr>) \<and>
      payload s = drop n (payload (rx w)) \<and> ending s = ending (rx w)
    else \<exists>s. recvn buf (int n) w = (short_result (ending (rx w))
      (payload (rx w) @ drop (length (payload (rx w))) buf), w\<lparr>rx := s\<rparr>)"
proof (cases "n \<le> length (payload (rx w))")
  case True
  have "int_of_long (int n) = int n" using assms(2) by (intro int_of_long_small) simp_all
  moreover obtain s where "recvn buf (int n) w
      = (Inr (int_of_long (int n), take n (payload (rx w)) @ drop n buf), w\<lparr>rx := s\<rparr>)"
    "payload s = drop n (payload (rx w))" "ending s = ending (rx w)"
    by (rule recvn_enough [OF assms(1) True])
  ultimately show ?thesis using True by auto
next
  case False
  then show ?thesis using recvn_short [OF assms(1), of w] by (auto simp: not_le)
qed

theorem recvn_exact_witness:
  "\<exists>s. recvn ''xxxx'' (int 3) \<lparr>rx = [RxData ''a'', RxFail EINTR, RxData ''bcd''], plan = [], txed = [], ops = []\<rparr>
    = (Inr (int 3, ''abcx''), \<lparr>rx = s, plan = [], txed = [], ops = []\<rparr>) \<and> payload s = ''d''"
  using recvn_exact [of 3 "''xxxx''" "\<lparr>rx = [RxData ''a'', RxFail EINTR, RxData ''bcd''],
      plan = [], txed = [], ops = []\<rparr>"]
  by (auto simp: INT_MAX_def numeral_3_eq_3)

text \<open>
  C27. \<open>sendn\<close>, for any sequence of partial, interrupted, failed or waiting \<open>send\<close> calls: what has
  been transmitted is a prefix of the data, and all of it whenever the call returns anything but
  \<open>-1\<close>, which is then the number of bytes.
\<close>

theorem sendn_prefix:
  "int (length data) \<le> INT_MAX \<longrightarrow>
   (\<exists>k r p. sendn data w = (r, w\<lparr>plan := p, txed := txed w @ take k data\<rparr>) \<and>
     (r = Inl Blocks \<or> r = Inr (-1) \<or> length data \<le> k \<and> r = Inr (int (length data))))"
proof
  assume small: "int (length data) \<le> INT_MAX"
  obtain r p out where run: "sendn_loop (plan w) data 0 = (r, p, out)"
    by (cases "sendn_loop (plan w) data 0")
  from sendn_loop_prefix [OF run] obtain k where k: "out = take k data"
    "r = Inl Blocks \<or> r = Inr (-1) \<or> k = length data \<and> r = Inr (int_of_long (int (length data)))"
    by auto
  have "int_of_long (int (length data)) = int (length data)"
    using small by (intro int_of_long_small) simp_all
  with k(2) have "r = Inl Blocks \<or> r = Inr (-1) \<or> length data \<le> k \<and> r = Inr (int (length data))"
    by auto
  moreover have "sendn data w = (r, w\<lparr>plan := p, txed := txed w @ take k data\<rparr>)"
    by (simp add: sendn_def run k(1))
  ultimately show
    "\<exists>k r p. sendn data w = (r, w\<lparr>plan := p, txed := txed w @ take k data\<rparr>) \<and>
     (r = Inl Blocks \<or> r = Inr (-1) \<or> length data \<le> k \<and> r = Inr (int (length data)))"
    by blast
qed

theorem sendn_prefix_witness:
  "\<exists>k r p. sendn ''abc'' \<lparr>rx = [], plan = [TxTake 1, TxFail EINTR, TxTake 5], txed = [], ops = []\<rparr>
      = (r, \<lparr>rx = [], plan = p, txed = take k ''abc'', ops = []\<rparr>) \<and>
     (r = Inl Blocks \<or> r = Inr (-1) \<or> length ''abc'' \<le> k \<and> r = Inr (int (length ''abc'')))"
  using sendn_prefix [of "''abc''" "\<lparr>rx = [], plan = [TxTake 1, TxFail EINTR, TxTake 5], txed = [], ops = []\<rparr>"]
  by (simp add: INT_MAX_def)

text \<open>
  C28. A command crosses the connection unchanged: a packet written by \<open>sendn\<close> through a socket that
  lets its bytes through is read back by \<open>recvn\<close> as the same packet, for every way the bytes are
  cut up in between.
\<close>

theorem packet_crosses:
  assumes "packet_ok x" "length buf = PACKET_SIZE" "accepts (plan c) PACKET_SIZE" "txed c = []"
    "payload (rx v) = txed (snd (client_sendn (enc_packet x) c))"
  shows "\<exists>b v'. recvn buf (int PACKET_SIZE) v = (Inr (int PACKET_SIZE, b), v') \<and> dec_packet b = x"
  using assms by (intro packet_image.sendn_recvn) (simp_all add: INT_MAX_def client_sendn_sendn)

theorem packet_crosses_witness:
  "\<exists>b v'. recvn (replicate PACKET_SIZE NUL) (int PACKET_SIZE)
      \<lparr>rx = cut 100 (enc_packet \<lparr>cmdCode = 2, argFlag = 0, p_length = 0, p_data = replicate DATA_SIZE NUL\<rparr>),
       plan = [], txed = [], ops = []\<rparr> = (Inr (int PACKET_SIZE, b), v') \<and>
    dec_packet b = \<lparr>cmdCode = 2, argFlag = 0, p_length = 0, p_data = replicate DATA_SIZE NUL\<rparr>"
proof -
  let ?x = "\<lparr>cmdCode = 2, argFlag = 0, p_length = 0, p_data = replicate DATA_SIZE NUL\<rparr>"
  let ?c = "\<lparr>rx = [], plan = [TxTake 500, TxFail EINTR, TxTake 600], txed = [], ops = []\<rparr>"
  let ?v = "\<lparr>rx = cut 100 (enc_packet ?x), plan = [], txed = [], ops = []\<rparr>"
  have ok: "packet_ok ?x" by (simp add: packet_ok_def)
  have acc: "accepts (plan ?c) PACKET_SIZE" by simp
  then have "accepts (plan ?c) (length (enc_packet ?x))"
    by (simp only: packet_image.enc_size [OF ok])
  then obtain p where "sendn (enc_packet ?x) ?c = (Inr (int_of_long (int (length (enc_packet ?x)))),
      ?c\<lparr>plan := p, txed := txed ?c @ enc_packet ?x\<rparr>)" by (rule sendn_complete)
  then have "txed (snd (client_sendn (enc_packet ?x) ?c)) = enc_packet ?x"
    by (simp only: client_sendn_sendn snd_conv proc.simps append_Nil)
  then have "payload (rx ?v) = txed (snd (client_sendn (enc_packet ?x) ?c))"
    by (simp only: proc.simps payload_cut)
  then show ?thesis
    by (intro packet_crosses [OF ok length_replicate acc]; simp only: proc.simps)
qed

text \<open>
  C29. Client and server read alike as long as no \<open>recv\<close> fails: the client's loop stores the same
  bytes and leaves the same stream; its return code is 0 where the server's is the length, and 1
  where the server's is 0.
\<close>

theorem client_recvn_agrees:
  assumes "failfree (rx w)" "int n \<le> INT_MAX"
  shows "client_recvn buf (int n) w
    = (client_code n (fst (recvn buf (int n) w)), snd (recvn buf (int n) w))"
  using assms by (rule client_recvn_same)

theorem client_recvn_agrees_witness:
  "client_recvn ''xxxx'' (int 3) \<lparr>rx = [RxData ''a'', RxEof], plan = [], txed = [], ops = []\<rparr>
    = (client_code 3 (fst (recvn ''xxxx'' (int 3) \<lparr>rx = [RxData ''a'', RxEof], plan = [], txed = [], ops = []\<rparr>)),
       snd (recvn ''xxxx'' (int 3) \<lparr>rx = [RxData ''a'', RxEof], plan = [], txed = [], ops = []\<rparr>))"
  by (rule client_recvn_agrees) (simp_all add: failfree_def INT_MAX_def)

text \<open>
  A single failed or interrupted \<open>recv\<close> before the data makes the client's \<open>recvn\<close> write in
  front of its buffer, since the result \<open>-1\<close> is added to the position.
\<close>

lemma client_recvn_underflow:
  assumes "0 < want" "d \<noteq> []" "rx w = RxFail e # RxData d # s"
  shows "fst (client_recvn buf want w) = Inl OutOfBounds"
  using client_recvn_loop_fail [OF assms(1,2), of e s buf] assms(3) by (simp add: client_recvn_def)

lemma client_recvn_underflow_example:
  "fst (client_recvn ''xxxx'' 4 \<lparr>rx = [RxFail EINTR, RxData ''abcd''], plan = [], txed = [], ops = []\<rparr>)
    = Inl OutOfBounds"
  by (rule client_recvn_underflow) simp_all

end
