(* ===== verification/Status.thy ===== *)
theory Status
  imports Transport
begin

text \<open>
  The state records of the two programs and the small modules that fill them: the client's
  \<open>client/status.c\<close>, the server's \<open>server/userStatus.c\<close>, and the process states in which the
  larger components run: the server's with the global \<open>clientPath\<close> of \<open>server/clientHandle.c\<close>,
  the client's with \<open>g_clientState\<close>.
\<close>

section \<open>The client's state\<close>

abbreviation MAX_PATH :: nat where
  "MAX_PATH \<equiv> 1024"

record clientState =
  current_dir :: "char list"
  server_cwd :: "char list"
  is_connected :: int
  c_username :: "char list"

definition clientState_ok :: "clientState \<Rightarrow> bool" where
  "clientState_ok st \<longleftrightarrow>
     length (current_dir st) = MAX_PATH \<and> length (server_cwd st) = MAX_PATH \<and>
     length (c_username st) = 64"

text \<open>\<open>g_clientState\<close> starts zeroed.\<close>

definition g_clientState_start :: clientState where
  "g_clientState_start =
     \<lparr>current_dir = replicate MAX_PATH NUL, server_cwd = replicate MAX_PATH NUL,
      is_connected = 0, c_username = replicate 64 NUL\<rparr>"

text \<open>\<open>getcwd\<close> fills the buffer when the path fits and leaves it alone when it fails.\<close>

definition initClientState :: "string option \<Rightarrow> clientState \<Rightarrow> int \<times> clientState" where
  "initClientState getcwd st =
     (0, st\<lparr>current_dir := (case getcwd of
               None \<Rightarrow> current_dir st
             | Some d \<Rightarrow> if length d < length (current_dir st)
                         then d @ NUL # drop (Suc (length d)) (current_dir st)
                         else current_dir st),
            server_cwd := (server_cwd st)[0 := NUL], is_connected := 0,
            c_username := (c_username st)[0 := NUL]\<rparr>)"

definition updateClientState :: "clientState option \<Rightarrow> string option \<Rightarrow> int \<times> clientState option" where
  "updateClientState state new_dir =
     (case (state, new_dir) of
        (Some st, Some d) \<Rightarrow> (0, Some (st\<lparr>server_cwd := snprintf (server_cwd st) d\<rparr>))
      | _ \<Rightarrow> (-1, state))"

lemma initClientState_ok: "clientState_ok st \<Longrightarrow> clientState_ok (snd (initClientState g st))"
  by (auto simp: clientState_ok_def initClientState_def split: option.splits)

lemma updateClientState_ok:
  "clientState_ok st \<Longrightarrow> no_nul d \<Longrightarrow>
   \<exists>st'. updateClientState (Some st) (Some d) = (0, Some st') \<and> clientState_ok st' \<and>
     cstr (server_cwd st') = Some (take (MAX_PATH - 1) d)"
  using snprintf_sized [of "server_cwd st" MAX_PATH d]
  by (auto simp: clientState_ok_def updateClientState_def)

text \<open>What \<open>printClientState\<close> prints, line by line.\<close>

definition printClientState :: "clientState \<Rightarrow> string list option" where
  "printClientState st =
     (case (cstr (current_dir st), cstr (server_cwd st), cstr (c_username st)) of
        (Some d, Some s, Some u) \<Rightarrow>
          Some [''Current Directory: '' @ d, ''Server Directory: '' @ s,
            ''Connection Status: '' @ (if is_connected st \<noteq> 0 then ''Connected'' else ''Disconnected''),
            ''Username: '' @ u]
      | _ \<Rightarrow> None)"

lemma printClientState_start:
  "printClientState g_clientState_start =
     Some [''Current Directory: '', ''Server Directory: '', ''Connection Status: Disconnected'', ''Username: '']"
  by (simp add: printClientState_def g_clientState_start_def cstr_def)

section \<open>The server's record of a user\<close>

record userStatus =
  username :: "char list"
  currentDir :: "char list"
  isAuthenticated :: int

definition userStatus_ok :: "userStatus \<Rightarrow> bool" where
  "userStatus_ok st \<longleftrightarrow> length (username st) = 32 \<and> length (currentDir st) = 256"

definition home_prefix :: string where
  "home_prefix = ''/home/dingjr/DevCode/NexFile/tmp/netDisk''"

text \<open>\<open>strncpy\<close> pads with NULs; \<open>isAuthenticated\<close> is not set.\<close>

definition strncpy :: "char list \<Rightarrow> string \<Rightarrow> nat \<Rightarrow> char list" where
  "strncpy arr s n = take n s @ replicate (n - length s) NUL @ drop n arr"

definition initUserStatus :: "userStatus option \<Rightarrow> string option \<Rightarrow> int \<times> userStatus option" where
  "initUserStatus status user =
     (case (status, user) of
        (Some st, Some u) \<Rightarrow>
          (0, Some (st\<lparr>username := (strncpy (username st) u (length (username st) - 1))
                          [length (username st) - 1 := NUL],
                       currentDir := snprintf (currentDir st) (home_prefix @ ''/'' @ u @ ''/'')\<rparr>))
      | _ \<Rightarrow> (-1, status))"

lemma initUserStatus_ok:
  assumes "userStatus_ok st" "no_nul u"
  shows "\<exists>st'. initUserStatus (Some st) (Some u) = (0, Some st') \<and> userStatus_ok st' \<and>
    cstr (username st') = Some (take 31 u) \<and>
    cstr (currentDir st') = Some (take 255 (home_prefix @ ''/'' @ u @ ''/''))"
proof -
  let ?name = "(strncpy (username st) u 31)[31 := NUL]"
  have len: "length (strncpy (username st) u 31) = 32"
    using assms(1) by (simp add: strncpy_def userStatus_ok_def)
  have "length (drop 31 (username st)) = Suc 0"
    using assms(1) by (simp add: userStatus_ok_def)
  then obtain x where x: "drop 31 (username st) = [x]"
    by (metis length_0_conv length_Suc_conv)
  let ?pre = "take 31 u @ replicate (31 - length u) NUL"
  have "length ?pre = 31" by simp
  moreover have "?name = (?pre @ [x])[31 := NUL]" by (simp add: strncpy_def x)
  ultimately have "?name = take 31 u @ replicate (31 - length u) NUL @ [NUL]"
    using list_update_length [of ?pre x "[]" NUL] by simp
  also have "\<dots> = take 31 u @ NUL # replicate (31 - length u) NUL"
    by (simp add: replicate_append_same)
  finally have "cstr ?name = Some (take 31 u)"
    using assms(2) by (simp add: cstr_terminated no_nul_take)
  moreover have "no_nul (home_prefix @ ''/'' @ u @ ''/'')"
    using assms(2) by (simp add: home_prefix_def)
  then have "cstr (snprintf (currentDir st) (home_prefix @ ''/'' @ u @ ''/''))
      = Some (take 255 (home_prefix @ ''/'' @ u @ ''/''))"
    using assms(1) snprintf_sized [of "currentDir st" 256] by (simp only: userStatus_ok_def) simp
  ultimately show ?thesis
    using assms(1) len by (simp add: initUserStatus_def userStatus_ok_def)
qed

section \<open>The two processes\<close>

text \<open>One socket, and the process's globals.\<close>

record server = proc +
  clientPath :: "char list"

record client = proc +
  g_clientState :: clientState

abbreviation MAX_PATH_LEN :: nat where
  "MAX_PATH_LEN \<equiv> 1024"

text \<open>The initial value of \<open>clientPath\<close>; the rest of the array is zero.\<close>

definition clientPath_start :: "char list" where
  "clientPath_start = home_prefix @ replicate (MAX_PATH_LEN - length home_prefix) NUL"

definition path_ok :: "char list \<Rightarrow> string \<Rightarrow> bool" where
  "path_ok arr s \<longleftrightarrow> length arr = MAX_PATH_LEN \<and> cstr arr = Some s"

lemma clientPath_start_ok: "path_ok clientPath_start home_prefix"
proof -
  have "replicate (MAX_PATH_LEN - length home_prefix) NUL
      = NUL # replicate (MAX_PATH_LEN - length home_prefix - 1) NUL"
    by (simp add: home_prefix_def flip: replicate_Suc)
  moreover have "no_nul home_prefix" by (simp add: home_prefix_def)
  ultimately have "cstr clientPath_start = Some home_prefix"
    unfolding clientPath_start_def by (simp only: cstr_terminated)
  then show ?thesis by (simp add: path_ok_def clientPath_start_def home_prefix_def)
qed

end
