(* ===== verification/Frames.thy ===== *)
theory Frames
  imports Status
begin

text \<open>
  Messages as \<open>train_t\<close> frames, a length and that many bytes, and how both programs receive one:
  the two calls of \<open>recvn\<close> that login, upload and download are made of.
\<close>

section \<open>Receiving a frame\<close>

text \<open>
  \<open>recvn(fd, &train.length_, sizeof(int)); recvn(fd, train.data_, train.length_);\<close> with both
  results ignored; \<open>t\<close> is the contents of \<open>train\<close> before.
\<close>

definition recv_train :: "train \<Rightarrow> ('z proc_scheme, train) prog" where
  "recv_train t =
     bnd (recvn (le32 (t_length t)) 4) (\<lambda>(_, lb).
     bnd (recvn (t_data t) (sint (dec32 lb))) (\<lambda>(_, data).
     ret \<lparr>t_length = dec32 lb, t_data = data\<rparr>))"

definition client_recv_train :: "train \<Rightarrow> ('z proc_scheme, train) prog" where
  "client_recv_train t =
     bnd (client_recvn (le32 (t_length t)) 4) (\<lambda>(_, lb).
     bnd (client_recvn (t_data t) (sint (dec32 lb))) (\<lambda>(_, data).
     ret \<lparr>t_length = dec32 lb, t_data = data\<rparr>))"

text \<open>\<open>memset(&train, 0, sizeof(train))\<close>\<close>

definition zero_train :: train where
  "zero_train = \<lparr>t_length = 0, t_data = replicate DATA_SIZE NUL\<rparr>"

text \<open>An uninitialised \<open>train\<close>.\<close>

definition stack_train :: "kernel \<Rightarrow> ('z proc_scheme, train) prog" where
  "stack_train K =
     bnd (stack_bytes K 1028) (\<lambda>bs.
     ret \<lparr>t_length = dec32 (take 4 bs), t_data = drop 4 bs\<rparr>)"

text \<open>A frame in the socket arrives in \<open>train\<close>, however it was cut up.\<close>

lemma recv_train_frame:
  assumes "payload (rx w) = frame s @ rest" "length s \<le> length (t_data t)" "int (length s) \<le> INT_MAX"
  obtains s' where
    "recv_train t w = (Inr \<lparr>t_length = of_nat (length s), t_data = s @ drop (length s) (t_data t)\<rparr>,
       w\<lparr>rx := s'\<rparr>)"
    "payload s' = rest" "ending s' = ending (rx w)"
proof -
  from assms(1) have pay: "payload (rx w) = le32 (of_nat (length s)) @ s @ rest"
    by (simp add: frame_def)
  obtain s1 where s1: "recvn (le32 (t_length t)) 4 w
      = (Inr (int_of_long 4, le32 (of_nat (length s))), w\<lparr>rx := s1\<rparr>)"
    "payload s1 = s @ rest" "ending s1 = ending (rx w)"
    using recvn_enough [of 4 "le32 (t_length t)" w] pay by auto
  obtain s2 where "recvn (t_data t) (int (length s)) (w\<lparr>rx := s1\<rparr>)
      = (Inr (int_of_long (int (length s)), s @ drop (length s) (t_data t)), w\<lparr>rx := s2\<rparr>)"
    "payload s2 = rest" "ending s2 = ending s1"
    using recvn_enough [of "length s" "t_data t" "w\<lparr>rx := s1\<rparr>"] assms(2) s1(2) by auto
  with s1 assms(3) that show ?thesis
    by (auto simp: recv_train_def bnd_def run sint_of_nat_small)
qed

text \<open>At the end of the stream the structure stays as it was.\<close>

lemma recv_train_closed:
  assumes "payload (rx w) = []" "ending (rx w) = Got []" "t_length t = of_nat n" "n \<le> length (t_data t)"
    "int n \<le> INT_MAX" "0 < n"
  obtains s' where "recv_train t w = (Inr t, w\<lparr>rx := s'\<rparr>)"
proof -
  have four: "4 \<le> length (le32 (t_length t))" "length (payload (rx w)) < 4" using assms(1) by simp_all
  obtain s1 where s1: "recvn (le32 (t_length t)) (int 4) w = (short_result (ending (rx w))
      (payload (rx w) @ drop (length (payload (rx w))) (le32 (t_length t))), w\<lparr>rx := s1\<rparr>)"
    "payload s1 = []" "ending s1 = Got []"
    using recvn_short [OF four] assms(2) by metis
  have more: "length (payload (rx (w\<lparr>rx := s1\<rparr>))) < n" using s1(2) assms(6) by simp
  obtain s2 where s2: "recvn (t_data t) (int n) (w\<lparr>rx := s1\<rparr>) = (short_result (ending (rx (w\<lparr>rx := s1\<rparr>)))
      (payload (rx (w\<lparr>rx := s1\<rparr>)) @ drop (length (payload (rx (w\<lparr>rx := s1\<rparr>)))) (t_data t)), w\<lparr>rx := s1, rx := s2\<rparr>)"
    by (rule recvn_short [OF assms(4) more])
  have "recv_train t w = (Inr \<lparr>t_length = t_length t, t_data = t_data t\<rparr>, w\<lparr>rx := s2\<rparr>)"
    using s1 s2 assms(1,2) sint_of_nat_small [OF assms(5)]
    by (simp add: recv_train_def bnd_def run short_result_def assms(3))
  with that show ?thesis by simp
qed

lemma client_recv_train_frame:
  assumes "payload (rx w) = frame s @ rest" "failfree (rx w)"
    "length s \<le> length (t_data t)" "int (length s) \<le> INT_MAX"
  obtains s' where
    "client_recv_train t w
       = (Inr \<lparr>t_length = of_nat (length s), t_data = s @ drop (length s) (t_data t)\<rparr>, w\<lparr>rx := s'\<rparr>)"
    "payload s' = rest" "failfree s'" "ending s' = ending (rx w)"
proof -
  from assms(1) have pay: "payload (rx w) = le32 (of_nat (length s)) @ s @ rest"
    by (simp add: frame_def)
  obtain s1 where s1: "client_recvn (le32 (t_length t)) 4 w
      = (Inr (0, le32 (of_nat (length s))), w\<lparr>rx := s1\<rparr>)" "payload s1 = s @ rest" "failfree s1"
    "ending s1 = ending (rx w)"
    using client_recvn_enough [OF assms(2), of 4 "le32 (t_length t)"] pay
    by (auto simp: INT_MAX_def)
  obtain s2 where "client_recvn (t_data t) (int (length s)) (w\<lparr>rx := s1\<rparr>)
      = (Inr (0, s @ drop (length s) (t_data t)), w\<lparr>rx := s2\<rparr>)" "payload s2 = rest" "failfree s2"
    "ending s2 = ending s1"
    using client_recvn_enough [of "w\<lparr>rx := s1\<rparr>" "length s" "t_data t"] assms(3,4) s1(2,3) by auto
  with s1 assms(4) that show ?thesis
    by (auto simp: client_recv_train_def bnd_def run sint_of_nat_small)
qed

text \<open>The text a received frame holds: its bytes up to its length, or to a null byte before that.\<close>

definition train_text :: "train \<Rightarrow> string" where
  "train_text t = takeWhile (\<lambda>c. c \<noteq> NUL) (take (nat (sint (t_length t))) (t_data t))"

text \<open>The text of the first frame of a stream, and the rest of the stream. A stream that ends within
  the length field counts as filled up with null bytes.\<close>

definition read_frame :: "char list \<Rightarrow> string \<times> char list" where
  "read_frame bs =
     (let n = nat (sint (dec32 (take 4 (bs @ [NUL, NUL, NUL, NUL])))) in
      (takeWhile (\<lambda>c. c \<noteq> NUL) (take n (drop 4 bs)), drop n (drop 4 bs)))"

lemma takeWhile_pad: "takeWhile (\<lambda>c. c \<noteq> NUL) (s @ replicate k NUL) = takeWhile (\<lambda>c. c \<noteq> NUL) s"
  by (induction s) (cases k; simp)+

lemma four_nuls: "k \<le> 4 \<Longrightarrow> drop k [NUL, NUL, NUL, NUL] = take (4 - k) [NUL, NUL, NUL, NUL]"
  by (auto simp: le_Suc_eq eval_nat_numeral)

lemma recv_train_parts:
  assumes "recv_train t0 w = (Inr t, w')"
  obtains r1 lb w1 r2 data where "recvn (le32 (t_length t0)) 4 w = (Inr (r1, lb), w1)"
    "recvn (t_data t0) (sint (dec32 lb)) w1 = (Inr (r2, data), w')" "t = \<lparr>t_length = dec32 lb, t_data = data\<rparr>"
proof -
  from assms obtain p w1 where p: "recvn (le32 (t_length t0)) 4 w = (Inr p, w1)"
    "(case p of (r, lb) \<Rightarrow> bnd (recvn (t_data t0) (sint (dec32 lb))) (\<lambda>(r, data).
       ret \<lparr>t_length = dec32 lb, t_data = data\<rparr>)) w1 = (Inr t, w')"
    unfolding recv_train_def bnd_Inr_iff [of "recvn (le32 (t_length t0)) 4"] by blast
  obtain r1 lb where lb: "p = (r1, lb)" by fastforce
  from p(2) obtain q w2 where q: "recvn (t_data t0) (sint (dec32 lb)) w1 = (Inr q, w2)"
    "(case q of (r, data) \<Rightarrow> ret \<lparr>t_length = dec32 lb, t_data = data\<rparr>) w2 = (Inr t, w')"
    unfolding lb prod.case bnd_Inr_iff by blast
  obtain r2 data where "q = (r2, data)" by fastforce
  with p(1) q lb that show ?thesis by (simp add: ret_def)
qed

lemma recv_train_steady:
  assumes "recv_train zero_train w = (Inr t, w')" "RxFail EOTHER \<notin> set (rx w)"
  shows "read_frame (payload (rx w)) = (train_text t, payload (rx w'))" "RxFail EOTHER \<notin> set (rx w')"
proof -
  obtain r1 lb w1 r2 data where
    h: "recvn (le32 (t_length zero_train)) 4 w = (Inr (r1, lb), w1)"
    and d: "recvn (t_data zero_train) (sint (dec32 lb)) w1 = (Inr (r2, data), w')"
    and t: "t = \<lparr>t_length = dec32 lb, t_data = data\<rparr>"
    by (rule recv_train_parts [OF assms(1)])
  let ?bs = "payload (rx w)" and ?n = "nat (sint (dec32 lb))"
  have zero: "le32 (t_length zero_train) = [NUL, NUL, NUL, NUL]"
    by (simp add: zero_train_def le32_def char_of_def)
  note hd = recvn_steady [OF h assms(2)]
  note dt = recvn_steady [OF d hd(3)]
  have lb: "lb = take 4 (?bs @ [NUL, NUL, NUL, NUL])"
    using hd(1) four_nuls [of "length ?bs"] by (simp add: zero min_def)
  have p1: "payload (rx w1) = drop 4 ?bs" using hd(2) by simp
  define e where "e = take ?n (drop 4 ?bs)"
  have "data = e @ replicate (1024 - length e) NUL"
    using dt(1) by (simp add: e_def p1 zero_train_def)
  moreover have "length e \<le> ?n" by (simp add: e_def)
  ultimately have "take ?n data = e @ replicate (min (?n - length e) (1024 - length e)) NUL"
    by (simp add: min.commute)
  moreover have frame: "read_frame ?bs = (takeWhile (\<lambda>c. c \<noteq> NUL) (take ?n (drop 4 ?bs)), drop ?n (drop 4 ?bs))"
    unfolding read_frame_def Let_def lb [symmetric] by (rule refl)
  ultimately have "train_text t = takeWhile (\<lambda>c. c \<noteq> NUL) e"
    by (simp add: t train_text_def takeWhile_pad)
  then show "read_frame ?bs = (train_text t, payload (rx w'))"
    using dt(2) unfolding frame p1 e_def by simp
  show "RxFail EOTHER \<notin> set (rx w')" by (rule dt(3))
qed

text \<open>What is received depends on the socket alone.\<close>

lemma recv_train_socket:
  "recv_train t w = (r, w') \<Longrightarrow> \<exists>s. w' = w\<lparr>rx := s\<rparr> \<and> (\<forall>v. rx v = rx w \<longrightarrow> recv_train t v = (r, v\<lparr>rx := s\<rparr>))"
  by (fastforce simp: recv_train_def bnd_def recvn_def run split: prod.splits sum.splits)

lemma zero_train_size [simp]: "length (t_data zero_train) = DATA_SIZE"
  by (simp add: zero_train_def)

text \<open>A server process that has received \<open>bs\<close>, in pieces.\<close>

definition server_with :: "char list \<Rightarrow> char list \<Rightarrow> server" where
  "server_with bs path = \<lparr>rx = cut 5 bs, plan = [], txed = [], ops = [], clientPath = path\<rparr>"

lemma server_with_simps [simp]:
  "payload (rx (server_with bs path)) = bs" "plan (server_with bs path) = []"
  "txed (server_with bs path) = []" "clientPath (server_with bs path) = path" "ops (server_with bs path) = []"
  by (simp_all add: server_with_def)

text \<open>A client process that will receive \<open>bs\<close> in two segments and whose socket takes 3 bytes first.\<close>

definition client_with :: "char list \<Rightarrow> client" where
  "client_with bs = \<lparr>rx = [RxData (take 5 bs), RxData (drop 5 bs)], plan = [TxTake 3, TxFail EINTR],
     txed = [], ops = [], g_clientState = g_clientState_start\<rparr>"

lemma client_with_simps [simp]:
  "payload (rx (client_with bs)) = bs" "failfree (rx (client_with bs))" "txed (client_with bs) = []"
  "flowing (plan (client_with bs))"
  by (simp_all only: client_with_def proc.simps payload.simps append_Nil2 append_take_drop_id)
    (simp_all add: failfree_def flowing_def)

end
