(* ===== verification/Authentication.thy ===== *)
theory Authentication
  imports Frames
begin

text \<open>
  Logging in. On the server: \<open>server/authen.c\<close>, \<open>UserAuthen\<close> of \<open>server/sendMessage.c\<close> and
  \<open>handle_authen_event\<close> of \<open>server/clientHandle.c\<close>. On the client: \<open>client/encryption.c\<close>,
  \<open>sendPassword\<close> of \<open>client/clientsendMessage.c\<close> and \<open>handle_authen_event\<close> of
  \<open>client/client.c\<close>. The shadow password file (\<open>getspnam\<close>) and \<open>crypt\<close> are arguments. Messages
  are \<open>train_t\<close> frames: a length and that many bytes. What the server has received is read off the
  socket a second time, by \<open>received_logins\<close>, for the theorem on what a login needs.
\<close>

section \<open>The server's side\<close>

abbreviation AUTH_RESULT_OK :: int where "AUTH_RESULT_OK \<equiv> 0"
abbreviation AUTH_RESULT_FAIL :: int where "AUTH_RESULT_FAIL \<equiv> -1"
abbreviation AUTH_RESULT_USER_QUERY_FAIL :: int where "AUTH_RESULT_USER_QUERY_FAIL \<equiv> 1"
abbreviation AUTH_RESULT_IO_ERROR :: int where "AUTH_RESULT_IO_ERROR \<equiv> -2"

text \<open>\<open>shadow\<close> gives the password field of a user's entry, \<open>None\<close> where \<open>getspnam\<close> finds none.\<close>

definition authenticateUser ::
  "(string \<Rightarrow> string option) \<Rightarrow> string option \<Rightarrow> string option \<Rightarrow> int"
where
  "authenticateUser shadow user cryptPassword =
     (case (user, cryptPassword) of
        (Some u, Some p) \<Rightarrow>
          (case shadow u of
             None \<Rightarrow> 1
           | Some sp_pwdp \<Rightarrow> if p \<noteq> sp_pwdp then -1 else 0)
      | _ \<Rightarrow> 1)"

text \<open>The copy of a received frame into a zeroed local array, terminated at \<open>length_\<close>.\<close>

definition copy_train :: "nat \<Rightarrow> train \<Rightarrow> ('w, char list) prog" where
  "copy_train n t =
     bnd (in_bounds (memcpy (replicate n NUL) (t_data t) (t_length t))) (\<lambda>arr.
     in_bounds (poke (sint (t_length t)) [NUL] arr))"

text \<open>\<open>clientPath\<close> gets a slash unless it ends in one, then the user's name by \<open>strncat\<close>.\<close>

definition append_user :: "char list \<Rightarrow> string \<Rightarrow> string \<Rightarrow> char list option" where
  "append_user arr cur user =
     (if cur = [] \<or> last cur \<noteq> CHR ''/'' then
        Option.bind (poke (int (length cur)) ''/'' arr) (\<lambda>a1.
        Option.bind (poke (int (length cur) + 1) [NUL] a1) (\<lambda>a2.
        poke (int (length cur) + 1)
          (take (MAX_PATH_LEN - (length cur + 1) - 1) user @ [NUL]) a2))
      else poke (int (length cur)) (take (MAX_PATH_LEN - length cur - 1) user @ [NUL]) arr)"

text \<open>Send a reply frame with one \<open>send\<close>; without success the result is an I/O error.\<close>

definition send_reply :: "string \<Rightarrow> int \<Rightarrow> ('z proc_scheme, int) prog" where
  "send_reply msg auth_ret =
     bnd (send1 (frame msg)) (\<lambda>n.
     ret (if n \<le> 0 then AUTH_RESULT_IO_ERROR else auth_ret))"

text \<open>The part of \<open>UserAuthen\<close> after both frames are in: check, extend \<open>clientPath\<close>, reply.\<close>

definition decide_login :: "(string \<Rightarrow> string option) \<Rightarrow> string \<Rightarrow> string \<Rightarrow> ('z server_scheme, int) prog"
where
  "decide_login shadow u p =
     (let auth_ret = authenticateUser shadow (Some u) (Some p) in
      if auth_ret = AUTH_RESULT_OK then
        bnd (reads clientPath) (\<lambda>arr.
        bnd (in_bounds (cstr arr)) (\<lambda>cur.
        if MAX_PATH_LEN \<le> length cur + 1 + length u then ret AUTH_RESULT_IO_ERROR
        else
          bnd (in_bounds (append_user arr cur u)) (\<lambda>arr'.
          next_do (update (\<lambda>w. w\<lparr>clientPath := arr'\<rparr>))
            (send_reply ''AUTH_RESULT_OK'' auth_ret))))
      else if auth_ret = AUTH_RESULT_USER_QUERY_FAIL \<or> auth_ret = AUTH_RESULT_FAIL then
        send_reply ''AUTH_FAIL'' auth_ret
      else ret AUTH_RESULT_USER_QUERY_FAIL)"

definition UserAuthen :: "(string \<Rightarrow> string option) \<Rightarrow> ('z server_scheme, int) prog" where
  "UserAuthen shadow =
     bnd (recv_train zero_train) (\<lambda>t1.
     bnd (copy_train 64 t1) (\<lambda>username.
     bnd (recv_train zero_train) (\<lambda>t2.
     bnd (copy_train 128 t2) (\<lambda>cryptPassword.
     bnd (in_bounds (cstr username)) (\<lambda>u.
     bnd (in_bounds (cstr cryptPassword)) (\<lambda>p.
     decide_login shadow u p))))))"

text \<open>The loop around it; \<open>None\<close> is a loop that never ends.\<close>

partial_function (option) handle_authen_event ::
  "(string \<Rightarrow> string option) \<Rightarrow> server \<Rightarrow> ((stop + int) \<times> server) option"
where
  "handle_authen_event shadow w =
     (let res = UserAuthen shadow w in
      if fst res = Inr AUTH_RESULT_OK then Some (Inr 0, snd res)
      else if fst res = Inr AUTH_RESULT_FAIL then handle_authen_event shadow (snd res)
      else if fst res = Inr AUTH_RESULT_USER_QUERY_FAIL then handle_authen_event shadow (snd res)
      else
        (case fst res of
           Inl e \<Rightarrow> Some (Inl e, snd res)
         | Inr _ \<Rightarrow> Some (Inr (-1), snd res)))"

section \<open>The client's side\<close>

definition salt :: string where
  "salt = ''$y$j9T$H1C6NG.1YBywxNo4wQ409.$''"

text \<open>\<open>crypt\<close> maps a password and a salt to a hash, or to \<open>NULL\<close>.\<close>

definition encryptPassword :: "(string \<Rightarrow> string \<Rightarrow> string option) \<Rightarrow> string \<Rightarrow> string option" where
  "encryptPassword crypt pw = crypt pw salt"

text \<open>One of the two messages of \<open>sendPassword\<close>: the string goes through \<open>train.data_\<close>.\<close>

definition send_string :: "string \<Rightarrow> ('z proc_scheme, int) prog" where
  "send_string s =
     bnd (in_bounds (memcpy (replicate DATA_SIZE NUL) (s @ [NUL]) (of_nat (length s)))) (\<lambda>data.
     client_sendn (take (4 + length s) (le32 (of_nat (length s)) @ data)))"

definition sendPassword :: "string option \<Rightarrow> string option \<Rightarrow> ('z proc_scheme, int) prog" where
  "sendPassword user password =
     (case (user, password) of
        (Some u, Some p) \<Rightarrow>
          bnd (send_string u) (\<lambda>r1.
          if r1 < 0 then ret (-1)
          else
            bnd (send_string p) (\<lambda>r2.
            if r2 < 0 then ret (-1) else ret 0))
      | _ \<Rightarrow> ret (-1))"

definition handlePassword ::
  "(string \<Rightarrow> string \<Rightarrow> string option) \<Rightarrow> string option \<Rightarrow> string option \<Rightarrow> ('z proc_scheme, int) prog"
where
  "handlePassword crypt user password =
     (case (user, password) of
        (Some u, Some p) \<Rightarrow>
          bnd (sendPassword (Some u) (encryptPassword crypt p)) (\<lambda>send_ret.
          if send_ret = -1 then ret (-1) else ret send_ret)
      | _ \<Rightarrow> ret (-1))"

text \<open>\<open>junk\<close> is the uninitialised \<open>train\<close> the reply is received into.\<close>

definition handle_authentication ::
  "(string \<Rightarrow> string \<Rightarrow> string option) \<Rightarrow> train \<Rightarrow> string option \<Rightarrow> string option \<Rightarrow>
   ('z client_scheme, int) prog"
where
  "handle_authentication crypt junk user password =
     (case (user, password) of
        (Some u, Some p) \<Rightarrow>
          bnd (handlePassword crypt (Some u) (Some p)) (\<lambda>r.
          if r \<noteq> 0 then ret (-1)
          else
            bnd (client_recv_train junk) (\<lambda>t.
            bnd (copy_train 64 t) (\<lambda>arr.
            bnd (in_bounds (cstr arr)) (\<lambda>auth_response.
            if auth_response = ''AUTH_RESULT_OK'' then
              next_do (update (\<lambda>w. w\<lparr>g_clientState := (g_clientState w)\<lparr>is_connected := 1\<rparr>\<rparr>)) (ret 0)
            else ret (-1)))))
      | _ \<Rightarrow> ret (-1))"

text \<open>
  The client's login loop. \<open>inp\<close> is what the standard input still holds, \<open>junk k\<close> the contents
  of the uninitialised \<open>train\<close> in the \<open>k\<close>-th round. The result carries the rest of the input.
\<close>

function client_handle_authen_event ::
  "(string \<Rightarrow> string \<Rightarrow> string option) \<Rightarrow> (nat \<Rightarrow> train) \<Rightarrow> string \<Rightarrow> client \<Rightarrow>
   (stop + int) \<times> string \<times> client"
where
  "client_handle_authen_event crypt junk inp w =
     (if is_connected (g_clientState w) = 1 then (Inr 0, inp, w)
      else
        (case fgets 64 inp of
           None \<Rightarrow> (Inr (-1), inp, w)
         | Some (user, inp1) \<Rightarrow>
           (case fgets 128 inp1 of
              None \<Rightarrow> (Inr (-1), inp1, w)
            | Some (pw, inp2) \<Rightarrow>
              (case handle_authentication crypt (junk 0) (Some (chomp user)) (Some (chomp pw)) w of
                 (Inl e, w') \<Rightarrow> (Inl e, inp2, w')
               | (Inr r, w') \<Rightarrow>
                   if r \<noteq> 0 then client_handle_authen_event crypt (\<lambda>k. junk (Suc k)) inp2 w'
                   else (Inr 0, inp2, w')))))"
  by pat_completeness auto
termination
  by (relation "measure (\<lambda>(crypt, junk, inp, w). length inp)")
    (auto dest!: fgets_progress)

declare client_handle_authen_event.simps [simp del]

section \<open>What a login receives\<close>

text \<open>The user and the password (hash) of one attempt, as the two frames hold them.\<close>

definition received_login :: "('z proc_scheme, string \<times> string) prog" where
  "received_login =
     bnd (recv_train zero_train) (\<lambda>t1. bnd (recv_train zero_train) (\<lambda>t2. ret (train_text t1, train_text t2)))"

text \<open>The same for a socket on its own, and for a number of attempts one after the other.\<close>

definition credentials :: "rx_event list \<Rightarrow> (stop + string \<times> string) \<times> rx_event list" where
  "credentials s = (case received_login \<lparr>rx = s, plan = [], txed = [], ops = []\<rparr> of (r, w) \<Rightarrow> (r, rx w))"

fun received_logins :: "nat \<Rightarrow> rx_event list \<Rightarrow> ((string \<times> string) list \<times> rx_event list) option" where
  "received_logins 0 s = Some ([], s)"
| "received_logins (Suc n) s =
     (case credentials s of
        (Inl e, t) \<Rightarrow> None
      | (Inr c, t) \<Rightarrow> map_option (\<lambda>(cs, u). (c # cs, u)) (received_logins n t))"

text \<open>And read off the bytes of the stream.\<close>

fun read_logins :: "nat \<Rightarrow> char list \<Rightarrow> (string \<times> string) list \<times> char list" where
  "read_logins 0 bs = ([], bs)"
| "read_logins (Suc n) bs =
     (let (u, bs1) = read_frame bs; (p, bs2) = read_frame bs1; (cs, rest) = read_logins n bs2 in ((u, p) # cs, rest))"

lemma received_login_socket:
  assumes "recv_train zero_train w = (Inr t1, w1)" "recv_train zero_train w1 = (Inr t2, w2)"
  shows "credentials (rx w) = (Inr (train_text t1, train_text t2), rx w2)" "w2 = w\<lparr>rx := rx w2\<rparr>"
proof -
  let ?v = "\<lparr>rx = rx w, plan = [], txed = [], ops = []\<rparr>"
  from recv_train_socket [OF assms(1)] obtain s1 where s1: "w1 = w\<lparr>rx := s1\<rparr>"
    "\<forall>v :: proc. rx v = rx w \<longrightarrow> recv_train zero_train v = (Inr t1, v\<lparr>rx := s1\<rparr>)" by blast
  from s1(2) have v1: "recv_train zero_train ?v = (Inr t1, ?v\<lparr>rx := s1\<rparr>)" by simp
  from recv_train_socket [OF assms(2)] obtain s2 where s2: "w2 = w1\<lparr>rx := s2\<rparr>"
    "\<forall>v :: proc. rx v = rx w1 \<longrightarrow> recv_train zero_train v = (Inr t2, v\<lparr>rx := s2\<rparr>)" by blast
  from s2(2) s1(1) have "recv_train zero_train (?v\<lparr>rx := s1\<rparr>) = (Inr t2, ?v\<lparr>rx := s1, rx := s2\<rparr>)" by simp
  with v1 have "received_login ?v = (Inr (train_text t1, train_text t2), ?v\<lparr>rx := s1, rx := s2\<rparr>)"
    by (simp add: received_login_def bnd_def ret_def)
  with s1(1) s2(1) show "credentials (rx w) = (Inr (train_text t1, train_text t2), rx w2)" "w2 = w\<lparr>rx := rx w2\<rparr>"
    by (simp_all add: credentials_def)
qed

lemma credentials_read:
  assumes "credentials s = (Inr (u, p), s2)" "RxFail EOTHER \<notin> set s"
  shows "read_logins 1 (payload s) = ([(u, p)], payload s2)" "RxFail EOTHER \<notin> set s2"
proof -
  let ?v = "\<lparr>rx = s, plan = [], txed = [], ops = []\<rparr>"
  from assms(1) obtain t1 w1 t2 w2 where t1: "recv_train zero_train ?v = (Inr t1, w1)"
    and t2: "recv_train zero_train w1 = (Inr t2, w2)" and up: "u = train_text t1" "p = train_text t2" "s2 = rx w2"
    by (auto simp: credentials_def received_login_def bnd_Inr_iff ret_def split: prod.splits)
  from recv_train_steady [OF t1] assms(2) have 1: "read_frame (payload s) = (u, payload (rx w1))" "RxFail EOTHER \<notin> set (rx w1)"
    by (simp_all add: up)
  from recv_train_steady [OF t2 1(2)] 1 show "read_logins 1 (payload s) = ([(u, p)], payload s2)" "RxFail EOTHER \<notin> set s2"
    by (simp_all add: up)
qed

lemma received_logins_read:
  "received_logins n s = Some (cs, t) \<Longrightarrow> RxFail EOTHER \<notin> set s \<Longrightarrow> read_logins n (payload s) = (cs, payload t)"
proof (induction n arbitrary: s cs)
  case (Suc n)
  from Suc.prems(1) obtain u p t1 cs1 where c: "credentials s = (Inr (u, p), t1)"
    and n: "received_logins n t1 = Some (cs1, t)" "cs = (u, p) # cs1"
    by (auto split: prod.splits sum.splits)
  from credentials_read [OF c Suc.prems(2)] Suc.IH [OF n(1)] n(2) show ?case by (auto split: prod.splits)
qed simp

text \<open>The copy of a frame into a local array keeps its text.\<close>

lemma cstr_upto: "cstr (s @ NUL # r) = Some (takeWhile (\<lambda>c. c \<noteq> NUL) s)"
  by (induction s) (auto simp: cstr_def split: if_splits)

lemma copy_train_text:
  assumes "copy_train n t w = (Inr a, w')" "cstr a = Some u"
  shows "u = train_text t" "w' = w"
proof -
  from assms(1) obtain m where m: "memcpy (replicate n NUL) (t_data t) (t_length t) = Some m"
    "poke (sint (t_length t)) [NUL] m = Some a" and w: "w' = w"
    by (auto simp: copy_train_def run_iffs)
  let ?k = "nat (sint (t_length t))"
  from m(2) have k: "0 \<le> sint (t_length t)" "?k < length m" "a = take ?k m @ NUL # drop (Suc ?k) m"
    by (auto simp: poke_def split: if_splits)
  then have "size_t_of (t_length t) = int ?k" by (simp add: size_t_of_def)
  moreover have "?k < n" using k(2) memcpy_length [OF m(1)] by simp
  moreover have "?k \<le> length (t_data t)"
    using m(1) calculation(1) by (simp add: memcpy_def split: if_splits)
  ultimately have "m = take ?k (t_data t) @ drop ?k (replicate n NUL)" "?k \<le> length (t_data t)"
    using m(1) memcpy_at [of "t_length t" ?k "t_data t" "replicate n NUL"] by simp_all
  then have "take ?k m = take ?k (t_data t)" by simp
  with k(3) have "cstr a = Some (takeWhile (\<lambda>c. c \<noteq> NUL) (take ?k (t_data t)))"
    by (simp only: cstr_upto)
  with assms(2) show "u = train_text t" by (simp add: train_text_def)
  show "w' = w" by (rule w)
qed

section \<open>Copying a frame\<close>

text \<open>The copy into an array of \<open>n\<close> bytes works for fewer than \<open>n\<close> bytes and for no others.\<close>

lemma copy_train_fits:
  assumes "t = \<lparr>t_length = of_nat (length s), t_data = s @ r\<rparr>" "length s < n" "int n \<le> INT_MAX"
  shows "copy_train n t w = (Inr (s @ NUL # replicate (n - length s - 1) NUL), w)"
proof -
  have small: "int (length s) \<le> INT_MAX" using assms(2,3) by simp
  have "memcpy (replicate n NUL) (s @ r) (of_nat (length s)) = Some (s @ replicate (n - length s) NUL)"
    using memcpy_at [OF size_t_of_nat_small [OF small], of "s @ r" "replicate n NUL"] assms(2)
    by simp
  moreover have "poke (int (length s)) [NUL] (s @ replicate (n - length s) NUL)
      = Some (s @ NUL # replicate (n - length s - 1) NUL)"
    using assms(2) by (simp add: poke_def)
  ultimately show ?thesis
    by (simp add: copy_train_def assms(1) run sint_of_nat_small [OF small])
qed

lemma copy_train_overflow:
  assumes "t = \<lparr>t_length = of_nat (length s), t_data = s @ r\<rparr>" "n \<le> length s"
    "int (length s) \<le> INT_MAX"
  shows "copy_train n t w = (Inl OutOfBounds, w)"
proof (cases "n = length s")
  case True
  have "memcpy (replicate n NUL) (s @ r) (of_nat (length s)) = Some s"
    using memcpy_at [OF size_t_of_nat_small [OF assms(3)], of "s @ r" "replicate n NUL"] True
    by simp
  then show ?thesis
    using True by (simp add: copy_train_def assms(1) run sint_of_nat_small [OF assms(3)] poke_def)
next
  case False
  with assms(2) have "memcpy (replicate n NUL) (s @ r) (of_nat (length s)) = None"
    by (intro memcpy_out_dst) (simp add: size_t_of_nat_small [OF assms(3)])
  then show ?thesis by (simp add: copy_train_def assms(1) run)
qed

section \<open>The directory of the session\<close>

definition login_path :: "string \<Rightarrow> string \<Rightarrow> string" where
  "login_path cur u = (if cur = [] \<or> last cur \<noteq> CHR ''/'' then cur @ ''/'' @ u else cur @ u)"

lemma append_user_ok:
  assumes "path_ok arr cur" "length cur + 1 + length u < MAX_PATH_LEN" "no_nul u"
  shows "\<exists>arr'. append_user arr cur u = Some arr' \<and> path_ok arr' (login_path cur u)"
proof -
  from assms(1) obtain t where t: "arr = cur @ NUL # t" and "no_nul cur"
    and len: "length cur + length t = 1023"
    by (auto simp: path_ok_def cstr_Some_iff)
  have fits: "take (MAX_PATH_LEN - (length cur + 1) - 1) u = u"
    "take (MAX_PATH_LEN - length cur - 1) u = u" using assms(2) by simp_all
  show ?thesis
  proof (cases "cur = [] \<or> last cur \<noteq> CHR ''/''")
    case True
    from assms(2) len obtain x t1 where t1: "t = x # t1" by (cases t) auto
    have "poke (int (length cur)) ''/'' arr = Some (cur @ ''/'' @ t)"
      by (simp add: poke_def t)
    moreover have "poke (int (length cur) + 1) [NUL] (cur @ ''/'' @ t) = Some (cur @ ''/'' @ NUL # t1)"
      by (simp add: poke_def t1)
    moreover have "poke (int (length cur) + 1) (u @ [NUL]) (cur @ ''/'' @ NUL # t1)
        = Some ((cur @ ''/'' @ u) @ NUL # drop (length u) t1)"
      using assms(2) len t1 by (simp add: poke_def)
    ultimately have "append_user arr cur u = Some ((cur @ ''/'' @ u) @ NUL # drop (length u) t1)"
      using True fits by (simp add: append_user_def)
    moreover have "path_ok ((cur @ ''/'' @ u) @ NUL # drop (length u) t1) (cur @ ''/'' @ u)"
      using assms(2,3) len t1 \<open>no_nul cur\<close> cstr_terminated [of "cur @ ''/'' @ u" "drop (length u) t1"]
      by (simp add: path_ok_def)
    ultimately show ?thesis using True by (simp add: login_path_def)
  next
    case False
    have "append_user arr cur u = Some ((cur @ u) @ NUL # drop (length u) t)"
      using False fits assms(2) len by (simp add: append_user_def poke_def t)
    moreover have "path_ok ((cur @ u) @ NUL # drop (length u) t) (cur @ u)"
      using assms(2,3) len \<open>no_nul cur\<close> cstr_terminated [of "cur @ u" "drop (length u) t"]
      by (simp add: path_ok_def)
    ultimately show ?thesis using False by (auto simp: login_path_def)
  qed
qed

section \<open>One attempt\<close>

lemma UserAuthen_frames:
  assumes "payload (rx w) = frame u @ frame p @ rest"
    "no_nul u" "no_nul p" "length u < 64" "length p < 128"
  obtains s' where "UserAuthen shadow w = decide_login shadow u p (w\<lparr>rx := s'\<rparr>)"
    "payload s' = rest" "ending s' = ending (rx w)"
proof -
  let ?t = "\<lambda>s. \<lparr>t_length = of_nat (length s), t_data = s @ drop (length s) (t_data zero_train)\<rparr>"
  have len: "length u \<le> length (t_data zero_train)" "length p \<le> length (t_data zero_train)"
    "int (length u) \<le> INT_MAX" "int (length p) \<le> INT_MAX"
    using assms(4,5) by (simp_all add: INT_MAX_def)
  obtain s1 where s1: "recv_train zero_train w = (Inr (?t u), w\<lparr>rx := s1\<rparr>)"
    "payload s1 = frame p @ rest" "ending s1 = ending (rx w)"
    by (rule recv_train_frame [OF assms(1) len(1,3)])
  then have pay1: "payload (rx (w\<lparr>rx := s1\<rparr>)) = frame p @ rest" by simp
  obtain s2 where s2: "recv_train zero_train (w\<lparr>rx := s1\<rparr>) = (Inr (?t p), w\<lparr>rx := s2\<rparr>)"
    "payload s2 = rest" "ending s2 = ending s1"
    by (rule recv_train_frame [OF pay1 len(2,4)]) simp
  have cu: "copy_train 64 (?t u) v = (Inr (u @ NUL # replicate (64 - length u - 1) NUL), v)"
    and cp: "copy_train 128 (?t p) v = (Inr (p @ NUL # replicate (128 - length p - 1) NUL), v)"
    for v :: "'a server_scheme"
    by (rule copy_train_fits [OF refl]; use assms(4,5) in \<open>simp add: INT_MAX_def\<close>)+
  have "UserAuthen shadow w = decide_login shadow u p (w\<lparr>rx := s2\<rparr>)"
    using assms(2,3)
    by (simp add: UserAuthen_def bnd_def s1(1) s2(1) cu cp cstr_terminated run)
  with s1 s2 that show ?thesis by simp
qed

text \<open>A username frame of 64 bytes or more runs over the local array.\<close>

lemma UserAuthen_overflow:
  assumes "payload (rx w) = frame u @ rest" "64 \<le> length u" "length u \<le> DATA_SIZE"
  shows "fst (UserAuthen shadow w) = Inl OutOfBounds"
proof -
  let ?t = "\<lparr>t_length = of_nat (length u), t_data = u @ drop (length u) (t_data zero_train)\<rparr>"
  have len: "length u \<le> length (t_data zero_train)" "int (length u) \<le> INT_MAX"
    using assms(3) by (simp_all add: INT_MAX_def)
  obtain s1 where s1: "recv_train zero_train w = (Inr ?t, w\<lparr>rx := s1\<rparr>)"
    by (rule recv_train_frame [OF assms(1) len])
  have "copy_train 64 ?t v = (Inl OutOfBounds, v)" for v :: "'a server_scheme"
    by (rule copy_train_overflow [OF refl assms(2) len(2)])
  then show ?thesis
    by (simp add: UserAuthen_def bnd_def s1)
qed

lemma send_reply_idle:
  "plan w = [] \<Longrightarrow>
   send_reply msg r w = (Inr r, w\<lparr>plan := [], txed := txed w @ frame msg\<rparr>)"
  by (simp add: send_reply_def bnd_def send1_def run)

lemma decide_login_match:
  assumes "shadow u = Some p" "path_ok (clientPath w) cur" "no_nul u"
    "length cur + 1 + length u < MAX_PATH_LEN" "plan w = []"
  obtains arr where "decide_login shadow u p w = (Inr 0,
      w\<lparr>plan := [], txed := txed w @ frame ''AUTH_RESULT_OK'', clientPath := arr\<rparr>)"
    "path_ok arr (login_path cur u)"
proof -
  from append_user_ok [OF assms(2,4,3)] obtain arr
    where arr: "append_user (clientPath w) cur u = Some arr" "path_ok arr (login_path cur u)" by blast
  have "send_reply ''AUTH_RESULT_OK'' 0 (w\<lparr>clientPath := arr\<rparr>) = (Inr 0,
      w\<lparr>clientPath := arr, plan := [], txed := txed w @ frame ''AUTH_RESULT_OK''\<rparr>)"
    using send_reply_idle [of "w\<lparr>clientPath := arr\<rparr>"] assms(5) by simp
  with arr assms show ?thesis
    by (intro that [of arr]) (simp_all add: decide_login_def authenticateUser_def path_ok_def run)
qed

lemma decide_login_mismatch:
  assumes "shadow u \<noteq> Some p" "plan w = []"
  shows "decide_login shadow u p w = (Inr (if shadow u = None then 1 else -1),
      w\<lparr>plan := [], txed := txed w @ frame ''AUTH_FAIL''\<rparr>)"
  using assms by (auto simp: decide_login_def authenticateUser_def send_reply_idle split: option.splits)

lemma send_reply_clientPath:
  "send_reply msg r w = (res, w') \<Longrightarrow> clientPath w' = clientPath w"
  by (auto simp: send_reply_def bnd_def send1_def run split: prod.splits sum.splits tx_result.splits)

text \<open>What an attempt does to \<open>clientPath\<close>: it grows by the user's name exactly where the password is
  the entry's and the name fits, also when the reply cannot be sent, and the attempt is then no success.\<close>

lemma decide_login_refuses:
  assumes "decide_login shadow u p w = (Inr r, w')" "shadow u \<noteq> Some p"
  shows "clientPath w' = clientPath w \<and> r \<noteq> 0"
proof -
  let ?k = "authenticateUser shadow (Some u) (Some p)"
  have k: "?k = 1 \<or> ?k = -1"
    using assms(2) by (auto simp: authenticateUser_def split: option.splits)
  with assms(1) have s: "send_reply ''AUTH_FAIL'' ?k w = (Inr r, w')"
    by (auto simp: decide_login_def)
  then have "r = -2 \<or> r = ?k" by (auto simp: send_reply_def run_iffs run split: if_splits)
  with k send_reply_clientPath [OF s] show ?thesis by auto
qed

lemma decide_login_admits:
  assumes "decide_login shadow u p w = (Inr r, w')" "shadow u = Some p"
  obtains cur where "cstr (clientPath w) = Some cur" "r \<noteq> -1" "r \<noteq> 1"
    "if length cur + 1 + length u < MAX_PATH_LEN then append_user (clientPath w) cur u = Some (clientPath w')
     else clientPath w' = clientPath w \<and> r \<noteq> 0"
proof -
  have "authenticateUser shadow (Some u) (Some p) = 0"
    using assms(2) by (simp add: authenticateUser_def)
  with assms(1) obtain cur where cur: "cstr (clientPath w) = Some cur"
    and rest: "(if MAX_PATH_LEN \<le> length cur + 1 + length u then ret AUTH_RESULT_IO_ERROR
        else bnd (in_bounds (append_user (clientPath w) cur u)) (\<lambda>arr'.
          next_do (update (\<lambda>w. w\<lparr>clientPath := arr'\<rparr>)) (send_reply ''AUTH_RESULT_OK'' 0))) w = (Inr r, w')"
    by (auto simp: decide_login_def run_iffs run)
  show ?thesis
  proof (cases "MAX_PATH_LEN \<le> length cur + 1 + length u")
    case True
    with rest cur that show ?thesis by (simp add: run)
  next
    case False
    with rest obtain arr where arr: "append_user (clientPath w) cur u = Some arr"
      "send_reply ''AUTH_RESULT_OK'' 0 (w\<lparr>clientPath := arr\<rparr>) = (Inr r, w')"
      by (auto simp: run_iffs run)
    from arr(2) have "r \<noteq> -1" "r \<noteq> 1" by (auto simp: send_reply_def run_iffs run split: if_splits)
    with False cur arr send_reply_clientPath [OF arr(2)] that show ?thesis by simp
  qed
qed

lemma send_reply_rx: "send_reply msg r w = (res, w') \<Longrightarrow> rx w' = rx w"
  by (auto simp: send_reply_def bnd_def send1_def run split: prod.splits sum.splits tx_result.splits)

lemma decide_login_rx: "decide_login shadow u p w = (Inr r, w') \<Longrightarrow> rx w' = rx w"
  by (auto simp: decide_login_def Let_def run_iffs run split: if_splits dest: send_reply_rx)

lemma copy_train_state: "copy_train n t w = (res, w') \<Longrightarrow> w' = w"
  by (auto simp: copy_train_def bnd_def in_bounds_def run split: prod.splits sum.splits option.splits)

text \<open>An attempt is the two frames it receives and the decision about their texts.\<close>

lemma UserAuthen_steps:
  assumes "UserAuthen shadow w = (Inr r, w')"
  obtains u p s where "credentials (rx w) = (Inr (u, p), s)" "no_nul u"
    "decide_login shadow u p (w\<lparr>rx := s\<rparr>) = (Inr r, w')"
proof -
  from assms obtain t1 w1 a1 w2 t2 w3 a2 w4 u p where
    t1: "recv_train zero_train w = (Inr t1, w1)" and c1: "copy_train 64 t1 w1 = (Inr a1, w2)"
    and t2: "recv_train zero_train w2 = (Inr t2, w3)" and c2: "copy_train 128 t2 w3 = (Inr a2, w4)"
    and u: "cstr a1 = Some u" and p: "cstr a2 = Some p" and d: "decide_login shadow u p w4 = (Inr r, w')"
    unfolding UserAuthen_def run_iffs by blast
  note same = copy_train_text [OF c1 u] copy_train_text [OF c2 p]
  from received_login_socket [OF t1 t2 [unfolded same(2)]] d u same
  show ?thesis by (intro that [of u p "rx w3"]) (auto dest: cstr_no_nul)
qed

text \<open>How an attempt ends.\<close>

lemma UserAuthen_outcome:
  assumes "UserAuthen shadow w = (Inr r, w')"
  obtains u p where "credentials (rx w) = (Inr (u, p), rx w')" "no_nul u"
    "shadow u \<noteq> Some p" "clientPath w' = clientPath w" "r \<noteq> 0"
  | u p cur where "credentials (rx w) = (Inr (u, p), rx w')" "no_nul u"
    "shadow u = Some p" "cstr (clientPath w) = Some cur" "r \<noteq> -1" "r \<noteq> 1"
    "if length cur + 1 + length u < MAX_PATH_LEN then append_user (clientPath w) cur u = Some (clientPath w')
     else clientPath w' = clientPath w \<and> r \<noteq> 0"
proof -
  from UserAuthen_steps [OF assms] obtain u p s where c: "credentials (rx w) = (Inr (u, p), s)" "no_nul u"
    and d: "decide_login shadow u p (w\<lparr>rx := s\<rparr>) = (Inr r, w')" .
  have s: "s = rx w'" using decide_login_rx [OF d] by simp
  show ?thesis
  proof (cases "shadow u = Some p")
    case True
    have "clientPath (w\<lparr>rx := s\<rparr>) = clientPath w" by simp
    from decide_login_admits [OF d True, unfolded this] obtain cur where "cstr (clientPath w) = Some cur" "r \<noteq> -1" "r \<noteq> 1"
      "if length cur + 1 + length u < MAX_PATH_LEN then append_user (clientPath w) cur u = Some (clientPath w')
       else clientPath w' = clientPath w \<and> r \<noteq> 0" .
    with that(2) [OF c(1) [unfolded s] c(2) True] show ?thesis by blast
  next
    case False
    with decide_login_refuses [OF d] c that(1) [of u p] show ?thesis unfolding s by simp
  qed
qed

section \<open>The login loop\<close>

text \<open>One round of the loop.\<close>

abbreviation authen_round ::
  "((string \<Rightarrow> string option) \<Rightarrow> server \<Rightarrow> ((stop + int) \<times> server) option) \<Rightarrow>
   (string \<Rightarrow> string option) \<Rightarrow> server \<Rightarrow> ((stop + int) \<times> server) option"
where
  "authen_round f shadow w \<equiv>
     (let res = UserAuthen shadow w in
      if fst res = Inr AUTH_RESULT_OK then Some (Inr 0, snd res)
      else if fst res = Inr AUTH_RESULT_FAIL then f shadow (snd res)
      else if fst res = Inr AUTH_RESULT_USER_QUERY_FAIL then f shadow (snd res)
      else (case fst res of Inl e \<Rightarrow> Some (Inl e, snd res) | Inr _ \<Rightarrow> Some (Inr (-1), snd res)))"

lemma authen_round_cases:
  assumes "authen_round f shadow w = Some r"
  obtains w' where "UserAuthen shadow w = (Inr 0, w')" "r = (Inr 0, w')"
  | w' k where "UserAuthen shadow w = (Inr k, w')" "k = -1 \<or> k = 1" "f shadow w' = Some r"
  | "fst r \<noteq> Inr 0"
proof -
  obtain t w' where tw: "UserAuthen shadow w = (t, w')" by (cases "UserAuthen shadow w")
  show ?thesis
  proof (cases t)
    case (Inl e)
    with assms tw that(3) show ?thesis by auto
  next
    case (Inr k)
    with assms tw that show ?thesis by (cases "k = 0 \<or> k = -1 \<or> k = 1") (auto simp: Let_def)
  qed
qed

text \<open>A login that succeeds: some attempts that match no entry, then one that does.\<close>

definition logs_in :: "(string \<Rightarrow> string option) \<Rightarrow> server \<Rightarrow> server \<Rightarrow> (string \<times> string) list \<Rightarrow> string \<Rightarrow> string \<Rightarrow> bool"
where
  "logs_in shadow w w' bad u p \<longleftrightarrow>
     received_logins (Suc (length bad)) (rx w) = Some (bad @ [(u, p)], rx w') \<and>
     list_all (\<lambda>(v, q). shadow v \<noteq> Some q) bad \<and> shadow u = Some p \<and>
     (\<exists>cur. cstr (clientPath w) = Some cur \<and> append_user (clientPath w) cur u = Some (clientPath w'))"

lemma logs_in_first: "UserAuthen shadow w = (Inr 0, w') \<Longrightarrow> \<exists>u p. logs_in shadow w w' [] u p"
  by (erule UserAuthen_outcome) (auto simp: logs_in_def split: if_splits)

lemma logs_in_later:
  assumes "UserAuthen shadow w = (Inr k, v)" "k = -1 \<or> k = 1" "logs_in shadow v w' bad u p"
  shows "\<exists>c. logs_in shadow w w' (c # bad) u p"
  using assms(1)
proof (cases rule: UserAuthen_outcome)
  case (1 v' q)
  with assms(3) show ?thesis by (intro exI [of _ "(v', q)"]) (auto simp: logs_in_def)
qed (use assms(2) in auto)

lemma handle_authen_sound:
  assumes "handle_authen_event shadow w = Some (Inr 0, w')"
  shows "\<exists>bad u p. logs_in shadow w w' bad u p"
proof -
  have "r = (Inr 0, w') \<longrightarrow> (\<exists>bad u p. logs_in shadow w w' bad u p)"
    if "handle_authen_event shadow w = Some r" for r
  proof (rule handle_authen_event.raw_induct [where P = "\<lambda>sh w r. r = (Inr 0, w') \<longrightarrow>
        (\<exists>bad u p. logs_in sh w w' bad u p)", OF _ that])
    fix f :: "(string \<Rightarrow> string option) \<Rightarrow> server \<Rightarrow> ((stop + int) \<times> server) option"
      and sh w and r :: "(stop + int) \<times> server"
    assume IH: "\<And>sh w r. f sh w = Some r \<Longrightarrow> r = (Inr 0, w') \<longrightarrow> (\<exists>bad u p. logs_in sh w w' bad u p)"
      and eq: "authen_round f sh w = Some r"
    from eq show "r = (Inr 0, w') \<longrightarrow> (\<exists>bad u p. logs_in sh w w' bad u p)"
    proof (cases rule: authen_round_cases)
      case (1 v)
      with logs_in_first [of sh w v] show ?thesis by blast
    next
      case (2 v k)
      with IH [OF 2(3)] logs_in_later [OF 2(1,2)] show ?thesis by blast
    qed auto
  qed
  with assms show ?thesis by blast
qed

text \<open>On a closed connection both frames read as empty, and the answer goes out.\<close>

lemma UserAuthen_closed:
  assumes "rx w = [RxEof]" "shadow [] = None"
  shows "UserAuthen shadow w = send_reply ''AUTH_FAIL'' 1 w"
proof -
  have "recvn_loop [RxEof] buf 0 4 = (Inr (0, buf), [RxEof])"
    "recvn_loop [RxEof] buf 0 0 = (Inr (0, buf), [RxEof])" for buf
    by (simp_all add: recvn_loop.simps int_of_long_def)
  moreover have "w\<lparr>rx := [RxEof]\<rparr> = w" using assms(1) by (cases w) simp
  ultimately have rt: "recv_train zero_train w = (Inr zero_train, w)"
    using assms(1) int_image.dec_enc [of 0]
    by (simp add: recv_train_def bnd_def recvn_def zero_train_def run)
  have t: "zero_train = \<lparr>t_length = of_nat (length []), t_data = [] @ replicate DATA_SIZE NUL\<rparr>"
    by (simp add: zero_train_def)
  have "copy_train 64 zero_train w = (Inr (NUL # replicate 63 NUL), w)"
    "copy_train 128 zero_train w = (Inr (NUL # replicate 127 NUL), w)"
    using copy_train_fits [OF t, of 64 w] copy_train_fits [OF t, of 128 w]
    by (simp_all add: INT_MAX_def)
  moreover have "cstr (NUL # r) = Some []" for r
    using cstr_terminated [of "[]" r] by simp
  ultimately show ?thesis
    using assms(2) by (simp add: UserAuthen_def bnd_def rt run decide_login_def authenticateUser_def)
qed

lemma handle_authen_closed_round:
  assumes "rx w = [RxEof]" "shadow [] = None"
    "send_reply ''AUTH_FAIL'' 1 w = (Inr 1, w')"
  shows "handle_authen_event shadow w = handle_authen_event shadow w'"
  using assms by (subst handle_authen_event.simps) (simp add: UserAuthen_closed)

lemma handle_authen_closed_end:
  assumes "rx w = [RxEof]" "shadow [] = None"
    "send_reply ''AUTH_FAIL'' 1 w = (Inr (-2), w')"
  shows "handle_authen_event shadow w = Some (Inr (-1), w')"
  using assms by (subst handle_authen_event.simps) (simp add: UserAuthen_closed)

lemma length_auth_fail: "length (frame ''AUTH_FAIL'') = 13"
  by simp

lemma send_reply_takes:
  "plan w = TxTake k # ps \<Longrightarrow> length (frame msg) \<le> k \<Longrightarrow>
   send_reply msg r w = (Inr r, w\<lparr>plan := ps, txed := txed w @ frame msg\<rparr>)"
  by (simp add: send_reply_def bnd_def send1_def run min_def)

lemma send_reply_fails:
  "plan w = TxFail e # ps \<Longrightarrow> send_reply msg r w = (Inr (-2), w\<lparr>plan := ps\<rparr>)"
  by (simp add: send_reply_def bnd_def send1_def run)

lemma handle_authen_closed_run:
  assumes "rx w = [RxEof]" "shadow [] = None" "list_all (\<lambda>k. 13 \<le> k) ks"
    "plan w = map TxTake ks @ TxFail e # ps"
  shows "\<exists>w'. handle_authen_event shadow w = Some (Inr (-1), w') \<and>
    txed w' = txed w @ concat (replicate (length ks) (frame ''AUTH_FAIL''))"
  using assms
proof (induction ks arbitrary: w)
  case Nil
  then have "send_reply ''AUTH_FAIL'' 1 w = (Inr (-2), w\<lparr>plan := ps\<rparr>)"
    by (intro send_reply_fails) simp
  with Nil show ?case by (simp add: handle_authen_closed_end)
next
  case (Cons k ks)
  let ?w = "w\<lparr>plan := map TxTake ks @ TxFail e # ps, txed := txed w @ frame ''AUTH_FAIL''\<rparr>"
  from Cons.prems have "send_reply ''AUTH_FAIL'' 1 w = (Inr 1, ?w)"
    using send_reply_takes [of w k "map TxTake ks @ TxFail e # ps" "''AUTH_FAIL''"] by simp
  with Cons.prems have "handle_authen_event shadow w = handle_authen_event shadow ?w"
    by (intro handle_authen_closed_round)
  with Cons.IH [of ?w] Cons.prems show ?case by simp
qed

text \<open>Where every \<open>send\<close> succeeds, as after a half-close by the client, the loop never ends.\<close>

lemma handle_authen_spins_raw:
  assumes "handle_authen_event shadow w = Some r"
  shows "\<not> (rx w = [RxEof] \<and> plan w = [] \<and> shadow [] = None)"
proof (rule handle_authen_event.raw_induct [where
      P = "\<lambda>sh w r. \<not> (rx w = [RxEof] \<and> plan w = [] \<and> sh [] = None)", OF _ assms])
  fix f :: "(string \<Rightarrow> string option) \<Rightarrow> server \<Rightarrow> ((stop + int) \<times> server) option"
    and sh w and r :: "(stop + int) \<times> server"
  assume IH: "\<And>sh w r. f sh w = Some r \<Longrightarrow> \<not> (rx w = [RxEof] \<and> plan w = [] \<and> sh [] = None)"
    and eq: "authen_round f sh w = Some r"
  show "\<not> (rx w = [RxEof] \<and> plan w = [] \<and> sh [] = None)"
  proof
    assume h: "rx w = [RxEof] \<and> plan w = [] \<and> sh [] = None"
    let ?w = "w\<lparr>plan := [], txed := txed w @ frame ''AUTH_FAIL''\<rparr>"
    from h have "UserAuthen sh w = (Inr 1, ?w)"
      by (simp add: UserAuthen_closed send_reply_idle)
    with eq have "f sh ?w = Some r" by simp
    from IH [OF this] h show False by simp
  qed
qed

section \<open>The client's attempt\<close>

lemma send_string_ok:
  assumes "length s \<le> DATA_SIZE" "flowing (plan w)"
  obtains p' where
    "send_string s w = (Inr (4 + int (length s)), w\<lparr>plan := p', txed := txed w @ frame s\<rparr>)" "flowing p'"
    "plan w = [] \<longrightarrow> p' = []"
proof -
  have small: "int (length s) \<le> INT_MAX" using assms(1) by (simp add: INT_MAX_def)
  have mem: "memcpy (replicate DATA_SIZE NUL) (s @ [NUL]) (of_nat (length s))
      = Some (s @ replicate (DATA_SIZE - length s) NUL)"
    using memcpy_at [OF size_t_of_nat_small [OF small], of "s @ [NUL]" "replicate DATA_SIZE NUL"] assms(1)
    by simp
  have take: "take (4 + length s) (le32 (of_nat (length s)) @ s @ replicate (DATA_SIZE - length s) NUL)
      = frame s" by (simp add: frame_def)
  have "int (length (frame s)) \<le> INT_MAX" using assms(1) by (simp add: INT_MAX_def)
  from sendn_flowing [OF assms(2) this] obtain p' where
    "sendn (frame s) w = (Inr (int (length (frame s))), w\<lparr>plan := p', txed := txed w @ frame s\<rparr>)"
    "flowing p'" "plan w = [] \<longrightarrow> p' = []" .
  moreover have "send_string s w = sendn (frame s) w"
    by (simp only: send_string_def mem bnd_simps client_sendn_sendn take)
  ultimately show ?thesis using that by simp
qed

lemma sendPassword_ok:
  assumes "length u \<le> DATA_SIZE" "length h \<le> DATA_SIZE" "flowing (plan w)"
  obtains p' where "sendPassword (Some u) (Some h) w
    = (Inr 0, w\<lparr>plan := p', txed := txed w @ frame u @ frame h\<rparr>)" "flowing p'"
    "plan w = [] \<longrightarrow> p' = []"
proof -
  obtain p1 where p1: "send_string u w
      = (Inr (4 + int (length u)), w\<lparr>plan := p1, txed := txed w @ frame u\<rparr>)" "flowing p1"
    "plan w = [] \<longrightarrow> p1 = []"
    by (rule send_string_ok [OF assms(1,3)])
  then have "flowing (plan (w\<lparr>plan := p1, txed := txed w @ frame u\<rparr>))" by simp
  then obtain p2 where "send_string h (w\<lparr>plan := p1, txed := txed w @ frame u\<rparr>)
      = (Inr (4 + int (length h)), w\<lparr>plan := p2, txed := (txed w @ frame u) @ frame h\<rparr>)" "flowing p2"
    "p1 = [] \<longrightarrow> p2 = []"
    by (rule send_string_ok [OF assms(2)]) simp
  with p1 that show ?thesis
    by (simp add: sendPassword_def bnd_def run)
qed

text \<open>The client's part after the credentials are sent.\<close>

abbreviation auth_answer :: "train \<Rightarrow> ('z client_scheme, int) prog" where
  "auth_answer junk \<equiv>
     bnd (client_recv_train junk) (\<lambda>t. bnd (copy_train 64 t) (\<lambda>arr. bnd (in_bounds (cstr arr)) (\<lambda>auth_response.
     if auth_response = ''AUTH_RESULT_OK'' then
       next_do (update (\<lambda>w. w\<lparr>g_clientState := (g_clientState w)\<lparr>is_connected := 1\<rparr>\<rparr>)) (ret 0)
     else ret (-1))))"

lemma handle_authentication_sends:
  assumes "crypt pw salt = Some h" "length u \<le> DATA_SIZE" "length h \<le> DATA_SIZE" "flowing (plan w)"
  obtains p' where "handle_authentication crypt junk (Some u) (Some pw) w
    = auth_answer junk (w\<lparr>plan := p', txed := txed w @ frame u @ frame h\<rparr>)"
    "plan w = [] \<longrightarrow> p' = []"
proof -
  obtain p' where "sendPassword (Some u) (Some h) w
      = (Inr 0, w\<lparr>plan := p', txed := txed w @ frame u @ frame h\<rparr>)" and p: "plan w = [] \<longrightarrow> p' = []"
    by (rule sendPassword_ok [OF assms(2-4)])
  then have "handlePassword crypt (Some u) (Some pw) w
      = (Inr 0, w\<lparr>plan := p', txed := txed w @ frame u @ frame h\<rparr>)"
    using assms(1) by (simp add: handlePassword_def encryptPassword_def bnd_def run)
  with that p show ?thesis by (simp add: handle_authentication_def bnd_run)
qed

lemma client_recv_train_txed: "client_recv_train t w = (res, w') \<Longrightarrow> txed w' = txed w"
  by (auto simp: client_recv_train_def bnd_def client_recvn_def run split: prod.splits sum.splits)

lemma handle_authentication_txed:
  assumes "crypt pw salt = Some h" "length u \<le> DATA_SIZE" "length h \<le> DATA_SIZE" "flowing (plan w)"
  shows "txed (snd (handle_authentication crypt junk (Some u) (Some pw) w))
    = txed w @ frame u @ frame h"
proof -
  obtain p' where "handle_authentication crypt junk (Some u) (Some pw) w
    = auth_answer junk (w\<lparr>plan := p', txed := txed w @ frame u @ frame h\<rparr>)"
    by (rule handle_authentication_sends [where crypt = crypt and pw = pw and h = h and u = u
          and w = w and junk = junk]) (use assms in auto)
  then show ?thesis
    by (auto simp: bnd_def next_do_def in_bounds_def run split: prod.splits sum.splits option.splits
        dest!: client_recv_train_txed copy_train_state)
qed

lemma handle_authentication_reply:
  assumes "crypt pw salt = Some h" "length u \<le> DATA_SIZE" "length h \<le> DATA_SIZE" "flowing (plan w)"
    "payload (rx w) = frame msg @ rest" "failfree (rx w)" "length msg < 64" "no_nul msg"
    "length (t_data junk) = DATA_SIZE"
  obtains w' where "handle_authentication crypt junk (Some u) (Some pw) w
      = (Inr (if msg = ''AUTH_RESULT_OK'' then 0 else -1), w')"
    "g_clientState w' = (if msg = ''AUTH_RESULT_OK'' then (g_clientState w)\<lparr>is_connected := 1\<rparr>
       else g_clientState w)" "payload (rx w') = rest" "failfree (rx w')" "plan w = [] \<longrightarrow> plan w' = []"
    "txed w' = txed w @ frame u @ frame h" "ops w' = ops w"
proof -
  obtain p' where eq: "handle_authentication crypt junk (Some u) (Some pw) w
    = auth_answer junk (w\<lparr>plan := p', txed := txed w @ frame u @ frame h\<rparr>)" and p: "plan w = [] \<longrightarrow> p' = []"
    by (rule handle_authentication_sends [where crypt = crypt and pw = pw and h = h and u = u
          and w = w and junk = junk]) (use assms in auto)
  let ?w = "w\<lparr>plan := p', txed := txed w @ frame u @ frame h\<rparr>"
  let ?t = "\<lparr>t_length = of_nat (length msg), t_data = msg @ drop (length msg) (t_data junk)\<rparr>"
  have pre: "payload (rx ?w) = frame msg @ rest" "failfree (rx ?w)"
    "length msg \<le> length (t_data junk)" "int (length msg) \<le> INT_MAX"
    using assms(5-9) by (simp_all add: INT_MAX_def)
  obtain s' where s': "client_recv_train junk ?w = (Inr ?t, ?w\<lparr>rx := s'\<rparr>)" "payload s' = rest"
    "failfree s'"
    by (rule client_recv_train_frame [OF pre])
  have copy: "copy_train 64 ?t v = (Inr (msg @ NUL # replicate (64 - length msg - 1) NUL), v)"
    for v :: "'a client_scheme"
    by (rule copy_train_fits [OF refl assms(7)]) (simp add: INT_MAX_def)
  have "cstr (msg @ NUL # r) = Some msg" for r
    using assms(8) by (rule cstr_terminated)
  with eq s'(1) copy have "handle_authentication crypt junk (Some u) (Some pw) w
      = (if msg = ''AUTH_RESULT_OK'' then
           next_do (update (\<lambda>w. w\<lparr>g_clientState := (g_clientState w)\<lparr>is_connected := 1\<rparr>\<rparr>)) (ret 0)
         else ret (-1)) (?w\<lparr>rx := s'\<rparr>)"
    by (simp only: bnd_run bnd_simps(5))
  with s'(2,3) p that show ?thesis
    by (cases "msg = ''AUTH_RESULT_OK''"; simp add: run)
qed

lemma UserAuthen_accepts:
  assumes "payload (rx w) = frame u @ frame p @ rest" "no_nul u" "no_nul p" "length u < 64"
    "length p < 128" "shadow u = Some p" "path_ok (clientPath w) cur"
    "length cur + 1 + length u < MAX_PATH_LEN" "plan w = []"
  shows "\<exists>w'. UserAuthen shadow w = (Inr 0, w') \<and> payload (rx w') = rest \<and> plan w' = [] \<and>
    ending (rx w') = ending (rx w) \<and>
    txed w' = txed w @ frame ''AUTH_RESULT_OK'' \<and> path_ok (clientPath w') (login_path cur u)"
proof -
  obtain s' where s': "UserAuthen shadow w = decide_login shadow u p (w\<lparr>rx := s'\<rparr>)"
    "payload s' = rest" "ending s' = ending (rx w)" by (rule UserAuthen_frames [OF assms(1-5)])
  from assms(7,9) have "path_ok (clientPath (w\<lparr>rx := s'\<rparr>)) cur" "plan (w\<lparr>rx := s'\<rparr>) = []" by simp_all
  from decide_login_match [where w = "w\<lparr>rx := s'\<rparr>" and shadow = shadow and u = u and p = p,
      OF assms(6) this(1) assms(2,8) this(2)]
  obtain arr where "decide_login shadow u p (w\<lparr>rx := s'\<rparr>) = (Inr 0, w\<lparr>rx := s', plan := [],
      txed := txed w @ frame ''AUTH_RESULT_OK'', clientPath := arr\<rparr>)"
    "path_ok arr (login_path cur u)" by auto
  with s' show ?thesis by simp
qed

lemma UserAuthen_rejects:
  assumes "payload (rx w) = frame u @ frame p @ rest" "no_nul u" "no_nul p" "length u < 64"
    "length p < 128" "shadow u \<noteq> Some p" "plan w = []"
  shows "\<exists>w'. UserAuthen shadow w = (Inr (if shadow u = None then 1 else -1), w') \<and>
    payload (rx w') = rest \<and> plan w' = [] \<and>
    ending (rx w') = ending (rx w) \<and>
    txed w' = txed w @ frame ''AUTH_FAIL'' \<and> clientPath w' = clientPath w"
proof -
  obtain s' where s': "UserAuthen shadow w = decide_login shadow u p (w\<lparr>rx := s'\<rparr>)"
    "payload s' = rest" "ending s' = ending (rx w)" by (rule UserAuthen_frames [OF assms(1-5)])
  from assms(7) have "plan (w\<lparr>rx := s'\<rparr>) = []" by simp
  from decide_login_mismatch [where shadow = shadow and u = u and p = p, OF assms(6) this] s'
  show ?thesis by (simp only:) simp
qed

text \<open>A series of attempts: a user and a password each.\<close>

definition attempts :: "(string \<times> string) list \<Rightarrow> char list" where
  "attempts xs = concat (map (\<lambda>(u, p). frame u @ frame p) xs)"

definition sendable :: "string \<times> string \<Rightarrow> bool" where
  "sendable up \<longleftrightarrow> no_nul (fst up) \<and> no_nul (snd up) \<and> length (fst up) < 64 \<and> length (snd up) < 128"

lemma handle_authen_attempts:
  assumes "payload (rx w) = attempts bad @ frame u @ frame p @ rest"
    "list_all (\<lambda>(v, q). sendable (v, q) \<and> shadow v \<noteq> Some q) bad"
    "sendable (u, p)" "shadow u = Some p" "path_ok (clientPath w) cur"
    "length cur + 1 + length u < MAX_PATH_LEN" "plan w = []"
  shows "\<exists>w'. handle_authen_event shadow w = Some (Inr 0, w') \<and> payload (rx w') = rest \<and>
    txed w' = txed w @ concat (replicate (length bad) (frame ''AUTH_FAIL'')) @ frame ''AUTH_RESULT_OK'' \<and>
    path_ok (clientPath w') (login_path cur u) \<and> plan w' = [] \<and> ending (rx w') = ending (rx w)"
  using assms
proof (induction bad arbitrary: w)
  case Nil
  then have "\<exists>w'. UserAuthen shadow w = (Inr 0, w') \<and> payload (rx w') = rest \<and> plan w' = [] \<and>
    ending (rx w') = ending (rx w) \<and>
    txed w' = txed w @ frame ''AUTH_RESULT_OK'' \<and> path_ok (clientPath w') (login_path cur u)"
    by (intro UserAuthen_accepts [where u = u and p = p]) (simp_all add: attempts_def sendable_def)
  then show ?case by (subst handle_authen_event.simps) auto
next
  case (Cons vq bad)
  obtain v q where vq: "vq = (v, q)" by (cases vq)
  let ?r = "if shadow v = None then 1 else -1 :: int"
  from Cons.prems have "\<exists>w'. UserAuthen shadow w = (Inr ?r, w') \<and>
      payload (rx w') = attempts bad @ frame u @ frame p @ rest \<and> plan w' = [] \<and>
    ending (rx w') = ending (rx w) \<and>
      txed w' = txed w @ frame ''AUTH_FAIL'' \<and> clientPath w' = clientPath w"
    by (intro UserAuthen_rejects [where u = v and p = q]) (simp_all add: attempts_def sendable_def vq)
  then obtain w' where w': "UserAuthen shadow w = (Inr ?r, w')"
      "payload (rx w') = attempts bad @ frame u @ frame p @ rest" "plan w' = []"
      "ending (rx w') = ending (rx w)"
      "txed w' = txed w @ frame ''AUTH_FAIL''" "clientPath w' = clientPath w" by blast
  from w'(1) have "handle_authen_event shadow w = handle_authen_event shadow w'"
    by (subst handle_authen_event.simps) simp
  moreover from Cons.IH [OF w'(2) _ _ _ _ _ w'(3)] Cons.prems w'(6) obtain w2 where
    "handle_authen_event shadow w' = Some (Inr 0, w2)" "payload (rx w2) = rest"
    "txed w2 = txed w' @ concat (replicate (length bad) (frame ''AUTH_FAIL'')) @ frame ''AUTH_RESULT_OK''"
    "path_ok (clientPath w2) (login_path cur u)" "plan w2 = []" "ending (rx w2) = ending (rx w')" by auto
  ultimately show ?case using w'(4,5) by simp
qed

section \<open>Properties\<close>

text \<open>
  Logging in with matching credentials: whatever the segmentation of the two frames on the
  wire, the attempt returns \<open>AUTH_RESULT_OK\<close>, consumes exactly the two frames, answers with the
  frame of the text AUTH_RESULT_OK and extends \<open>clientPath\<close> by the user's name.
\<close>

lemma login_accepts:
  assumes "payload (rx w) = frame u @ frame p @ rest" "no_nul u" "no_nul p" "length u < 64"
    "length p < 128" "shadow u = Some p" "path_ok (clientPath w) cur"
    "length cur + 1 + length u < MAX_PATH_LEN" "plan w = []"
  shows "\<exists>w'. UserAuthen shadow w = (Inr 0, w') \<and> payload (rx w') = rest \<and>
    txed w' = txed w @ frame ''AUTH_RESULT_OK'' \<and> path_ok (clientPath w') (login_path cur u)"
  using UserAuthen_accepts [where w = w and shadow = shadow and u = u and p = p, OF assms] by blast

lemma login_accepts_example:
  "\<exists>w'. UserAuthen [''bob'' \<mapsto> ''h''] (server_with (frame ''bob'' @ frame ''h'' @ ''ls'') clientPath_start)
      = (Inr 0, w') \<and> payload (rx w') = ''ls'' \<and>
    txed w' = txed (server_with (frame ''bob'' @ frame ''h'' @ ''ls'') clientPath_start)
      @ frame ''AUTH_RESULT_OK'' \<and>
    path_ok (clientPath w') (login_path home_prefix ''bob'')"
  by (rule login_accepts [where p = "''h''"]) (simp_all add: clientPath_start_ok, simp add: home_prefix_def)

text \<open>
  Logging in with anything else: the attempt returns 1 for an unknown user and \<open>-1\<close> for a
  wrong password, answers AUTH_FAIL and leaves \<open>clientPath\<close> as it was.
\<close>

lemma login_rejects:
  assumes "payload (rx w) = frame u @ frame p @ rest" "no_nul u" "no_nul p" "length u < 64"
    "length p < 128" "shadow u \<noteq> Some p" "plan w = []"
  shows "\<exists>w'. UserAuthen shadow w = (Inr (if shadow u = None then 1 else -1), w') \<and>
    payload (rx w') = rest \<and> txed w' = txed w @ frame ''AUTH_FAIL'' \<and> clientPath w' = clientPath w"
  using UserAuthen_rejects [where w = w and shadow = shadow and u = u and p = p, OF assms] by blast

lemma login_rejects_example:
  "\<exists>w'. UserAuthen [''bob'' \<mapsto> ''h''] (server_with (frame ''bob'' @ frame ''x'' @ []) clientPath_start)
      = (Inr (if [''bob'' \<mapsto> ''h''] ''bob'' = None then 1 else -1), w') \<and> payload (rx w') = [] \<and>
    txed w' = txed (server_with (frame ''bob'' @ frame ''x'' @ []) clientPath_start)
      @ frame ''AUTH_FAIL'' \<and>
    clientPath w' = clientPath (server_with (frame ''bob'' @ frame ''x'' @ []) clientPath_start)"
  by (rule login_rejects [where p = "''x''"]) simp_all

text \<open>
  C13. No login without the password of the shadow entry: when the login loop of the server returns 0,
  it has received, from the socket it was given and in this order, any number of user names each with a
  password that is not that of the user's entry, and then a user \<open>u\<close> with the password of \<open>u\<close>'s
  entry; nothing after that was taken from the socket, and \<open>clientPath\<close> is the one from before the loop
  with \<open>u\<close> appended once. Where no \<open>recv\<close> failed, these names and passwords are the texts of the
  frames at the beginning of the bytes that came in.
\<close>

theorem login_sound:
  assumes "handle_authen_event shadow w = Some (Inr 0, w')"
  shows "\<exists>bad u p cur. received_logins (Suc (length bad)) (rx w) = Some (bad @ [(u, p)], rx w') \<and>
    list_all (\<lambda>(v, q). shadow v \<noteq> Some q) bad \<and> shadow u = Some p \<and>
    cstr (clientPath w) = Some cur \<and> append_user (clientPath w) cur u = Some (clientPath w') \<and>
    (RxFail EOTHER \<notin> set (rx w) \<longrightarrow>
       read_logins (Suc (length bad)) (payload (rx w)) = (bad @ [(u, p)], payload (rx w')))"
proof -
  from handle_authen_sound [OF assms] obtain bad u p where l: "logs_in shadow w w' bad u p" by blast
  then have "received_logins (Suc (length bad)) (rx w) = Some (bad @ [(u, p)], rx w')" by (simp add: logs_in_def)
  from received_logins_read [OF this] l show ?thesis unfolding logs_in_def by blast
qed

theorem login_sound_witness:
  "\<exists>w' bad u p. handle_authen_event [''bob'' \<mapsto> ''h'']
      (server_with (frame ''bob'' @ frame ''h'') clientPath_start) = Some (Inr 0, w') \<and>
    [''bob'' \<mapsto> ''h''] u = Some p \<and>
    read_logins (Suc (length bad)) (frame ''bob'' @ frame ''h'') = (bad @ [(u, p)], payload (rx w'))"
proof -
  let ?w = "server_with (frame ''bob'' @ frame ''h'') clientPath_start"
  have "\<exists>w'. handle_authen_event [''bob'' \<mapsto> ''h''] ?w = Some (Inr 0, w') \<and> payload (rx w') = [] \<and>
    txed w' = txed ?w @ concat (replicate (length ([] :: (string \<times> string) list)) (frame ''AUTH_FAIL''))
      @ frame ''AUTH_RESULT_OK'' \<and> path_ok (clientPath w') (login_path home_prefix ''bob'') \<and> plan w' = [] \<and>
    ending (rx w') = ending (rx ?w)"
    by (rule handle_authen_attempts [where p = "''h''"])
      (simp_all add: attempts_def sendable_def clientPath_start_ok, simp add: home_prefix_def)
  then obtain w' where w': "handle_authen_event [''bob'' \<mapsto> ''h''] ?w = Some (Inr 0, w')" by blast
  have "RxFail EOTHER \<notin> set (rx ?w)" by (simp add: server_with_def cut_def)
  with login_sound [OF w'] w' show ?thesis unfolding server_with_simps by blast
qed

text \<open>
  C14. Retries: the login loop answers AUTH_FAIL to each of any number of failing attempts and
  returns 0 after the first one that matches its shadow entry, leaving what follows in the
  socket unread; the session directory is the user's, once.
\<close>

theorem login_retries:
  assumes "payload (rx w) = attempts bad @ frame u @ frame p @ rest"
    "list_all (\<lambda>(v, q). sendable (v, q) \<and> shadow v \<noteq> Some q) bad"
    "sendable (u, p)" "shadow u = Some p" "path_ok (clientPath w) cur"
    "length cur + 1 + length u < MAX_PATH_LEN" "plan w = []"
  shows "\<exists>w'. handle_authen_event shadow w = Some (Inr 0, w') \<and> payload (rx w') = rest \<and>
    txed w' = txed w @ concat (replicate (length bad) (frame ''AUTH_FAIL'')) @ frame ''AUTH_RESULT_OK'' \<and>
    path_ok (clientPath w') (login_path cur u)"
  using handle_authen_attempts [where w = w and shadow = shadow and u = u and p = p, OF assms] by blast

theorem login_retries_witness:
  "\<exists>w'. handle_authen_event [''bob'' \<mapsto> ''h'']
      (server_with (attempts [(''eve'', ''x''), (''bob'', ''y'')] @ frame ''bob'' @ frame ''h'' @ []) clientPath_start)
        = Some (Inr 0, w') \<and> payload (rx w') = [] \<and>
    txed w' = txed (server_with (attempts [(''eve'', ''x''), (''bob'', ''y'')] @ frame ''bob'' @ frame ''h'' @ [])
        clientPath_start)
      @ concat (replicate (length [(''eve'', ''x''), (''bob'', ''y'')]) (frame ''AUTH_FAIL''))
      @ frame ''AUTH_RESULT_OK'' \<and>
    path_ok (clientPath w') (login_path home_prefix ''bob'')"
  by (rule login_retries [where p = "''h''"])
    (simp_all add: sendable_def clientPath_start_ok, simp add: home_prefix_def)

text \<open>
  C38. A username frame of 64 to 1024 bytes, which any client may send before it is
  authenticated, makes \<open>UserAuthen\<close> write outside its array \<open>username\<close>.
\<close>

theorem username_overflow:
  assumes "payload (rx w) = frame u @ rest" "64 \<le> length u" "length u \<le> DATA_SIZE"
  shows "fst (UserAuthen shadow w) = Inl OutOfBounds"
  using assms by (rule UserAuthen_overflow)

theorem username_overflow_witness:
  "fst (UserAuthen Map.empty (server_with (frame (replicate 64 CHR ''a'') @ []) clientPath_start))
    = Inl OutOfBounds"
  by (rule username_overflow [where u = "replicate 64 CHR ''a''" and rest = "[]"]) simp_all

text \<open>
  A peer that closes before logging in: the loop does not notice the end of the stream but
  reads empty credentials; it answers AUTH_FAIL once for every \<open>send\<close> that still succeeds and
  ends, with \<open>-1\<close>, at the first \<open>send\<close> that fails.
\<close>

lemma login_closed:
  assumes "rx w = [RxEof]" "shadow [] = None" "list_all (\<lambda>k. 13 \<le> k) ks"
    "plan w = map TxTake ks @ TxFail e # ps"
  shows "\<exists>w'. handle_authen_event shadow w = Some (Inr (-1), w') \<and>
    txed w' = txed w @ concat (replicate (length ks) (frame ''AUTH_FAIL''))"
  using assms by (rule handle_authen_closed_run)

lemma login_closed_example:
  "\<exists>w'. handle_authen_event Map.empty
      \<lparr>rx = [RxEof], plan = map TxTake [13, 20] @ TxFail EOTHER # [], txed = [], ops = [],
       clientPath = clientPath_start\<rparr> = Some (Inr (-1), w') \<and>
    txed w' = txed \<lparr>rx = [RxEof], plan = map TxTake [13, 20] @ TxFail EOTHER # [], txed = [], ops = [],
       clientPath = clientPath_start\<rparr> @ concat (replicate (length [13 :: nat, 20]) (frame ''AUTH_FAIL''))"
  by (rule login_closed) simp_all

text \<open>
  C37. A peer that only shuts down its sending side (every \<open>send\<close> of the server still succeeds):
  the login loop never ends, and its worker thread is lost.
\<close>

theorem login_half_closed:
  assumes "rx w = [RxEof]" "plan w = []" "shadow [] = None"
  shows "handle_authen_event shadow w = None"
  using handle_authen_spins_raw [of shadow w] assms
  by (cases "handle_authen_event shadow w") auto

theorem login_half_closed_witness:
  "handle_authen_event Map.empty
    \<lparr>rx = [RxEof], plan = [], txed = [], ops = [], clientPath = clientPath_start\<rparr> = None"
  by (rule login_half_closed) simp_all

text \<open>
  Two logins in one server process: \<open>clientPath\<close> is a global that is never reset, so the
  session directory of the second user lies below that of the first.
\<close>

lemma second_login_nests:
  assumes "payload (rx w) = frame u @ frame p @ r" "payload s = frame v @ frame q @ t"
    "sendable (u, p)" "sendable (v, q)" "shadow u = Some p" "shadow v = Some q"
    "path_ok (clientPath w) cur" "length cur + length u + length v + 2 < MAX_PATH_LEN" "plan w = []"
  shows "\<exists>w1 w2. handle_authen_event shadow w = Some (Inr 0, w1) \<and>
    handle_authen_event shadow (w1\<lparr>rx := s\<rparr>) = Some (Inr 0, w2) \<and>
    path_ok (clientPath w2) (login_path (login_path cur u) v)"
proof -
  have "\<exists>w'. UserAuthen shadow w = (Inr 0, w') \<and> payload (rx w') = r \<and> plan w' = [] \<and>
    ending (rx w') = ending (rx w) \<and>
    txed w' = txed w @ frame ''AUTH_RESULT_OK'' \<and> path_ok (clientPath w') (login_path cur u)"
    by (rule UserAuthen_accepts [where p = p]) (use assms in \<open>simp_all add: sendable_def\<close>)
  then obtain w1 where w1: "UserAuthen shadow w = (Inr 0, w1)" "plan w1 = []"
    "path_ok (clientPath w1) (login_path cur u)" by blast
  have "\<exists>w'. UserAuthen shadow (w1\<lparr>rx := s\<rparr>) = (Inr 0, w') \<and> payload (rx w') = t \<and> plan w' = [] \<and>
    ending (rx w') = ending (rx (w1\<lparr>rx := s\<rparr>)) \<and>
    txed w' = txed (w1\<lparr>rx := s\<rparr>) @ frame ''AUTH_RESULT_OK'' \<and>
    path_ok (clientPath w') (login_path (login_path cur u) v)"
    by (rule UserAuthen_accepts [where p = q])
      (use assms w1 in \<open>simp_all add: sendable_def login_path_def\<close>)
  then obtain w2 where "UserAuthen shadow (w1\<lparr>rx := s\<rparr>) = (Inr 0, w2)"
    "path_ok (clientPath w2) (login_path (login_path cur u) v)" by blast
  with w1(1) show ?thesis by (auto simp: handle_authen_event.simps)
qed

lemma second_login_nests_example:
  "\<exists>w1 w2. handle_authen_event [''bob'' \<mapsto> ''h'', ''ann'' \<mapsto> ''k'']
      (server_with (frame ''bob'' @ frame ''h'' @ []) clientPath_start) = Some (Inr 0, w1) \<and>
    handle_authen_event [''bob'' \<mapsto> ''h'', ''ann'' \<mapsto> ''k'']
      (w1\<lparr>rx := cut 9 (frame ''ann'' @ frame ''k'' @ [])\<rparr>) = Some (Inr 0, w2) \<and>
    path_ok (clientPath w2) (login_path (login_path home_prefix ''bob'') ''ann'')"
  by (rule second_login_nests [where p = "''h''" and q = "''k''"])
    (simp_all add: sendable_def clientPath_start_ok, simp add: home_prefix_def)

text \<open>
  C4. The two programs agree on a login. Where the server receives what the client's attempt
  sends and the client receives what the server answers, in any segmentation and however little
  each \<open>send\<close> of the client takes, the client's attempt returns 0 and marks the client as connected
  exactly when the hash of the password is the user's shadow entry, which is when the server's
  attempt returns 0.
\<close>

theorem login_agreement:
  assumes "crypt pw salt = Some h" "sendable (u, h)" "flowing (plan c)" "txed c = []"
    "payload (rx s) = txed (snd (handle_authentication crypt junk (Some u) (Some pw) c)) @ rest"
    "plan s = []" "txed s = []" "path_ok (clientPath s) cur" "length cur + 1 + length u < MAX_PATH_LEN"
    "payload (rx c) = txed (snd (UserAuthen shadow s))" "failfree (rx c)"
    "length (t_data junk) = DATA_SIZE"
  shows "\<exists>r s' r' c'. UserAuthen shadow s = (Inr r, s') \<and>
    handle_authentication crypt junk (Some u) (Some pw) c = (Inr r', c') \<and>
    (r = 0 \<longleftrightarrow> shadow u = Some h) \<and> (r' = 0 \<longleftrightarrow> shadow u = Some h) \<and>
    (shadow u = Some h \<longrightarrow> is_connected (g_clientState c') = 1) \<and>
    (shadow u \<noteq> Some h \<longrightarrow> g_clientState c' = g_clientState c) \<and>
    payload (rx s') = rest \<and> payload (rx c') = []"
proof -
  let ?msg = "if shadow u = Some h then ''AUTH_RESULT_OK'' else ''AUTH_FAIL''"
  have lens: "length u \<le> DATA_SIZE" "length h \<le> DATA_SIZE" "no_nul u" "no_nul h" "length u < 64" "length h < 128"
    using assms(2) by (simp_all add: sendable_def)
  have pay: "payload (rx s) = frame u @ frame h @ rest"
    using handle_authentication_txed [where crypt = crypt and pw = pw and h = h and u = u and w = c
        and junk = junk] assms(1,3-5) lens by simp
  have "\<exists>s'. UserAuthen shadow s = (Inr (if shadow u = Some h then 0 else if shadow u = None then 1 else -1), s')
    \<and> payload (rx s') = rest \<and> txed s' = frame ?msg"
  proof (cases "shadow u = Some h")
    case True
    with UserAuthen_accepts [where w = s and shadow = shadow and u = u and p = h and cur = cur and rest = rest]
      pay lens assms(6-9) show ?thesis by auto
  next
    case False
    with UserAuthen_rejects [where w = s and shadow = shadow and u = u and p = h and rest = rest]
      pay lens assms(6-9) show ?thesis by auto
  qed
  then obtain s' where s': "UserAuthen shadow s
      = (Inr (if shadow u = Some h then 0 else if shadow u = None then 1 else -1), s')"
    "payload (rx s') = rest" "txed s' = frame ?msg" by blast
  obtain c' where "handle_authentication crypt junk (Some u) (Some pw) c
      = (Inr (if ?msg = ''AUTH_RESULT_OK'' then 0 else -1), c')"
    "g_clientState c' = (if ?msg = ''AUTH_RESULT_OK'' then (g_clientState c)\<lparr>is_connected := 1\<rparr>
       else g_clientState c)" "payload (rx c') = []"
    by (rule handle_authentication_reply [where crypt = crypt and pw = pw and h = h and u = u and w = c
          and junk = junk and msg = ?msg and rest = "[]"])
      (use assms lens s' in \<open>simp_all split: if_splits\<close>)
  with s' show ?thesis by (auto split: if_splits)
qed

theorem login_agreement_witness:
  "\<exists>r s' r' c'. UserAuthen [''bob'' \<mapsto> ''h''] (server_with (frame ''bob'' @ frame ''h'') clientPath_start) = (Inr r, s') \<and>
    handle_authentication (\<lambda>pw s. Some ''h'') zero_train (Some ''bob'') (Some ''pw'')
      (client_with (frame ''AUTH_RESULT_OK'')) = (Inr r', c') \<and>
    r = 0 \<and> r' = 0 \<and> is_connected (g_clientState c') = 1"
proof -
  let ?s = "server_with (frame ''bob'' @ frame ''h'') clientPath_start"
  let ?c = "client_with (frame ''AUTH_RESULT_OK'')"
  have home: "length home_prefix = 40" by (simp add: home_prefix_def)
  have "txed (snd (handle_authentication (\<lambda>pw s. Some ''h'') zero_train (Some ''bob'') (Some ''pw'') ?c))
      = txed ?c @ frame ''bob'' @ frame ''h''"
    by (rule handle_authentication_txed) simp_all
  then have pay: "payload (rx ?s) = txed (snd (handle_authentication (\<lambda>pw s. Some ''h'') zero_train
      (Some ''bob'') (Some ''pw'') ?c)) @ []" by simp
  have "\<exists>w'. UserAuthen [''bob'' \<mapsto> ''h''] ?s = (Inr 0, w') \<and> payload (rx w') = [] \<and> plan w' = [] \<and>
    ending (rx w') = ending (rx ?s) \<and>
      txed w' = txed ?s @ frame ''AUTH_RESULT_OK'' \<and> path_ok (clientPath w') (login_path home_prefix ''bob'')"
    by (rule UserAuthen_accepts [where p = "''h''"]) (simp_all add: clientPath_start_ok home)
  then have "payload (rx ?c) = txed (snd (UserAuthen [''bob'' \<mapsto> ''h''] ?s))" by auto
  from login_agreement [where crypt = "\<lambda>pw s. Some ''h''" and pw = "''pw''" and h = "''h''" and u = "''bob''"
      and c = ?c and s = ?s and junk = zero_train and rest = "[]" and cur = home_prefix
      and shadow = "[''bob'' \<mapsto> ''h'']", OF refl _ _ _ pay _ _ _ _ this]
  show ?thesis by (simp add: sendable_def clientPath_start_ok home) blast
qed

end
