(* ===== verification/Cmd_Handle.thy ===== *)
theory Cmd_Handle
  imports Frames
begin

text \<open>
  The server's commands, \<open>server/cmdHandle.c\<close>: \<open>cmdParse\<close> dispatches a packet to its handler,
  \<open>sendSignal\<close> reports a result. They run on the state of the server process (the socket of the
  session, \<open>clientPath\<close> and the log of system calls); the file system is the argument \<open>K\<close>.
\<close>

section \<open>Results\<close>

text \<open>\<open>sendSignal\<close>: the header, then the message. \<open>None\<close> is \<open>NULL\<close>.\<close>

definition sendSignal :: "string option \<Rightarrow> CmdStatus \<Rightarrow> ('z proc_scheme, int) prog" where
  "sendSignal message status =
     (case message of
        Some m \<Rightarrow>
          if int (length m) > INT_MAX then ret (-1)
          else
            bnd (sendn (enc_signal \<lparr>sendACK = 1, recvACK = 1, cmdStatus = status_val status,
                          s_length = of_nat (length m)\<rparr>)) (\<lambda>r1.
            if r1 < 0 then ret (-1)
            else if length m > 0 then
              bnd (sendn m) (\<lambda>r2. if r2 < 0 then ret (-1) else ret 0)
            else ret 0)
      | None \<Rightarrow>
          bnd (sendn (enc_signal \<lparr>sendACK = 1, recvACK = 1, cmdStatus = status_val status,
                        s_length = 0\<rparr>)) (\<lambda>r1.
          if r1 < 0 then ret (-1) else ret 0))"

section \<open>Handlers\<close>

definition changeDir :: "packetCmd option \<Rightarrow> ('z proc_scheme, int) prog" where
  "changeDir cmd = ret 0"

text \<open>What \<open>listDir\<close> prints for the entries \<open>readdir\<close> returns.\<close>

definition listing :: "string list \<Rightarrow> string" where
  "listing entries =
     concat (map (\<lambda>e. e @ ''  '') (filter (\<lambda>e. e \<noteq> ''.'' \<and> e \<noteq> ''..'') entries)) @ [CHR 0x0A]"

definition listDir :: "kernel \<Rightarrow> packetCmd \<Rightarrow> ('z proc_scheme, int) prog" where
  "listDir K cmd =
     bnd (in_bounds (cstr (p_data cmd))) (\<lambda>dir.
     bnd (reads (\<lambda>w. k_opendir K (ops w) dir)) (\<lambda>r.
     (case r of
        None \<Rightarrow> ret (-1)
      | Some entries \<Rightarrow>
          next_do (log_op (OpOpendir dir))
          (next_do (log_op (OpPrint (listing entries)))
          (next_do (log_op (OpClosedir dir)) (ret 0))))))"

text \<open>\<open>getcwd\<close> into 1024 bytes.\<close>

definition printWorkingDir :: "kernel \<Rightarrow> packetCmd \<Rightarrow> ('z proc_scheme, int) prog" where
  "printWorkingDir K cmd =
     bnd (reads (\<lambda>w. k_getcwd K (ops w))) (\<lambda>r.
     (case r of
        Some cwd \<Rightarrow>
          if length cwd < 1024 then
            next_do (log_op (OpPrint (''Current working directory: '' @ cwd @ [CHR 0x0A]))) (ret 0)
          else ret (-1)
      | None \<Rightarrow> ret (-1)))"

text \<open>The end of an upload: open the file, give it its size, map it, receive its contents into the
  mapping and close it; \<open>ERROR_CHECK\<close> ends the process.\<close>

definition store_upload :: "kernel \<Rightarrow> string \<Rightarrow> oflag list \<Rightarrow> int \<Rightarrow> ('z proc_scheme, int) prog" where
  "store_upload K name flags filesize =
     bnd (sys_open K name flags) (\<lambda>fd.
     if fd = -1 then halt (Exits 1)
     else
       next_do (log_op (OpTruncate fd filesize))
       (bnd (sys_map K fd filesize) (\<lambda>m.
        (case m of
           None \<Rightarrow> halt (Exits 1)
         | Some mem \<Rightarrow>
             bnd (recvn mem filesize) (\<lambda>(_, mem').
             next_do (log_op (OpStore fd mem'))
             (next_do (log_op (OpClose fd)) (ret 0)))))))"

text \<open>
  \<open>PutFile\<close> receives a name, a size and the contents. \<open>filename\<close> and \<open>filesize\<close> start with
  what is on the stack; only the received bytes are copied over it.
\<close>

definition PutFile :: "kernel \<Rightarrow> packetCmd \<Rightarrow> ('z proc_scheme, int) prog" where
  "PutFile K cmd =
     bnd (stack_bytes K 256) (\<lambda>filename0.
     bnd (stack_bytes K 8) (\<lambda>filesize0.
     bnd (recv_train zero_train) (\<lambda>t1.
     bnd (in_bounds (memcpy filename0 (t_data t1) (t_length t1))) (\<lambda>filename.
     bnd (in_bounds (cstr filename)) (\<lambda>name.
     bnd (recv_train t1) (\<lambda>t2.
     bnd (in_bounds (memcpy filesize0 (t_data t2) (t_length t2))) (\<lambda>fsz.
     let filesize = sint (dec64 fsz) in
     store_upload K name [O_RDWR, O_CREAT, O_TRUNC] filesize)))))))"

text \<open>\<open>GetFile\<close> sends the name and the size of a file.\<close>

definition GetFile :: "kernel \<Rightarrow> packetCmd \<Rightarrow> ('z proc_scheme, int) prog" where
  "GetFile K cmd =
     bnd (in_bounds (cstr (p_data cmd))) (\<lambda>path.
     bnd (in_bounds (memcpy (t_data zero_train) (path @ [NUL]) (of_nat (length path) + 1))) (\<lambda>data.
     bnd (send1 (take (4 + length path) (le32 (of_nat (length path)) @ data))) (\<lambda>r1.
     if r1 < 0 then ret (-1)
     else
       bnd (sys_open K path [O_RDWR]) (\<lambda>fd.
       if fd = -1 then halt (Exits 1)
       else
         bnd (reads (\<lambda>w. k_size K (ops w) fd)) (\<lambda>st_size.
         bnd (in_bounds (memcpy data (le64 (word_of_int st_size)) 8)) (\<lambda>data2.
         bnd (send1 (take 12 (le32 8 @ data2))) (\<lambda>r2.
         next_do (log_op (OpClose fd)) (if r2 < 0 then ret (-1) else ret 0))))))))"

definition removeFile :: "kernel \<Rightarrow> packetCmd \<Rightarrow> ('z proc_scheme, int) prog" where
  "removeFile K cmd =
     bnd (in_bounds (cstr (p_data cmd))) (\<lambda>path.
     bnd (sys_unlink K path) (\<lambda>result.
     if result = -1 then ret (-1) else ret 0))"

definition makeDir :: "kernel \<Rightarrow> packetCmd \<Rightarrow> ('z server_scheme, int) prog" where
  "makeDir K cmd =
     bnd (reads clientPath) (\<lambda>arr.
     bnd (in_bounds (cstr arr)) (\<lambda>base.
     bnd (in_bounds (cstr (p_data cmd))) (\<lambda>arg.
     let full = base @ ''/'' @ arg; written = length full in
     if MAX_PATH_LEN \<le> written then ret (-1)
     else
       bnd (in_bounds (cstr (snprintf (replicate MAX_PATH_LEN NUL) full))) (\<lambda>fullPath.
       bnd (sys_mkdir K fullPath) (\<lambda>result.
       if result = -1 then
         next_do (sendSignal (Some ''Failed to create directory'') CMD_FAILURE) (ret (-1))
       else
         next_do (sendSignal (Some ''Directory created successfully'') CMD_SUCCESS) (ret result))))))"

text \<open>\<open>changeDir\<close> is called with \<open>NULL\<close>; the results of the handlers are dropped.\<close>

definition cmdParse :: "kernel \<Rightarrow> packetCmd \<Rightarrow> ('z server_scheme, int) prog" where
  "cmdParse K cmd =
     (if cmdCode cmd = code_word REQ_CD then next_do (changeDir None) (ret 0)
      else if cmdCode cmd = code_word REQ_LS then next_do (listDir K cmd) (ret 0)
      else if cmdCode cmd = code_word REQ_MKDIR then next_do (makeDir K cmd) (ret 0)
      else if cmdCode cmd = code_word REQ_RM then next_do (removeFile K cmd) (ret 0)
      else if cmdCode cmd = code_word REQ_PUT then next_do (PutFile K cmd) (ret 0)
      else if cmdCode cmd = code_word REQ_GET then next_do (GetFile K cmd) (ret 0)
      else if cmdCode cmd = code_word REQ_PWD then next_do (printWorkingDir K cmd) (ret 0)
      else ret (-1))"

section \<open>Signals\<close>

text \<open>What a signal looks like on the wire.\<close>

definition signal_bytes :: "CmdStatus \<Rightarrow> string \<Rightarrow> char list" where
  "signal_bytes st m =
     enc_signal \<lparr>sendACK = 1, recvACK = 1, cmdStatus = status_val st, s_length = of_nat (length m)\<rparr> @ m"

lemma sendSignal_ok:
  assumes "flowing (plan w)" "int (length m) \<le> INT_MAX"
  obtains p' where "sendSignal (Some m) st w
    = (Inr 0, w\<lparr>plan := p', txed := txed w @ signal_bytes st m\<rparr>)" "flowing p'"
proof -
  let ?h = "enc_signal \<lparr>sendACK = 1, recvACK = 1, cmdStatus = status_val st, s_length = of_nat (length m)\<rparr>"
  have h: "length ?h = 16" by (simp add: enc_signal_def)
  then have "int (length ?h) \<le> INT_MAX" by (simp add: INT_MAX_def)
  from sendn_flowing [OF assms(1) this] obtain p1 where p1:
    "sendn ?h w = (Inr 16, w\<lparr>plan := p1, txed := txed w @ ?h\<rparr>)" "flowing p1" using h by auto
  have "flowing (plan (w\<lparr>plan := p1, txed := txed w @ ?h\<rparr>))" using p1(2) by simp
  from sendn_flowing [OF this assms(2)] obtain p2 where p2:
    "sendn m (w\<lparr>plan := p1, txed := txed w @ ?h\<rparr>)
      = (Inr (int (length m)), w\<lparr>plan := p2, txed := (txed w @ ?h) @ m\<rparr>)" "flowing p2" by auto
  show ?thesis
  proof (cases "m = []")
    case True
    with p1 that [of p1] show ?thesis
      by (simp add: sendSignal_def bnd_def run signal_bytes_def INT_MAX_def)
  next
    case False
    with p1 p2 that [of p2] assms(2) show ?thesis
      by (simp add: sendSignal_def bnd_def run signal_bytes_def)
  qed
qed

section \<open>What the handlers leave alone\<close>

lemma keeps_log [keep]:
  "keeps rx (log_op e)" "keeps plan (log_op e)" "keeps txed (log_op e)" "keeps clientPath (log_op e)"
  by (simp_all add: keeps_def run)

lemma keeps_sys [keep]:
  assumes "\<And>e. keeps f (log_op e :: ('z proc_scheme, unit) prog)"
  shows "keeps f (sys_open K p fl)" "keeps f (sys_unlink K p)" "keeps f (sys_mkdir K p)"
    "keeps f (sys_map K fd sz)" "keeps f (stack_bytes K n)"
  using assms
  by (auto simp: sys_open_def sys_unlink_def sys_mkdir_def sys_map_def stack_bytes_def
      intro!: keep split: option.splits)

lemma keeps_transfer [keep]:
  "keeps clientPath (recvn buf n)" "keeps clientPath (sendn d)" "keeps clientPath (send1 d)"
  "keeps txed (recvn buf n)" "keeps plan (recvn buf n)" "keeps rx (sendn d)" "keeps rx (send1 d)"
  by (auto simp: keeps_def recvn_def sendn_def send1_def split: prod.splits tx_result.splits)

lemma sendSignal_keeps: "keeps clientPath (sendSignal m st)" "keeps rx (sendSignal m st)"
  unfolding sendSignal_def by (intro keep)+

lemma recv_train_keeps: "keeps clientPath (recv_train t)" "keeps txed (recv_train t)" "keeps plan (recv_train t)"
  unfolding recv_train_def by (intro keep)+

lemmas handler_defs = changeDir_def listDir_def printWorkingDir_def removeFile_def makeDir_def
  PutFile_def store_upload_def GetFile_def

lemma cmdParse_clientPath: "keeps clientPath (cmdParse K cmd)"
  unfolding cmdParse_def handler_defs
  by (intro keep sendSignal_keeps recv_train_keeps)

lemma silent_keeps:
  "keeps rx (changeDir c)" "keeps txed (changeDir c)" "keeps plan (changeDir c)"
  "keeps rx (listDir K cmd)" "keeps txed (listDir K cmd)" "keeps plan (listDir K cmd)"
  "keeps rx (printWorkingDir K cmd)" "keeps txed (printWorkingDir K cmd)" "keeps plan (printWorkingDir K cmd)"
  "keeps rx (removeFile K cmd)" "keeps txed (removeFile K cmd)" "keeps plan (removeFile K cmd)"
  unfolding handler_defs by (intro keep)+

lemma cmdParse_rx:
  assumes "cmdCode cmd \<noteq> code_word REQ_PUT"
  shows "keeps rx (cmdParse K cmd)"
  unfolding cmdParse_def makeDir_def GetFile_def if_not_P [OF assms]
  by (intro keep silent_keeps sendSignal_keeps)

lemma cmdParse_silent:
  assumes "cmdCode cmd = code_word c" "c \<in> {REQ_CD, REQ_LS, REQ_PWD, REQ_RM}"
  shows "keeps rx (cmdParse K cmd)" "keeps txed (cmdParse K cmd)" "keeps plan (cmdParse K cmd)"
  using assms by (auto simp: cmdParse_def intro: keep silent_keeps)

text \<open>A program that neither reads from the socket nor looks at it.\<close>

definition blind :: "('z proc_scheme, 'a) prog \<Rightarrow> bool" where
  "blind m \<longleftrightarrow> (\<forall>w s. m (w\<lparr>rx := s\<rparr>) = (fst (m w), (snd (m w))\<lparr>rx := s\<rparr>))"

named_theorems deaf "programs that do not depend on the socket's input"

lemma blind_basic [deaf]: "blind (ret x)" "blind (halt e)" "blind (in_bounds r)" "blind (log_op op)"
  by (auto simp: blind_def run in_bounds_def split: option.splits)

lemma blind_reads [deaf]: "(\<And>w s. g (w\<lparr>rx := s\<rparr>) = g w) \<Longrightarrow> blind (reads g)"
  by (simp add: blind_def run)

lemma blind_bnd [deaf]:
  assumes "blind m" "\<And>x. blind (k x)"
  shows "blind (bnd m k)"
  unfolding blind_def
proof (intro allI)
  fix w s
  obtain r w1 where m: "m w = (r, w1)" by (cases "m w")
  with assms(1) have "m (w\<lparr>rx := s\<rparr>) = (r, w1\<lparr>rx := s\<rparr>)" by (simp add: blind_def)
  with m assms(2) show "bnd m k (w\<lparr>rx := s\<rparr>) = (fst (bnd m k w), (snd (bnd m k w))\<lparr>rx := s\<rparr>)"
    by (cases r) (simp_all add: bnd_def blind_def)
qed

lemma blind_next [deaf]: "blind m \<Longrightarrow> blind n \<Longrightarrow> blind (next_do m n)"
  by (simp add: next_do_def blind_bnd)

lemma blind_branch [deaf]:
  "blind a \<Longrightarrow> (\<And>y. blind (b y)) \<Longrightarrow> blind (case x of None \<Rightarrow> a | Some y \<Rightarrow> b y)"
  "blind m \<Longrightarrow> blind n \<Longrightarrow> blind (if c then m else n)"
  "(\<And>y. blind (g y)) \<Longrightarrow> blind (let y = e in g y)"
  by (simp_all split: option.splits)

lemma blind_send [deaf]: "blind (sendn d)" "blind (send1 d)"
  by (auto simp: blind_def sendn_def send1_def split: prod.splits tx_result.splits)

lemma blind_sys [deaf]: "blind (sys_open K p fl)" "blind (sys_unlink K p)" "blind (sys_mkdir K p)"
  by (auto simp: sys_open_def sys_unlink_def sys_mkdir_def intro!: deaf)

text \<open>Every command but an upload is one.\<close>

lemma cmdParse_blind:
  assumes "cmdCode cmd \<noteq> code_word REQ_PUT"
  shows "blind (cmdParse K cmd)"
  unfolding cmdParse_def handler_defs sendSignal_def if_not_P [OF assms]
  by (intro deaf; simp)

lemma blind_run:
  "blind m \<Longrightarrow> m w = (r, w') \<Longrightarrow> m (w\<lparr>rx := s\<rparr>) = (r, w'\<lparr>rx := s\<rparr>)"
  by (simp add: blind_def)

section \<open>Transfers\<close>

lemma memcpy_prefix:
  assumes "t = \<lparr>t_length = of_nat (length s), t_data = s @ r\<rparr>" "length s \<le> length arr"
    "int (length arr) \<le> INT_MAX"
  shows "memcpy arr (t_data t) (t_length t) = Some (s @ drop (length s) arr)"
proof -
  have "size_t_of (of_nat (length s)) = int (length s)"
    using assms(2,3) by (intro size_t_of_nat_small) simp
  from memcpy_at [OF this, of "s @ r" arr] assms(1,2) show ?thesis by simp
qed

text \<open>The size arrives as the eight bytes of an \<open>off_t\<close>.\<close>

lemma memcpy_size:
  assumes "t = \<lparr>t_length = of_nat (length (le64 n)), t_data = le64 n @ r\<rparr>" "length arr = 8"
  shows "memcpy arr (t_data t) (t_length t) = Some (le64 n)"
  using memcpy_prefix [OF assms(1), of arr] assms(2) by (simp add: INT_MAX_def)

text \<open>A name and a size arrive as two frames in the same \<open>train\<close>.\<close>

lemma two_frames:
  assumes pay: "payload (rx w) = frame name @ frame (le64 n) @ rest"
    and len: "length name \<le> DATA_SIZE" "length (t_data t0) = DATA_SIZE"
  obtains t1 s1 t2 s2 where
    "recv_train t0 w = (Inr t1, w\<lparr>rx := s1\<rparr>)" "recv_train t1 (w\<lparr>rx := s1\<rparr>) = (Inr t2, w\<lparr>rx := s2\<rparr>)"
    "payload s2 = rest" "ending s2 = ending (rx w)"
    "\<forall>arr. length name \<le> length arr \<and> int (length arr) \<le> INT_MAX \<longrightarrow>
       memcpy arr (t_data t1) (t_length t1) = Some (name @ drop (length name) arr)"
    "\<forall>arr. length arr = 8 \<longrightarrow> memcpy arr (t_data t2) (t_length t2) = Some (le64 n)"
proof -
  let ?t1 = "\<lparr>t_length = of_nat (length name), t_data = name @ drop (length name) (t_data t0)\<rparr>"
  let ?t2 = "\<lparr>t_length = of_nat (length (le64 n)), t_data = le64 n @ drop (length (le64 n)) (t_data ?t1)\<rparr>"
  have fits: "length name \<le> length (t_data t0)" "int (length name) \<le> INT_MAX"
    "length (le64 n) \<le> length (t_data ?t1)" "int (length (le64 n)) \<le> INT_MAX"
    using len by (simp_all add: INT_MAX_def)
  obtain s1 where s1: "recv_train t0 w = (Inr ?t1, w\<lparr>rx := s1\<rparr>)"
    "payload s1 = frame (le64 n) @ rest" "ending s1 = ending (rx w)"
    by (rule recv_train_frame [OF pay fits(1,2)])
  have pay1: "payload (rx (w\<lparr>rx := s1\<rparr>)) = frame (le64 n) @ rest" using s1(2) by simp
  obtain s2 where s2: "recv_train ?t1 (w\<lparr>rx := s1\<rparr>) = (Inr ?t2, w\<lparr>rx := s2\<rparr>)"
    "payload s2 = rest" "ending s2 = ending s1"
    by (rule recv_train_frame [OF pay1 fits(3,4)]) simp
  show ?thesis
    by (rule that [OF s1(1) s2(1,2)])
      (use s1(3) s2(3) memcpy_prefix [OF refl] memcpy_size [OF refl] in auto)
qed

text \<open>An upload that breaks off after the name: the second frame reads as the name again.\<close>

lemma PutFile_cut_short:
  assumes pay: "payload (rx w) = frame name" "ending (rx w) = Got []"
    and len: "8 < length name" "length name < 256" "no_nul name"
    and path: "cstr (name @ drop (length name) (fit 256 (k_stack K (ops w) 256))) \<noteq> None"
  shows "fst (PutFile K cmd w) = Inl OutOfBounds"
proof -
  let ?t1 = "\<lparr>t_length = of_nat (length name), t_data = name @ drop (length name) (t_data zero_train)\<rparr>"
  have fits: "length name \<le> length (t_data zero_train)" "int (length name) \<le> INT_MAX"
    "length name \<le> length (t_data ?t1)"
    using len by (simp_all add: INT_MAX_def)
  obtain s1 where s1: "recv_train zero_train w = (Inr ?t1, w\<lparr>rx := s1\<rparr>)" "payload s1 = []"
    "ending s1 = Got []"
    by (rule recv_train_frame [of w name "[]", OF _ fits(1,2)]) (use pay in simp_all)
  have b1: "bnd (recv_train zero_train) f w = f ?t1 (w\<lparr>rx := s1\<rparr>)" for f :: "_ \<Rightarrow> (_, int) prog"
    by (simp only: bnd_def s1(1) prod.case sum.case)
  obtain s2 where s2: "recv_train ?t1 (w\<lparr>rx := s1\<rparr>) = (Inr ?t1, w\<lparr>rx := s2\<rparr>)"
    by (rule recv_train_closed [of "w\<lparr>rx := s1\<rparr>" ?t1 "length name"])
      (use s1(2,3) len fits(3) in \<open>auto simp: INT_MAX_def\<close>)
  have b2: "bnd (recv_train ?t1) f (w\<lparr>rx := s1\<rparr>) = f ?t1 (w\<lparr>rx := s2\<rparr>)" for f :: "_ \<Rightarrow> (_, int) prog"
    by (simp only: bnd_def s2 prod.case sum.case)
  have name: "memcpy (fit 256 (k_stack K (ops w) 256)) (t_data ?t1) (t_length ?t1)
      = Some (name @ drop (length name) (fit 256 (k_stack K (ops w) 256)))"
    by (rule memcpy_prefix [OF refl]) (use len in \<open>simp_all add: INT_MAX_def\<close>)
  have size: "memcpy (fit 8 (k_stack K (ops w) 8)) (t_data ?t1) (t_length ?t1) = None"
    using len fits(2) by (intro memcpy_out_dst) (simp add: size_t_of_nat_small)
  from path obtain p where p: "cstr (name @ drop (length name) (fit 256 (k_stack K (ops w) 256))) = Some p"
    by blast
  show ?thesis
    unfolding PutFile_def
    by (simp only: stack_bytes_run b1 name bnd_Some p b2 size bnd_simps fst_conv)
qed

text \<open>The calls an upload makes, and that it ends the process when the mapping fails.\<close>

definition upload_ops :: "string \<Rightarrow> oflag list \<Rightarrow> int \<Rightarrow> char list \<Rightarrow> sysop list" where
  "upload_ops path flags fd content =
     [OpOpen path flags fd, OpTruncate fd (int (length content)), OpMap fd (int (length content)),
      OpStore fd content, OpClose fd]"

lemma store_upload_run:
  assumes pay: "payload (rx w) = content @ rest"
    and fd: "k_open K (ops w) path flags = fd" "fd \<noteq> -1"
    and map: "k_map K (ops w @ [OpOpen path flags fd, OpTruncate fd (int (length content))])
        fd (int (length content)) = Some mem"
  obtains s where "store_upload K path flags (int (length content)) w
      = (Inr 0, w\<lparr>rx := s, ops := ops w @ upload_ops path flags fd content\<rparr>)"
    "payload s = rest" "ending s = ending (rx w)"
proof -
  let ?o = "ops w @ [OpOpen path flags fd, OpTruncate fd (int (length content)), OpMap fd (int (length content))]"
  have "length content \<le> length (fit (length content) mem)"
    "length content \<le> length (payload (rx (w\<lparr>ops := ?o\<rparr>)))" using pay by simp_all
  then obtain s where s: "recvn (fit (length content) mem) (int (length content)) (w\<lparr>ops := ?o\<rparr>)
      = (Inr (int_of_long (int (length content)), content), w\<lparr>ops := ?o, rx := s\<rparr>)"
    "payload s = rest" "ending s = ending (rx w)"
    by (rule recvn_enough) (simp add: pay)
  have "bnd (recvn (fit (length content) mem) (int (length content))) f (w\<lparr>ops := ?o\<rparr>)
      = f (int_of_long (int (length content)), content) (w\<lparr>ops := ?o, rx := s\<rparr>)"
    for f :: "_ \<Rightarrow> (_, int) prog" by (simp add: bnd_def s(1))
  with fd map have "store_upload K path flags (int (length content)) w
      = (Inr 0, w\<lparr>rx := s, ops := ops w @ upload_ops path flags fd content\<rparr>)"
    by (simp add: store_upload_def run upload_ops_def)
  with that s show ?thesis by blast
qed

lemma store_upload_unmapped:
  assumes "k_open K (ops w) path flags = fd" "fd \<noteq> -1"
    and "k_map K (ops w @ [OpOpen path flags fd, OpTruncate fd n]) fd n = None"
  shows "fst (store_upload K path flags n w) = Inl (Exits 1)"
  using assms by (simp add: store_upload_def run)

lemma PutFile_head:
  assumes pay: "payload (rx w) = frame name @ frame (le64 n) @ rest"
    and len: "length name \<le> 256"
    and path: "cstr (name @ drop (length name) (fit 256 (k_stack K (ops w) 256))) = Some path"
  obtains s where "PutFile K cmd w = store_upload K path [O_RDWR, O_CREAT, O_TRUNC] (sint n) (w\<lparr>rx := s\<rparr>)"
    "payload s = rest" "ending s = ending (rx w)"
proof -
  have fits: "length name \<le> DATA_SIZE" using len by simp
  obtain t1 s1 t2 s2 where
    t: "recv_train zero_train w = (Inr t1, w\<lparr>rx := s1\<rparr>)" "recv_train t1 (w\<lparr>rx := s1\<rparr>) = (Inr t2, w\<lparr>rx := s2\<rparr>)"
    and s2: "payload s2 = rest" "ending s2 = ending (rx w)"
    and copies: "\<forall>arr. length name \<le> length arr \<and> int (length arr) \<le> INT_MAX \<longrightarrow>
        memcpy arr (t_data t1) (t_length t1) = Some (name @ drop (length name) arr)"
      "\<forall>arr. length arr = 8 \<longrightarrow> memcpy arr (t_data t2) (t_length t2) = Some (le64 n)"
    by (rule two_frames [OF pay fits zero_train_size])
  have name: "memcpy (fit 256 (k_stack K (ops w) 256)) (t_data t1) (t_length t1)
      = Some (name @ drop (length name) (fit 256 (k_stack K (ops w) 256)))"
    using len by (intro copies(1) [rule_format]) (simp_all add: INT_MAX_def)
  have sz: "memcpy (fit 8 (k_stack K (ops w) 8)) (t_data t2) (t_length t2) = Some (le64 n)"
    by (simp add: copies(2))
  have b: "bnd (recv_train zero_train) f w = f t1 (w\<lparr>rx := s1\<rparr>)"
    "bnd (recv_train t1) f (w\<lparr>rx := s1\<rparr>) = f t2 (w\<lparr>rx := s2\<rparr>)" for f :: "_ \<Rightarrow> (_, int) prog"
    by (simp_all only: bnd_def t prod.case sum.case)
  have "PutFile K cmd w = store_upload K path [O_RDWR, O_CREAT, O_TRUNC] (sint n) (w\<lparr>rx := s2\<rparr>)"
    unfolding PutFile_def
    by (simp only: stack_bytes_run b name bnd_Some path sz dec64_le64 Let_def)
  with s2 that show ?thesis by simp
qed

lemma PutFile_run:
  assumes pay: "payload (rx w) = frame name @ frame (le64 (of_nat (length content))) @ content @ rest"
    and len: "length name \<le> 256" "int (length content) \<le> INT_MAX"
    and path: "cstr (name @ drop (length name) (fit 256 (k_stack K (ops w) 256))) = Some path"
    and fd: "k_open K (ops w) path [O_RDWR, O_CREAT, O_TRUNC] = fd" "fd \<noteq> -1"
    and map: "k_map K (ops w @ [OpOpen path [O_RDWR, O_CREAT, O_TRUNC] fd, OpTruncate fd (int (length content))])
        fd (int (length content)) = Some mem"
  obtains s where "PutFile K cmd w = (Inr 0, w\<lparr>rx := s,
      ops := ops w @ upload_ops path [O_RDWR, O_CREAT, O_TRUNC] fd content\<rparr>)"
    "payload s = rest" "ending s = ending (rx w)"
proof -
  obtain s1 where s1: "PutFile K cmd w = store_upload K path [O_RDWR, O_CREAT, O_TRUNC]
      (sint (of_nat (length content) :: clong)) (w\<lparr>rx := s1\<rparr>)"
    "payload s1 = content @ rest" "ending s1 = ending (rx w)"
    by (rule PutFile_head [OF pay len(1) path])
  have sz: "sint (of_nat (length content) :: clong) = int (length content)"
    using len(2) by (simp add: INT_MAX_def sint_of_nat_clong)
  obtain s2 where "store_upload K path [O_RDWR, O_CREAT, O_TRUNC] (int (length content)) (w\<lparr>rx := s1\<rparr>)
      = (Inr 0, w\<lparr>rx := s1, rx := s2,
          ops := ops (w\<lparr>rx := s1\<rparr>) @ upload_ops path [O_RDWR, O_CREAT, O_TRUNC] fd content\<rparr>)"
    "payload s2 = rest" "ending s2 = ending s1"
    by (rule store_upload_run [of "w\<lparr>rx := s1\<rparr>" content rest K path _ fd mem])
      (use s1(2) fd map in simp_all)
  with s1 sz that show ?thesis by simp
qed

lemma makeDir_run:
  assumes "path_ok (clientPath w) base" "cstr (p_data cmd) = Some arg"
    "length base + 1 + length arg < MAX_PATH_LEN" "flowing (plan w)"
  shows "\<exists>p'. makeDir K cmd w =
    (Inr (k_mkdir K (ops w) (base @ ''/'' @ arg)),
     w\<lparr>ops := ops w @ [OpMkdir (base @ ''/'' @ arg) (k_mkdir K (ops w) (base @ ''/'' @ arg))],
       plan := p', txed := txed w @
         (if k_mkdir K (ops w) (base @ ''/'' @ arg) = -1
          then signal_bytes CMD_FAILURE ''Failed to create directory''
          else signal_bytes CMD_SUCCESS ''Directory created successfully'')\<rparr>) \<and> flowing p'"
proof -
  let ?full = "base @ ''/'' @ arg"
  let ?r = "k_mkdir K (ops w) ?full"
  let ?w = "w\<lparr>ops := ops w @ [OpMkdir ?full ?r]\<rparr>"
  have base: "cstr (clientPath w) = Some base" using assms(1) by (simp add: path_ok_def)
  have "no_nul ?full" using cstr_no_nul [OF base] cstr_no_nul [OF assms(2)] by simp
  then have full: "cstr (snprintf (replicate MAX_PATH_LEN NUL) ?full) = Some ?full"
    using snprintf_sized [of "replicate MAX_PATH_LEN NUL" MAX_PATH_LEN ?full] assms(3) by simp
  have fl: "flowing (plan ?w)" using assms(4) by simp
  have len: "int (length ''Failed to create directory'') \<le> INT_MAX"
    "int (length ''Directory created successfully'') \<le> INT_MAX" by (simp_all add: INT_MAX_def)
  obtain p1 where p1: "sendSignal (Some ''Failed to create directory'') CMD_FAILURE ?w
      = (Inr 0, ?w\<lparr>plan := p1, txed := txed ?w @ signal_bytes CMD_FAILURE ''Failed to create directory''\<rparr>)"
    "flowing p1" by (rule sendSignal_ok [OF fl len(1)])
  obtain p2 where p2: "sendSignal (Some ''Directory created successfully'') CMD_SUCCESS ?w
      = (Inr 0, ?w\<lparr>plan := p2, txed := txed ?w @ signal_bytes CMD_SUCCESS ''Directory created successfully''\<rparr>)"
    "flowing p2" by (rule sendSignal_ok [OF fl len(2)])
  have short: "\<not> MAX_PATH_LEN \<le> length ?full" using assms(3) by simp
  have "makeDir K cmd w = (if ?r = -1
      then next_do (sendSignal (Some ''Failed to create directory'') CMD_FAILURE) (ret (-1)) ?w
      else next_do (sendSignal (Some ''Directory created successfully'') CMD_SUCCESS) (ret ?r) ?w)"
    unfolding makeDir_def Let_def bnd_simps base assms(2) if_not_P [OF short] full sys_mkdir_run
    by simp
  moreover have "next_do (sendSignal (Some ''Failed to create directory'') CMD_FAILURE) (ret (-1)) ?w
      = (Inr (-1), ?w\<lparr>plan := p1, txed := txed ?w @ signal_bytes CMD_FAILURE ''Failed to create directory''\<rparr>)"
    "next_do (sendSignal (Some ''Directory created successfully'') CMD_SUCCESS) (ret ?r) ?w
      = (Inr ?r, ?w\<lparr>plan := p2, txed := txed ?w @ signal_bytes CMD_SUCCESS ''Directory created successfully''\<rparr>)"
    by (simp_all only: next_do_def bnd_def p1(1) p2(1) prod.case sum.case ret_run)
  ultimately have "makeDir K cmd w = (Inr ?r, ?w\<lparr>plan := if ?r = -1 then p1 else p2, txed := txed w @
      (if ?r = -1 then signal_bytes CMD_FAILURE ''Failed to create directory''
       else signal_bytes CMD_SUCCESS ''Directory created successfully'')\<rparr>)"
    by (cases "?r = -1") simp_all
  with p1(2) p2(2) show ?thesis by (intro exI [of _ "if ?r = -1 then p1 else p2"]) simp
qed

text \<open>\<open>GetFile\<close> up to the \<open>open\<close>.\<close>

lemma GetFile_name:
  assumes "cstr (p_data cmd) = Some path" "length path < DATA_SIZE"
  shows "GetFile K cmd =
    bnd (send1 (frame path)) (\<lambda>r1.
     if r1 < 0 then ret (-1)
     else
       bnd (sys_open K path [O_RDWR]) (\<lambda>fd.
       if fd = -1 then halt (Exits 1)
       else
         bnd (reads (\<lambda>w. k_size K (ops w) fd)) (\<lambda>st_size.
         bnd (send1 (frame (le64 (word_of_int st_size)))) (\<lambda>r2.
         next_do (log_op (OpClose fd)) (if r2 < 0 then ret (-1) else ret 0)))))"
proof -
  let ?data = "path @ NUL # drop (Suc (length path)) (t_data zero_train)"
  have "size_t_of (of_nat (length path) + 1) = int (Suc (length path))"
    using size_t_of_nat_small [of "Suc (length path)"] assms(2) by (simp add: INT_MAX_def add.commute)
  then have m1: "memcpy (t_data zero_train) (path @ [NUL]) (of_nat (length path) + 1) = Some ?data"
    using memcpy_at [of _ "Suc (length path)" "path @ [NUL]" "t_data zero_train"] assms(2) by simp
  have t1: "take (4 + length path) (le32 (of_nat (length path)) @ ?data) = frame path"
    by (simp add: frame_def)
  have "size_t_of 8 = int 8" using size_t_of_nat_small [of 8] by (simp add: INT_MAX_def)
  then have m2: "memcpy ?data (le64 n) 8 = Some (le64 n @ drop 8 ?data)" for n
    using memcpy_at [of 8 8 "le64 n" ?data] assms(2) by simp
  have t2: "take 12 (le32 8 @ le64 n @ drop 8 ?data) = frame (le64 n)" for n
    by (simp add: frame_def)
  show ?thesis
    unfolding GetFile_def assms(1) bnd_Some m1 m2 t1 t2 ..
qed

lemma send1_takes:
  "plan w = TxTake k # ps \<Longrightarrow> length d \<le> k \<Longrightarrow>
   send1 d w = (Inr (int (length d)), w\<lparr>plan := ps, txed := txed w @ d\<rparr>)"
  by (simp add: send1_def min_def)

lemma send1_idle: "plan w = [] \<Longrightarrow> send1 d w = (Inr (int (length d)), w\<lparr>plan := [], txed := txed w @ d\<rparr>)"
  by (simp add: send1_def)

lemma GetFile_missing_run:
  assumes "cstr (p_data cmd) = Some path" "length path < DATA_SIZE" "plan w = []"
    "k_open K (ops w) path [O_RDWR] = -1"
  shows "GetFile K cmd w
    = (Inl (Exits 1), w\<lparr>plan := [], txed := txed w @ frame path, ops := ops w @ [OpOpen path [O_RDWR] (-1)]\<rparr>)"
  using assms(3,4)
  by (simp add: GetFile_name [OF assms(1,2)] bnd_def [of "send1 (frame path)"] send1_idle run)

lemma GetFile_found_run:
  assumes "cstr (p_data cmd) = Some path" "length path < DATA_SIZE" "plan w = []"
    "k_open K (ops w) path [O_RDWR] = fd" "fd \<noteq> -1"
    "k_size K (ops w @ [OpOpen path [O_RDWR] fd]) fd = sz"
  shows "GetFile K cmd w
    = (Inr 0, w\<lparr>ops := ops w @ [OpOpen path [O_RDWR] fd, OpClose fd], plan := [],
        txed := txed w @ frame path @ frame (le64 (word_of_int sz))\<rparr>)"
  using assms(3-6)
  by (simp add: GetFile_name [OF assms(1,2)] bnd_def [of "send1 d" for d] send1_idle run)

section \<open>Properties\<close>

text \<open>
  C33. \<open>mkdir\<close>: the server asks the system for exactly the directory \<open>clientPath/argument\<close>, returns
  what the system returns and reports it: a signal with \<open>CMD_SUCCESS\<close> or \<open>CMD_FAILURE\<close> and the
  matching text is sent in full, however little each \<open>send\<close> takes; \<open>clientPath\<close> and the unread
  input are left alone.
\<close>

theorem makeDir_reports:
  assumes "path_ok (clientPath w) base" "cstr (p_data cmd) = Some arg"
    "length base + 1 + length arg < MAX_PATH_LEN" "flowing (plan w)"
  shows "\<exists>w'. makeDir K cmd w = (Inr (k_mkdir K (ops w) (base @ ''/'' @ arg)), w') \<and>
    ops w' = ops w @ [OpMkdir (base @ ''/'' @ arg) (k_mkdir K (ops w) (base @ ''/'' @ arg))] \<and>
    txed w' = txed w @
      (if k_mkdir K (ops w) (base @ ''/'' @ arg) = -1
       then signal_bytes CMD_FAILURE ''Failed to create directory''
       else signal_bytes CMD_SUCCESS ''Directory created successfully'') \<and>
    clientPath w' = clientPath w \<and> rx w' = rx w"
  using makeDir_run [OF assms, of K] by (auto intro: exI)

definition path_packet :: "CommandCode \<Rightarrow> string \<Rightarrow> packetCmd" where
  "path_packet c arg = \<lparr>cmdCode = code_word c, argFlag = 1, p_length = of_nat (length arg), p_data = fit DATA_SIZE arg\<rparr>"

theorem makeDir_reports_witness:
  "\<exists>w'. makeDir calm_kernel (path_packet REQ_MKDIR ''docs'')
      \<lparr>rx = [], plan = [TxTake 5, TxFail EINTR], txed = [], ops = [], clientPath = clientPath_start\<rparr> = (Inr 0, w') \<and>
    ops w' = [OpMkdir (home_prefix @ ''/'' @ ''docs'') 0] \<and>
    txed w' = signal_bytes CMD_SUCCESS ''Directory created successfully''"
proof -
  have "fit DATA_SIZE ''docs'' = ''docs'' @ NUL # replicate 1019 NUL"
    by (simp add: fit_def flip: replicate_Suc)
  then have "cstr (p_data (path_packet REQ_MKDIR ''docs'')) = Some ''docs''"
    using cstr_terminated [of "''docs''" "replicate 1019 NUL"] by (simp add: path_packet_def)
  from makeDir_reports [OF _ this, of "\<lparr>rx = [], plan = [TxTake 5, TxFail EINTR], txed = [], ops = [],
      clientPath = clientPath_start\<rparr>" home_prefix calm_kernel]
  show ?thesis
    by (simp add: clientPath_start_ok flowing_def calm_kernel_def) (auto simp: home_prefix_def)
qed

text \<open>
  \<open>cd\<close>, \<open>ls\<close>, \<open>pwd\<close> and \<open>rm\<close> are silent: whatever they do, they send nothing to the client, read
  nothing from it and leave \<open>clientPath\<close> alone (so \<open>cd\<close> has no effect).
\<close>

lemma silent_commands:
  assumes "cmdCode cmd = code_word c" "c \<in> {REQ_CD, REQ_LS, REQ_PWD, REQ_RM}"
  shows "txed (snd (cmdParse K cmd w)) = txed w \<and> rx (snd (cmdParse K cmd w)) = rx w \<and>
    plan (snd (cmdParse K cmd w)) = plan w \<and> clientPath (snd (cmdParse K cmd w)) = clientPath w"
  using cmdParse_silent [OF assms] cmdParse_clientPath by (blast intro: keeps_apply)

lemma silent_commands_example:
  "txed (snd (cmdParse calm_kernel (path_packet REQ_RM ''a'')
      \<lparr>rx = [], plan = [], txed = [], ops = [], clientPath = clientPath_start\<rparr>)) = []"
  using silent_commands [of "path_packet REQ_RM ''a''" REQ_RM calm_kernel
      "\<lparr>rx = [], plan = [], txed = [], ops = [], clientPath = clientPath_start\<rparr>"]
  by (simp add: path_packet_def)

text \<open>
  \<open>rm\<close> has nothing to do with the session directory: the path in the packet, absolute or relative to
  the directory the server was started in, goes to \<open>unlink\<close> as it is.
\<close>

lemma rm_any_path:
  assumes "cmdCode cmd = code_word REQ_RM" "cstr (p_data cmd) = Some path"
  shows "ops (snd (cmdParse K cmd w)) = ops w @ [OpUnlink path (k_unlink K (ops w) path)]"
proof -
  have "removeFile K cmd w = (Inr (if k_unlink K (ops w) path = -1 then -1 else 0),
      w\<lparr>ops := ops w @ [OpUnlink path (k_unlink K (ops w) path)]\<rparr>)"
    by (simp add: removeFile_def assms(2) run)
  then show ?thesis by (simp add: cmdParse_def assms(1) next_do_def bnd_def run)
qed

lemma rm_any_path_example:
  "ops (snd (cmdParse calm_kernel (path_packet REQ_RM ''/a'') (server_with [] clientPath_start))) = [OpUnlink ''/a'' 0]"
proof -
  have p: "cstr (p_data (path_packet REQ_RM ''/a'')) = Some ''/a''" "cmdCode (path_packet REQ_RM ''/a'') = code_word REQ_RM"
    using cstr_terminated [of "''/a''" "replicate 1021 NUL"]
    by (simp_all add: path_packet_def fit_def flip: replicate_Suc)
  have "k_unlink calm_kernel h f = 0" for h f by (simp add: calm_kernel_def)
  with rm_any_path [OF p(2,1), of calm_kernel "server_with [] clientPath_start"] show ?thesis by simp
qed

text \<open>
  No command changes the session directory: \<open>clientPath\<close> is the same after any packet, whether
  the handler returns, fails or ends the process.
\<close>

lemma cmdParse_keeps_path:
  "clientPath (snd (cmdParse K cmd w)) = clientPath w"
  by (rule keeps_apply [OF cmdParse_clientPath])

text \<open>
  Upload: when a name, a size and that many bytes arrive, in any segmentation, \<open>PutFile\<close>
  consumes exactly these, opens (creating and truncating) the file, gives it that size, stores
  exactly these bytes and closes it. The name used is what the uninitialised array
  \<open>filename\<close> holds after the received bytes are copied over it, up to the first NUL.
\<close>

lemma PutFile_stores:
  assumes "payload (rx w) = frame name @ frame (le64 (of_nat (length content))) @ content @ rest"
    "length name \<le> 256" "int (length content) \<le> INT_MAX"
    "cstr (name @ drop (length name) (fit 256 (k_stack K (ops w) 256))) = Some path"
    "k_open K (ops w) path [O_RDWR, O_CREAT, O_TRUNC] = fd" "fd \<noteq> -1"
    "k_map K (ops w @ [OpOpen path [O_RDWR, O_CREAT, O_TRUNC] fd, OpTruncate fd (int (length content))])
        fd (int (length content)) = Some mem"
  shows "\<exists>w'. PutFile K cmd w = (Inr 0, w') \<and> payload (rx w') = rest \<and> txed w' = txed w \<and>
    ops w' = ops w @ [OpOpen path [O_RDWR, O_CREAT, O_TRUNC] fd, OpTruncate fd (int (length content)),
       OpMap fd (int (length content)), OpStore fd content, OpClose fd]"
  by (rule PutFile_run [OF assms, of cmd]) (auto simp: upload_ops_def)

lemma PutFile_stores_example:
  "\<exists>w'. PutFile calm_kernel (path_packet REQ_PUT ''a'')
      \<lparr>rx = cut 7 (frame ''a'' @ frame (le64 (of_nat (length ''xyz''))) @ ''xyz'' @ []), plan = [], txed = [],
       ops = [], clientPath = clientPath_start\<rparr> = (Inr 0, w') \<and>
    ops w' = [OpOpen ''a'' [O_RDWR, O_CREAT, O_TRUNC] 5, OpTruncate 5 3, OpMap 5 3, OpStore 5 ''xyz'', OpClose 5]"
proof -
  let ?w = "\<lparr>rx = cut 7 (frame ''a'' @ frame (le64 (of_nat (length ''xyz''))) @ ''xyz'' @ []), plan = [],
      txed = [], ops = [], clientPath = clientPath_start\<rparr>"
  have "cstr (''a'' @ drop (length ''a'') (fit 256 (k_stack calm_kernel (ops ?w) 256))) = Some ''a''"
    using cstr_terminated [of "''a''" "replicate 254 NUL"]
    by (simp add: fit_def calm_kernel_def flip: replicate_Suc)
  from PutFile_stores [OF _ _ _ this, of "''xyz''" "[]" 5 "[]" "path_packet REQ_PUT ''a''"]
  show ?thesis by (simp only: proc.simps payload_cut) (auto simp: calm_kernel_def INT_MAX_def)
qed

text \<open>
  An upload of an empty file ends the whole server process: \<open>mmap\<close> with length 0 fails, as it is
  documented to, and \<open>ERROR_CHECK\<close> calls \<open>exit(1)\<close>. The file has been created by then.
\<close>

lemma empty_upload_exits:
  assumes "cmdCode cmd = code_word REQ_PUT" "payload (rx w) = frame name @ frame (le64 0) @ rest" "length name \<le> 256"
    and "cstr (name @ drop (length name) (fit 256 (k_stack K (ops w) 256))) = Some path"
    and "k_open K (ops w) path [O_RDWR, O_CREAT, O_TRUNC] \<noteq> -1" "\<forall>h fd. k_map K h fd 0 = None"
  shows "fst (cmdParse K cmd w) = Inl (Exits 1)"
proof -
  obtain s where "PutFile K cmd w = store_upload K path [O_RDWR, O_CREAT, O_TRUNC] (sint (0 :: clong)) (w\<lparr>rx := s\<rparr>)"
    by (rule PutFile_head [OF assms(2-4)])
  moreover have "fst (store_upload K path [O_RDWR, O_CREAT, O_TRUNC] 0 (w\<lparr>rx := s\<rparr>)) = Inl (Exits 1)"
    using assms(5,6) by (intro store_upload_unmapped) simp_all
  ultimately obtain w' where "PutFile K cmd w = (Inl (Exits 1), w')"
    by (metis prod.collapse signed_0)
  then show ?thesis by (simp add: cmdParse_def assms(1) next_do_halt)
qed

lemma empty_upload_exits_example:
  "fst (cmdParse calm_kernel (path_packet REQ_PUT ''a'')
      (server_with (frame ''a'' @ frame (le64 0) @ []) clientPath_start)) = Inl (Exits 1)"
proof -
  let ?w = "server_with (frame ''a'' @ frame (le64 0) @ []) clientPath_start"
  have "cstr (''a'' @ drop (length ''a'') (fit 256 (k_stack calm_kernel (ops ?w) 256))) = Some ''a''"
    using cstr_terminated [of "''a''" "replicate 254 NUL"]
    by (simp add: fit_def calm_kernel_def flip: replicate_Suc)
  from empty_upload_exits [OF _ _ _ this, of "path_packet REQ_PUT ''a''" "[]"]
  show ?thesis by (simp add: calm_kernel_def path_packet_def)
qed

text \<open>
  A file name of more than 256 bytes (the protocol allows 1024) makes \<open>PutFile\<close> write past its
  local array.
\<close>

lemma PutFile_overflow:
  assumes "payload (rx w) = frame name @ rest" "256 < length name" "length name \<le> DATA_SIZE"
  shows "fst (PutFile K cmd w) = Inl OutOfBounds"
proof -
  let ?t = "\<lparr>t_length = of_nat (length name), t_data = name @ drop (length name) (t_data zero_train)\<rparr>"
  have len: "length name \<le> length (t_data zero_train)" "int (length name) \<le> INT_MAX"
    using assms(3) by (simp_all add: INT_MAX_def)
  obtain s1 where s1: "recv_train zero_train w = (Inr ?t, w\<lparr>rx := s1\<rparr>)"
    by (rule recv_train_frame [OF assms(1) len])
  have "memcpy (fit 256 (k_stack K (ops w) 256)) (t_data ?t) (t_length ?t) = None"
    using assms(2) len(2) by (intro memcpy_out_dst) (simp add: size_t_of_nat_small)
  with s1 show ?thesis by (simp add: PutFile_def run bnd_def)
qed

lemma PutFile_overflow_example:
  "fst (PutFile calm_kernel (path_packet REQ_PUT ''a'')
      (server_with (frame (replicate 300 CHR ''a'') @ []) clientPath_start)) = Inl OutOfBounds"
  by (rule PutFile_overflow [where name = "replicate 300 CHR ''a''" and rest = "[]"]) simp_all

text \<open>
  Download of an existing file: \<open>GetFile\<close> sends the frame of the name and the frame of the size
  and nothing else; the contents of the file are never read, let alone sent.
\<close>

lemma GetFile_sends:
  assumes "cstr (p_data cmd) = Some path" "length path < DATA_SIZE" "plan w = []"
    "k_open K (ops w) path [O_RDWR] = fd" "fd \<noteq> -1"
    "k_size K (ops w @ [OpOpen path [O_RDWR] fd]) fd = sz"
  shows "\<exists>w'. GetFile K cmd w = (Inr 0, w') \<and>
    txed w' = txed w @ frame path @ frame (le64 (word_of_int sz)) \<and>
    ops w' = ops w @ [OpOpen path [O_RDWR] fd, OpClose fd] \<and> rx w' = rx w"
  using GetFile_found_run [OF assms] by simp

lemma GetFile_sends_example:
  "\<exists>w'. GetFile calm_kernel (path_packet REQ_GET ''a'') (server_with [] clientPath_start) = (Inr 0, w') \<and>
    txed w' = frame ''a'' @ frame (le64 0)"
proof -
  have "cstr (p_data (path_packet REQ_GET ''a'')) = Some ''a''"
    using cstr_terminated [of "''a''" "replicate 1022 NUL"]
    by (simp add: path_packet_def fit_def flip: replicate_Suc)
  from GetFile_sends [OF this, of "server_with [] clientPath_start" calm_kernel 5 0]
  show ?thesis by (simp add: calm_kernel_def) blast
qed

text \<open>
  Download of a file that cannot be opened: the handler does not answer with an error but ends
  the whole server process, with all sessions, by \<open>exit(1)\<close>.
\<close>

lemma GetFile_missing_exits:
  assumes "cstr (p_data cmd) = Some path" "length path < DATA_SIZE" "plan w = []"
    "k_open K (ops w) path [O_RDWR] = -1" "cmdCode cmd = code_word REQ_GET"
  shows "fst (cmdParse K cmd w) = Inl (Exits 1)"
  using GetFile_missing_run [OF assms(1-4)] assms(5)
  by (simp add: cmdParse_def next_do_def bnd_def)

lemma GetFile_missing_exits_example:
  "fst (cmdParse (calm_kernel\<lparr>k_open := \<lambda>h p fl. -1\<rparr>) (path_packet REQ_GET ''a'')
    (server_with [] clientPath_start)) = Inl (Exits 1)"
proof -
  have "cstr (p_data (path_packet REQ_GET ''a'')) = Some ''a''"
    using cstr_terminated [of "''a''" "replicate 1022 NUL"]
    by (simp add: path_packet_def fit_def flip: replicate_Suc)
  then show ?thesis
    by (rule GetFile_missing_exits) (simp_all add: path_packet_def)
qed

end
