(* ===== verification/Client_Handle.thy ===== *)
theory Client_Handle
  imports Authentication Cmd_Handle
begin

text \<open>
  A session on the server: \<open>recvCmd\<close> of \<open>server/recvCmd.c\<close> and \<open>handleClient\<close> of
  \<open>server/clientHandle.c\<close>, which a worker runs for each connection it takes: log in, register the
  connection with an epoll instance, serve commands until the client leaves, close.
\<close>

section \<open>The session loop\<close>

text \<open>What one \<open>epoll_wait\<close> returns: an error or the descriptors that are ready.\<close>

datatype poll = PollFail errno | PollReady "int list"

text \<open>\<open>hdr\<close> is the memory of the packet before.\<close>

definition recvCmd :: "char list \<Rightarrow> ('z proc_scheme, int \<times> char list) prog" where
  "recvCmd hdr =
     bnd (recvn hdr (int PACKET_SIZE)) (\<lambda>(recv_ret, bs).
     if recv_ret < 0 then ret (-1, bs)
     else if recv_ret = 0 then ret (0, bs)
     else ret (recv_ret, bs))"

text \<open>One ready descriptor; the result says whether to close. \<open>printf\<close> reads the argument of a
  packet that has one.\<close>

definition serve_event :: "kernel \<Rightarrow> int \<Rightarrow> int \<Rightarrow> ('z server_scheme, bool) prog" where
  "serve_event K clientFd ready =
     (if ready \<noteq> clientFd then ret False
      else
        bnd (stack_bytes K PACKET_SIZE) (\<lambda>hdr.
        bnd (recvCmd hdr) (\<lambda>(r, bs).
        if r = 0 then ret True
        else if r < 0 then ret True
        else
          (let cmd = dec_packet bs in
           next_do (if argFlag cmd = 1 then bnd (in_bounds (cstr (p_data cmd))) (\<lambda>_. ret ()) else ret ())
           (next_do (cmdParse K cmd) (ret False))))))"

fun serve_ready :: "kernel \<Rightarrow> int \<Rightarrow> int list \<Rightarrow> ('z server_scheme, bool) prog" where
  "serve_ready K clientFd [] = ret False"
| "serve_ready K clientFd (e # es) =
     bnd (serve_event K clientFd e) (\<lambda>shouldClose.
     if shouldClose then ret True else serve_ready K clientFd es)"

text \<open>The loop around \<open>epoll_wait\<close>; it waits for good when there are no more events.\<close>

fun serve_loop :: "kernel \<Rightarrow> int \<Rightarrow> poll list \<Rightarrow> ('z server_scheme, unit) prog" where
  "serve_loop K clientFd [] = halt Blocks"
| "serve_loop K clientFd (PollFail EINTR # ps) = serve_loop K clientFd ps"
| "serve_loop K clientFd (PollFail EOTHER # ps) = ret ()"
| "serve_loop K clientFd (PollReady es # ps) =
     bnd (serve_ready K clientFd es) (\<lambda>shouldClose.
     if shouldClose then ret () else serve_loop K clientFd ps)"

text \<open>\<open>handleClient\<close> after the login.\<close>

definition serve_session :: "kernel \<Rightarrow> int \<Rightarrow> poll list \<Rightarrow> ('z server_scheme, unit) prog" where
  "serve_session K clientFd ps =
     bnd (reads (\<lambda>w. k_epoll_create K (ops w))) (\<lambda>epfd.
     next_do (log_op (OpEpollCreate epfd))
     (if epfd < 0 then log_op (OpClose clientFd)
      else
        bnd (reads (\<lambda>w. k_epoll_add K (ops w) epfd clientFd)) (\<lambda>added.
        next_do (log_op (OpEpollAdd epfd clientFd added))
        (if added < 0 then next_do (log_op (OpClose epfd)) (log_op (OpClose clientFd))
         else
           next_do (serve_loop K clientFd ps)
             (next_do (log_op (OpClose epfd)) (log_op (OpClose clientFd)))))))"

text \<open>\<open>None\<close> is a login that never ends.\<close>

definition handleClient ::
  "kernel \<Rightarrow> (string \<Rightarrow> string option) \<Rightarrow> int \<Rightarrow> poll list \<Rightarrow> server \<Rightarrow> ((stop + unit) \<times> server) option"
where
  "handleClient K shadow clientFd ps w =
     (case handle_authen_event shadow w of
        None \<Rightarrow> None
      | Some (Inl e, w1) \<Rightarrow> Some (Inl e, w1)
      | Some (Inr r, w1) \<Rightarrow>
          Some ((if r \<noteq> 0 then log_op (OpClose clientFd) else serve_session K clientFd ps) w1))"

section \<open>Serving a sequence of commands\<close>

text \<open>What the commands do, one after the other, without any socket input.\<close>

fun do_cmds :: "kernel \<Rightarrow> packetCmd list \<Rightarrow> ('z server_scheme, unit) prog" where
  "do_cmds K [] = ret ()"
| "do_cmds K (c # cs) = next_do (cmdParse K c) (do_cmds K cs)"

text \<open>A packet as the client fills it in, of a command that reads nothing more from the socket.\<close>

definition plain_cmd :: "packetCmd \<Rightarrow> bool" where
  "plain_cmd c \<longleftrightarrow> packet_ok c \<and> cmdCode c \<noteq> code_word REQ_PUT \<and>
     (argFlag c = 1 \<longrightarrow> NUL \<in> set (p_data c))"

text \<open>What a client may ask for in full: a command, or an upload with its name and contents.\<close>

datatype request = Command packetCmd | Upload packetCmd string "char list"

fun request_ok :: "request \<Rightarrow> bool" where
  "request_ok (Command c) = plain_cmd c"
| "request_ok (Upload c name content) \<longleftrightarrow>
     packet_ok c \<and> cmdCode c = code_word REQ_PUT \<and> (argFlag c = 1 \<longrightarrow> NUL \<in> set (p_data c)) \<and>
     length name \<le> 256 \<and> int (length content) \<le> INT_MAX"

fun request_bytes :: "request \<Rightarrow> char list" where
  "request_bytes (Command c) = enc_packet c"
| "request_bytes (Upload c name content) =
     enc_packet c @ frame name @ frame (le64 (of_nat (length content))) @ content"

text \<open>What the server does for it, without any socket input: an upload stores its contents under the
  received name, or what is left of it over the uninitialised array.\<close>

definition store_data :: "kernel \<Rightarrow> string \<Rightarrow> char list \<Rightarrow> ('z proc_scheme, unit) prog" where
  "store_data K name content =
     bnd (stack_bytes K 256) (\<lambda>filename.
     bnd (in_bounds (cstr (name @ drop (length name) filename))) (\<lambda>path.
     bnd (sys_open K path [O_RDWR, O_CREAT, O_TRUNC]) (\<lambda>fd.
     if fd = -1 then halt (Exits 1)
     else
       next_do (log_op (OpTruncate fd (int (length content))))
       (bnd (sys_map K fd (int (length content))) (\<lambda>m.
        (case m of
           None \<Rightarrow> halt (Exits 1)
         | Some _ \<Rightarrow> next_do (log_op (OpStore fd content)) (log_op (OpClose fd))))))))"

fun do_request :: "kernel \<Rightarrow> request \<Rightarrow> ('z server_scheme, unit) prog" where
  "do_request K (Command c) = next_do (cmdParse K c) (ret ())"
| "do_request K (Upload c name content) = store_data K name content"

fun do_requests :: "kernel \<Rightarrow> request list \<Rightarrow> ('z server_scheme, unit) prog" where
  "do_requests K [] = ret ()"
| "do_requests K (r # rs) = next_do (do_request K r) (do_requests K rs)"

lemma next_do_assoc: "next_do (next_do m n) k = next_do m (next_do n k)"
  by (simp add: next_do_def bnd_assoc)

lemma do_requests_commands: "do_requests K (map Command cs) = do_cmds K cs"
proof (induction cs)
  case (Cons c cs)
  have "next_do (ret ()) n = n" for n :: "('a server_scheme, unit) prog" by (rule ext) (simp add: run)
  with Cons show ?case by (simp add: next_do_assoc)
qed simp

lemma do_request_blind: "request_ok r \<Longrightarrow> blind (do_request K r)"
  by (cases r) (auto simp: plain_cmd_def store_data_def stack_bytes_def sys_map_def intro!: deaf cmdParse_blind)

lemma do_requests_blind: "list_all request_ok rs \<Longrightarrow> blind (do_requests K rs)"
  by (induction rs) (auto intro!: deaf do_request_blind)

lemma do_requests_path: "keeps clientPath (do_requests K rs)"
proof (induction rs)
  case (Cons r rs)
  have "keeps clientPath (do_request K r)"
    by (cases r) (auto simp: store_data_def intro!: keep cmdParse_clientPath)
  with Cons show ?case by (auto intro!: keep)
qed (simp add: keep)

lemma PutFile_stores_data:
  assumes "store_data K name content w = (Inr (), w1)" "request_ok (Upload c name content)"
    "payload (rx w) = frame name @ frame (le64 (of_nat (length content))) @ content @ rest"
  obtains s where "PutFile K c w = (Inr 0, w1\<lparr>rx := s\<rparr>)" "payload s = rest" "ending s = ending (rx w)"
proof -
  let ?fl = "[O_RDWR, O_CREAT, O_TRUNC]"
  from assms(1) obtain path where path: "cstr (name @ drop (length name) (fit 256 (k_stack K (ops w) 256))) = Some path"
    by (auto simp: store_data_def run in_bounds_def split: option.splits)
  define fd where "fd = k_open K (ops w) path ?fl"
  from assms(1) path have fd: "fd \<noteq> -1" by (auto simp: store_data_def run fd_def)
  with assms(1) path obtain mem where map: "k_map K (ops w @ [OpOpen path ?fl fd, OpTruncate fd (int (length content))])
      fd (int (length content)) = Some mem" by (auto simp: store_data_def run fd_def split: option.splits)
  have "w1 = w\<lparr>ops := ops w @ upload_ops path ?fl fd content\<rparr>"
    using assms(1) path fd map by (auto simp: store_data_def run fd_def upload_ops_def)
  moreover obtain s where "PutFile K c w = (Inr 0, w\<lparr>rx := s, ops := ops w @ upload_ops path ?fl fd content\<rparr>)"
    "payload s = rest" "ending s = ending (rx w)"
    by (rule PutFile_run [OF assms(3) _ _ path fd_def [symmetric] fd map]) (use assms(2) in auto)
  moreover have "w\<lparr>rx := s, ops := h\<rparr> = w\<lparr>ops := h, rx := s\<rparr>" for h by (cases w) simp
  ultimately show ?thesis using that by simp
qed

text \<open>Interrupted waits do not matter.\<close>

lemma serve_loop_interrupted:
  "serve_loop K fd ps = serve_loop K fd (filter (\<lambda>p. p \<noteq> PollFail EINTR) ps)"
proof (induction K fd ps rule: serve_loop.induct)
  case (4 K clientFd es ps)
  from "4.IH" [of False] show ?case by (simp cong: if_cong)
qed simp_all

lemma recvCmd_packet:
  assumes "packet_ok c" "length hdr = PACKET_SIZE" "payload (rx w) = enc_packet c @ rest"
  obtains s where "recvCmd hdr w = (Inr (int PACKET_SIZE, enc_packet c), w\<lparr>rx := s\<rparr>)"
    "payload s = rest" "ending s = ending (rx w)"
proof -
  have "int PACKET_SIZE \<le> INT_MAX" by (simp add: INT_MAX_def)
  then obtain s where "recvn hdr (int PACKET_SIZE) w = (Inr (int PACKET_SIZE, enc_packet c), w\<lparr>rx := s\<rparr>)"
    "payload s = rest" "ending s = ending (rx w)"
    by (rule packet_image.recvn_image [OF assms(1,2) _ assms(3)])
  with that show ?thesis by (simp add: recvCmd_def bnd_def run)
qed

text \<open>What comes in where the stream ends or fails with less than a packet: nothing that is acted on.\<close>

lemma recvCmd_short:
  assumes "length hdr = PACKET_SIZE" "length (payload (rx w)) < PACKET_SIZE" "ending (rx w) \<noteq> RxWaits"
  obtains r h s where "recvCmd hdr w = (Inr (r, h), w\<lparr>rx := s\<rparr>)" "r \<le> 0"
proof -
  have "PACKET_SIZE \<le> length hdr" using assms(1) by simp
  then obtain s where "recvn hdr (int PACKET_SIZE) w = (short_result (ending (rx w))
      (payload (rx w) @ drop (length (payload (rx w))) hdr), w\<lparr>rx := s\<rparr>)" using assms(2) by (rule recvn_short)
  with that assms(3) show ?thesis
    by (cases "ending (rx w)") (simp_all add: recvCmd_def bnd_def run short_result_def)
qed

lemma serve_event_packet:
  assumes "packet_ok c" "argFlag c = 1 \<longrightarrow> NUL \<in> set (p_data c)" "payload (rx w) = enc_packet c @ rest"
  obtains s where "serve_event K fd fd w = next_do (cmdParse K c) (ret False) (w\<lparr>rx := s\<rparr>)"
    "payload s = rest" "ending s = ending (rx w)"
proof -
  let ?hdr = "fit PACKET_SIZE (k_stack K (ops w) PACKET_SIZE)"
  obtain s where s: "recvCmd ?hdr w = (Inr (int PACKET_SIZE, enc_packet c), w\<lparr>rx := s\<rparr>)"
    "payload s = rest" "ending s = ending (rx w)"
    by (rule recvCmd_packet [OF assms(1) length_fit assms(3)])
  from assms(2) have "argFlag c = 1 \<longrightarrow> (\<exists>a. cstr (p_data c) = Some a)" by (simp add: cstr_def)
  with s(1) have "serve_event K fd fd w = next_do (cmdParse K c) (ret False) (w\<lparr>rx := s\<rparr>)"
    by (auto simp: serve_event_def run bnd_def [of "recvCmd h" for h] packet_image.dec_enc [OF assms(1)]
        next_do_def [of "bnd m f" for m f] bnd_assoc)
  with s that show ?thesis by blast
qed

text \<open>A packet that asks for a directory.\<close>

lemma mkdir_served:
  assumes "packet_ok cmd" "cmdCode cmd = code_word REQ_MKDIR" "cstr (p_data cmd) = Some arg"
    "payload (rx s) = enc_packet cmd @ later" "flowing (plan s)"
    "path_ok (clientPath s) base" "length base + 1 + length arg < MAX_PATH_LEN"
  obtains r p where "payload r = later"
    "serve_event K fd fd s = (Inr False, s\<lparr>rx := r,
       ops := ops s @ [OpMkdir (base @ ''/'' @ arg) (k_mkdir K (ops s) (base @ ''/'' @ arg))], plan := p,
       txed := txed s @ (if k_mkdir K (ops s) (base @ ''/'' @ arg) = -1
         then signal_bytes CMD_FAILURE ''Failed to create directory''
         else signal_bytes CMD_SUCCESS ''Directory created successfully'')\<rparr>)"
proof -
  have nul: "argFlag cmd = 1 \<longrightarrow> NUL \<in> set (p_data cmd)" using assms(3) by (auto simp: cstr_Some_iff)
  obtain r where ev: "serve_event K fd fd s = next_do (cmdParse K cmd) (ret False) (s\<lparr>rx := r\<rparr>)"
    "payload r = later" by (rule serve_event_packet [OF assms(1) nul assms(4)])
  have "path_ok (clientPath (s\<lparr>rx := r\<rparr>)) base" "flowing (plan (s\<lparr>rx := r\<rparr>))"
    using assms(5,6) by simp_all
  from makeDir_run [OF this(1) assms(3,7) this(2), of K] ev that show ?thesis
    by (auto simp: cmdParse_def assms(2) next_do_def bnd_def run)
qed

lemma serve_packet:
  assumes "plain_cmd c" "payload (rx w) = enc_packet c @ rest" "cmdParse K c w = (Inr r, w1)"
  obtains s where "serve_event K fd fd w = (Inr False, w1\<lparr>rx := s\<rparr>)" "payload s = rest"
    "ending s = ending (rx w)"
proof -
  have c: "packet_ok c" "argFlag c = 1 \<longrightarrow> NUL \<in> set (p_data c)" "cmdCode c \<noteq> code_word REQ_PUT"
    using assms(1) by (simp_all add: plain_cmd_def)
  obtain s where s: "serve_event K fd fd w = next_do (cmdParse K c) (ret False) (w\<lparr>rx := s\<rparr>)"
    "payload s = rest" "ending s = ending (rx w)" by (rule serve_event_packet [OF c(1,2) assms(2)])
  have "cmdParse K c (w\<lparr>rx := s\<rparr>) = (Inr r, w1\<lparr>rx := s\<rparr>)"
    by (rule blind_run [OF cmdParse_blind [OF c(3)] assms(3)])
  with s that show ?thesis by (simp add: next_do_def bnd_def run)
qed

lemma serve_short:
  assumes "length (payload (rx w)) < PACKET_SIZE" "ending (rx w) \<noteq> RxWaits"
  obtains s where "serve_event K fd fd w = (Inr True, w\<lparr>rx := s\<rparr>)"
proof -
  let ?hdr = "fit PACKET_SIZE (k_stack K (ops w) PACKET_SIZE)"
  obtain r h s where "recvCmd ?hdr w = (Inr (r, h), w\<lparr>rx := s\<rparr>)" "r \<le> 0"
    by (rule recvCmd_short [OF length_fit assms])
  with that show ?thesis by (simp add: serve_event_def run bnd_def)
qed

lemma serve_request:
  assumes "request_ok r" "payload (rx w) = request_bytes r @ rest" "do_request K r w = (Inr (), w1)"
  obtains s where "serve_event K fd fd w = (Inr False, w1\<lparr>rx := s\<rparr>)" "payload s = rest"
    "ending s = ending (rx w)"
proof (cases r)
  case (Command c)
  with assms(3) obtain x where "cmdParse K c w = (Inr x, w1)" by (auto simp: run_iffs run)
  with assms(1,2) Command that show ?thesis using serve_packet [of c w rest K x w1 fd] by auto
next
  case (Upload c name content)
  with assms(1,2) have c: "packet_ok c" "argFlag c = 1 \<longrightarrow> NUL \<in> set (p_data c)" "cmdCode c = code_word REQ_PUT"
    and pay: "payload (rx w) = enc_packet c @ frame name @ frame (le64 (of_nat (length content))) @ content @ rest"
    by simp_all
  obtain s where s: "serve_event K fd fd w = next_do (cmdParse K c) (ret False) (w\<lparr>rx := s\<rparr>)"
    "payload s = frame name @ frame (le64 (of_nat (length content))) @ content @ rest" "ending s = ending (rx w)"
    by (rule serve_event_packet [OF c(1,2) pay])
  have "store_data K name content (w\<lparr>rx := s\<rparr>) = (Inr (), w1\<lparr>rx := s\<rparr>)"
    using blind_run [OF do_request_blind [OF assms(1)] assms(3)] Upload by simp
  then obtain t where "PutFile K c (w\<lparr>rx := s\<rparr>) = (Inr 0, w1\<lparr>rx := t\<rparr>)" "payload t = rest" "ending t = ending s"
    by (rule PutFile_stores_data) (use assms(1) Upload s(2) in auto)
  with s that show ?thesis by (auto simp: cmdParse_def c(3) next_do_def bnd_def run)
qed

lemma serve_loop_requests:
  assumes "list_all request_ok rs" "payload (rx w) = concat (map request_bytes rs) @ part" "length part < PACKET_SIZE"
    "ending (rx w) \<noteq> RxWaits" "do_requests K rs w = (Inr (), w1)"
  shows "\<exists>s. serve_loop K fd (replicate (Suc (length rs)) (PollReady [fd])) w = (Inr (), w1\<lparr>rx := s\<rparr>)"
  using assms
proof (induction rs arbitrary: w w1)
  case Nil
  then obtain s where "serve_event K fd fd w = (Inr True, w\<lparr>rx := s\<rparr>)"
    using serve_short [of w K fd] by auto
  with Nil show ?case by (auto simp: bnd_def run)
next
  case (Cons r rs)
  from Cons.prems(5) obtain v where v: "do_request K r w = (Inr (), v)" "do_requests K rs v = (Inr (), w1)"
    by (auto simp: run_iffs)
  from Cons.prems(1,2) have "request_ok r" "payload (rx w) = request_bytes r @ concat (map request_bytes rs) @ part"
    by simp_all
  from serve_request [OF this v(1)] obtain s where s: "serve_event K fd fd w = (Inr False, v\<lparr>rx := s\<rparr>)"
    "payload s = concat (map request_bytes rs) @ part" "ending s = ending (rx w)" by blast
  have "do_requests K rs (v\<lparr>rx := s\<rparr>) = (Inr (), w1\<lparr>rx := s\<rparr>)"
    using Cons.prems(1) do_requests_blind v(2) blind_run by fastforce
  moreover have "list_all request_ok rs" "payload (rx (v\<lparr>rx := s\<rparr>)) = concat (map request_bytes rs) @ part"
    "ending (rx (v\<lparr>rx := s\<rparr>)) \<noteq> RxWaits" using Cons.prems s by simp_all
  ultimately have "\<exists>t. serve_loop K fd (replicate (Suc (length rs)) (PollReady [fd])) (v\<lparr>rx := s\<rparr>)
      = (Inr (), w1\<lparr>rx := s, rx := t\<rparr>)" using Cons.prems(3) by (intro Cons.IH)
  then obtain t where
    "serve_loop K fd (replicate (Suc (length rs)) (PollReady [fd])) (v\<lparr>rx := s\<rparr>) = (Inr (), w1\<lparr>rx := t\<rparr>)"
    by auto
  with s(1) show ?case by (auto simp: bnd_def run)
qed

section \<open>What a session leaves open\<close>

text \<open>A program that only adds calls of one kind to the log.\<close>

definition logs :: "(sysop \<Rightarrow> bool) \<Rightarrow> ('z proc_scheme, 'a) prog \<Rightarrow> bool" where
  "logs P m \<longleftrightarrow> (\<forall>w. \<exists>new. ops (snd (m w)) = ops w @ new \<and> list_all P new)"

named_theorems logging "programs that log calls of one kind only"

lemma logs_keeps: "keeps ops m \<Longrightarrow> logs P m"
  by (simp add: logs_def keeps_def)

lemma logs_basic [logging]:
  "logs P (ret x)" "logs P (halt e)" "logs P (reads g)" "logs P (in_bounds r)"
  by (rule logs_keeps, rule keep)+

lemma logs_log [logging]: "P e \<Longrightarrow> logs P (log_op e)"
  by (simp add: logs_def run)

lemma logs_bnd [logging]:
  assumes "logs P m" "\<And>x. logs P (k x)"
  shows "logs P (bnd m k)"
  unfolding logs_def
proof
  fix w
  obtain r w1 where m: "m w = (r, w1)" by (cases "m w")
  with assms(1) obtain n1 where n1: "ops w1 = ops w @ n1" "list_all P n1"
    unfolding logs_def by (metis snd_conv)
  show "\<exists>new. ops (snd (bnd m k w)) = ops w @ new \<and> list_all P new"
  proof (cases r)
    case (Inl e)
    with m n1 show ?thesis by (simp add: bnd_def)
  next
    case (Inr x)
    from assms(2) [of x] obtain n2 where "ops (snd (k x w1)) = ops w1 @ n2" "list_all P n2"
      unfolding logs_def by blast
    with m n1 Inr show ?thesis by (simp add: bnd_def)
  qed
qed

lemma logs_next [logging]: "logs P m \<Longrightarrow> logs P n \<Longrightarrow> logs P (next_do m n)"
  by (simp add: next_do_def logs_bnd)

lemma logs_branch [logging]:
  "logs P a \<Longrightarrow> (\<And>y. logs P (b y)) \<Longrightarrow> logs P (case x of None \<Rightarrow> a | Some y \<Rightarrow> b y)"
  "logs P m \<Longrightarrow> logs P n \<Longrightarrow> logs P (if c then m else n)"
  "(\<And>y z. logs P (d y z)) \<Longrightarrow> logs P (case p of (y, z) \<Rightarrow> d y z)"
  "(\<And>y. logs P (g y)) \<Longrightarrow> logs P (let y = e in g y)"
  by (simp_all split: option.splits prod.splits)

lemma keeps_ops: "keeps ops (recvn buf n)" "keeps ops (sendn d)" "keeps ops (send1 d)" "keeps ops (stack_bytes K j)"
  by (auto simp: keeps_def recvn_def sendn_def send1_def run split: prod.splits tx_result.splits)

lemma logs_transfer [logging]:
  "logs P (recvn buf n)" "logs P (sendn d)" "logs P (send1 d)" "logs P (stack_bytes K j)"
  by (rule logs_keeps, rule keeps_ops)+

text \<open>No command creates an epoll instance.\<close>

abbreviation no_epoll :: "sysop \<Rightarrow> bool" where
  "no_epoll e \<equiv> (case e of OpEpollCreate _ \<Rightarrow> False | _ \<Rightarrow> True)"

lemma logs_cmdParse: "logs no_epoll (cmdParse K cmd)"
  unfolding cmdParse_def handler_defs sendSignal_def recv_train_def sys_open_def sys_map_def
    sys_unlink_def sys_mkdir_def
  by (intro logging; simp)

lemma logs_serve_ready: "logs no_epoll (serve_ready K fd es)"
  by (induction K fd es rule: serve_ready.induct)
    (auto simp: serve_event_def recvCmd_def intro!: logging logs_cmdParse)

lemma logs_serve_loop: "logs no_epoll (serve_loop K fd ps)"
  by (induction K fd ps rule: serve_loop.induct) (auto intro!: logging logs_serve_ready)

lemma keeps_ops_update: "keeps ops (update (\<lambda>w. w\<lparr>clientPath := a\<rparr>))"
  by (simp add: keeps_def run)

lemma keeps_ops_authen: "keeps ops (UserAuthen shadow)"
  unfolding UserAuthen_def recv_train_def copy_train_def decide_login_def send_reply_def
  by (intro keep keeps_ops keeps_ops_update)

lemma handle_authen_ops:
  assumes "handle_authen_event shadow w = Some (r, w')"
  shows "ops w' = ops w"
proof -
  have "ops (snd q) = ops w" if "handle_authen_event shadow w = Some q" for q
  proof (rule handle_authen_event.raw_induct [where P = "\<lambda>sh w q. ops (snd q) = ops w", OF _ that])
    fix f :: "(string \<Rightarrow> string option) \<Rightarrow> server \<Rightarrow> ((stop + int) \<times> server) option"
      and sh w and q :: "(stop + int) \<times> server"
    assume IH: "\<And>sh w q. f sh w = Some q \<Longrightarrow> ops (snd q) = ops w"
      and eq: "authen_round f sh w = Some q"
    have round: "ops (snd (UserAuthen sh w)) = ops w"
      by (rule keeps_apply [OF keeps_ops_authen])
    from eq show "ops (snd q) = ops w"
      using IH [of sh "snd (UserAuthen sh w)" q] round
      by (auto simp: Let_def split: if_splits sum.splits)
  qed
  with assms show ?thesis by fastforce
qed

text \<open>The session closes what it opened, however the loop ends.\<close>

lemma serve_session_closes:
  assumes "serve_session K fd ps w = (Inr (), w')"
  shows "\<exists>new. ops w' = ops w @ new @ [OpClose fd] \<and>
    (\<forall>e. 0 \<le> e \<longrightarrow> OpEpollCreate e \<in> set new \<longrightarrow> OpClose e \<in> set new)"
proof -
  let ?e = "k_epoll_create K (ops w)"
  let ?a = "k_epoll_add K (ops w @ [OpEpollCreate ?e]) ?e fd"
  let ?w = "w\<lparr>ops := ops w @ [OpEpollCreate ?e, OpEpollAdd ?e fd ?a]\<rparr>"
  consider "?e < 0" | "0 \<le> ?e" "?a < 0" | "0 \<le> ?e" "0 \<le> ?a" by linarith
  then show ?thesis
  proof cases
    case 1
    with assms show ?thesis
      by (intro exI [of _ "[OpEpollCreate ?e]"]) (auto simp: serve_session_def run)
  next
    case 2
    with assms show ?thesis
      by (intro exI [of _ "[OpEpollCreate ?e, OpEpollAdd ?e fd ?a, OpClose ?e]"])
        (auto simp: serve_session_def run)
  next
    case 3
    with assms obtain w1 where w1: "serve_loop K fd ps ?w = (Inr (), w1)"
      "w' = w1\<lparr>ops := ops w1 @ [OpClose ?e, OpClose fd]\<rparr>"
      by (auto simp: serve_session_def run run_iffs)
    from logs_serve_loop [of K fd ps] obtain new where
      new: "ops w1 = ops ?w @ new" "list_all no_epoll new"
      unfolding logs_def using w1(1) by (metis snd_conv)
    have "OpEpollCreate e \<notin> set new" for e
      using new(2) by (auto simp: list_all_iff)
    with new(1) w1(2) show ?thesis
      by (intro exI [of _ "[OpEpollCreate ?e, OpEpollAdd ?e fd ?a] @ new @ [OpClose ?e]"]) auto
  qed
qed

section \<open>Sessions whose client has gone\<close>

text \<open>The client has closed its side, and no \<open>send\<close> waits; \<open>prompt\<close> programs then do not wait
  either, and put nothing back into the socket.\<close>

definition closing :: "'z proc_scheme \<Rightarrow> bool" where
  "closing w \<longleftrightarrow> ending (rx w) = Got [] \<and> TxBlock \<notin> set (plan w)"

abbreviation unread :: "'z proc_scheme \<Rightarrow> nat" where
  "unread w \<equiv> length (payload (rx w))"

definition prompt :: "('z proc_scheme, 'a) prog \<Rightarrow> bool" where
  "prompt m \<longleftrightarrow> (\<forall>w. closing w \<longrightarrow>
     fst (m w) \<noteq> Inl Blocks \<and> closing (snd (m w)) \<and> unread (snd (m w)) \<le> unread w)"

named_theorems prompting "programs that do not wait for a client that has gone"

lemma promptD:
  "prompt m \<Longrightarrow> closing w \<Longrightarrow> m w = (r, w') \<Longrightarrow> r \<noteq> Inl Blocks \<and> closing w' \<and> unread w' \<le> unread w"
  unfolding prompt_def by (metis fst_conv snd_conv)

lemma prompt_basic [prompting]:
  "prompt (ret x)" "e \<noteq> Blocks \<Longrightarrow> prompt (halt e)" "prompt (reads g)" "prompt (in_bounds r)" "prompt (log_op op)"
  by (auto simp: prompt_def closing_def run in_bounds_def split: option.splits)

lemma prompt_bnd [prompting]:
  assumes "prompt m" "\<And>x. prompt (k x)"
  shows "prompt (bnd m k)"
  unfolding prompt_def
proof (intro allI impI)
  fix w :: "'a proc_scheme" assume w: "closing w"
  obtain r w1 where m: "m w = (r, w1)" by (cases "m w")
  note first = promptD [OF assms(1) w m]
  show "fst (bnd m k w) \<noteq> Inl Blocks \<and> closing (snd (bnd m k w)) \<and> unread (snd (bnd m k w)) \<le> unread w"
  proof (cases r)
    case (Inr x)
    obtain r2 w2 where k: "k x w1 = (r2, w2)" by (cases "k x w1")
    from promptD [OF assms(2) _ k] first show ?thesis by (simp add: bnd_def m Inr k)
  qed (use first in \<open>simp add: bnd_def m\<close>)
qed

lemma prompt_next [prompting]: "prompt m \<Longrightarrow> prompt n \<Longrightarrow> prompt (next_do m n)"
  by (simp add: next_do_def prompt_bnd)

lemma prompt_branch [prompting]:
  "prompt a \<Longrightarrow> (\<And>y. prompt (b y)) \<Longrightarrow> prompt (case x of None \<Rightarrow> a | Some y \<Rightarrow> b y)"
  "prompt m \<Longrightarrow> prompt n \<Longrightarrow> prompt (if c then m else n)"
  "(\<And>y z. prompt (d y z)) \<Longrightarrow> prompt (case p of (y, z) \<Rightarrow> d y z)"
  "(\<And>y. prompt (g y)) \<Longrightarrow> prompt (let y = e in g y)"
  by (simp_all split: option.splits prod.splits)

lemma recvn_loop_closing:
  "recvn_loop s buf cur want = (r, s') \<Longrightarrow> ending s = Got [] \<Longrightarrow>
   r \<noteq> Inl Blocks \<and> ending s' = Got [] \<and> length (payload s') \<le> length (payload s)"
proof (induction s buf cur want arbitrary: r s' rule: recvn_loop.induct)
  case (1 s buf cur want)
  show ?case
  proof (cases "cur < want")
    case True
    obtain t s1 where ts: "recv_sys (want - cur) s = (t, s1)" by fastforce
    note step = recvn_loop.simps [of s buf cur want] True ts
    show ?thesis
    proof (cases t)
      case (RxError e)
      with ts "1.prems" "1.IH"(2) [OF True ts [symmetric] RxError] recv_sys_intr [of "want - cur" s s1]
        recv_sys_fail [of "want - cur" s s1] show ?thesis
        by (cases e) (auto simp: step)
    next
      case (Got d)
      note got = recv_sys_got [OF ts [unfolded Got]]
      show ?thesis
      proof (cases "d = [] \<or> poke (int cur) d buf = None")
        case True
        with "1.prems" got show ?thesis by (auto simp: step Got split: if_splits option.splits)
      next
        case False
        then obtain b where b: "d \<noteq> []" "poke (int cur) d buf = Some b" by auto
        with "1.prems" got "1.IH"(1) [OF \<open>cur < want\<close> ts [symmetric] Got b] show ?thesis by (auto simp: step Got)
      qed
    qed (use ts "1.prems" recv_sys_waits [of "want - cur" s s1] in auto)
  qed (use "1.prems" in \<open>auto simp: recvn_loop.simps [of s]\<close>)
qed

lemma sendn_loop_closing:
  "sendn_loop p data sent = (r, p', out) \<Longrightarrow> TxBlock \<notin> set p \<Longrightarrow> r \<noteq> Inl Blocks \<and> TxBlock \<notin> set p'"
proof (induction p data sent arbitrary: r p' out rule: sendn_loop.induct)
  case (1 p data sent)
  show ?case
  proof (cases "sent < length data")
    case True
    obtain t p1 where tp: "send_sys (length data - sent) p = (t, p1)" by fastforce
    have p1: "t \<noteq> TxWaits" "TxBlock \<notin> set p1"
      using tp "1.prems"(2) by (cases "(length data - sent, p)" rule: send_sys.cases; auto)+
    note step = sendn_loop.simps [of p data sent] True tp
    show ?thesis
    proof (cases t)
      case (TxError e)
      with p1 "1.prems" "1.IH"(2) [OF True tp [symmetric] TxError] show ?thesis by (cases e) (auto simp: step)
    next
      case (Took k)
      with p1 "1.prems" "1.IH"(1) [OF True tp [symmetric] Took] show ?thesis
        by (auto simp: step split: prod.splits)
    qed (use p1 in simp)
  qed (use "1.prems" in \<open>auto simp: sendn_loop.simps [of p]\<close>)
qed

lemma prompt_transfer [prompting]:
  "prompt (recvn buf n)" "prompt (sendn d)" "prompt (send1 d)" "prompt (stack_bytes K j)"
proof -
  show "prompt (recvn buf n)" "prompt (sendn d)"
    by (auto simp: prompt_def closing_def recvn_def sendn_def split: prod.splits
        dest: recvn_loop_closing sendn_loop_closing)
  show "prompt (send1 d)"
    unfolding prompt_def
  proof (intro allI impI)
    fix w assume "closing w"
    then show "fst (send1 d w) \<noteq> Inl Blocks \<and> closing (snd (send1 d w)) \<and> unread (snd (send1 d w)) \<le> unread w"
      by (cases "(length d, plan w)" rule: send_sys.cases) (auto simp: send1_def closing_def)
  qed
qed (auto simp: prompt_def run)

lemma prompt_cmdParse: "prompt (cmdParse K cmd)"
  unfolding cmdParse_def handler_defs sendSignal_def recv_train_def sys_open_def sys_map_def
    sys_unlink_def sys_mkdir_def
  by (intro prompting; simp)

text \<open>A ready event ends the session or takes a whole packet from the socket.\<close>

lemma serve_event_closing:
  assumes "closing w" "serve_event K fd fd w = (r, w')"
  shows "r \<noteq> Inl Blocks \<and> closing w' \<and> (r = Inr False \<longrightarrow> unread w' + PACKET_SIZE \<le> unread w)"
proof -
  let ?hdr = "fit PACKET_SIZE (k_stack K (ops w) PACKET_SIZE)"
  have close: "ending (rx w) = Got []" using assms(1) by (simp add: closing_def)
  show ?thesis
  proof (cases "PACKET_SIZE \<le> unread w")
    case True
    have "PACKET_SIZE \<le> length ?hdr" and small: "int_of_long (int PACKET_SIZE) = int PACKET_SIZE"
      using int_of_long_small [of "int PACKET_SIZE"] by (simp_all add: INT_MAX_def)
    then obtain s where s: "recvn ?hdr (int PACKET_SIZE) w = (Inr (int PACKET_SIZE,
        take PACKET_SIZE (payload (rx w)) @ drop PACKET_SIZE ?hdr), w\<lparr>rx := s\<rparr>)"
      "payload s = drop PACKET_SIZE (payload (rx w))" "ending s = ending (rx w)"
      using recvn_enough [OF _ True, of ?hdr, unfolded small] by metis
    let ?cmd = "dec_packet (take PACKET_SIZE (payload (rx w)) @ drop PACKET_SIZE ?hdr)"
    let ?rest = "next_do (if argFlag ?cmd = 1 then bnd (in_bounds (cstr (p_data ?cmd))) (\<lambda>_. ret ()) else ret ())
      (next_do (cmdParse K ?cmd) (ret False))"
    have "recvCmd ?hdr w = (Inr (int PACKET_SIZE, take PACKET_SIZE (payload (rx w)) @ drop PACKET_SIZE ?hdr), w\<lparr>rx := s\<rparr>)"
      unfolding recvCmd_def by (simp only: bnd_def s(1) prod.case sum.case) (simp add: run)
    then have "serve_event K fd fd w = ?rest (w\<lparr>rx := s\<rparr>)"
      by (simp add: serve_event_def run bnd_def [of "recvCmd h" for h] Let_def)
    moreover have "prompt ?rest" by (intro prompting prompt_cmdParse)
    moreover have "closing (w\<lparr>rx := s\<rparr>)" "unread (w\<lparr>rx := s\<rparr>) + PACKET_SIZE \<le> unread w"
      using assms(1) s(2,3) True by (simp_all add: closing_def)
    ultimately show ?thesis using assms(2) promptD [of ?rest "w\<lparr>rx := s\<rparr>" r w'] by auto
  next
    case False
    then obtain s where "recvn ?hdr (int PACKET_SIZE) w = (short_result (ending (rx w))
        (payload (rx w) @ drop (unread w) ?hdr), w\<lparr>rx := s\<rparr>)" "ending s = Got []"
      using recvn_loop_short [of PACKET_SIZE ?hdr "rx w" 0] close by (auto simp: recvn_def)
    with assms close show ?thesis
      by (auto simp: serve_event_def recvCmd_def run bnd_def short_result_def closing_def)
  qed
qed

lemma serve_loop_closing:
  "closing w \<Longrightarrow> unread w div PACKET_SIZE < n \<Longrightarrow>
   fst (serve_loop K fd (replicate n (PollReady [fd])) w) \<noteq> Inl Blocks \<and>
   closing (snd (serve_loop K fd (replicate n (PollReady [fd])) w))"
proof (induction n arbitrary: w)
  case (Suc n)
  obtain r w1 where ev: "serve_event K fd fd w = (r, w1)" by fastforce
  note one = serve_event_closing [OF Suc.prems(1) ev]
  show ?case
  proof (cases "r = Inr False")
    case True
    with one have "unread w1 + PACKET_SIZE \<le> unread w" "closing w1" by simp_all
    then have "unread w1 div PACKET_SIZE < n"
      using Suc.prems(2) div_le_mono [of "unread w1 + PACKET_SIZE" "unread w" PACKET_SIZE] by simp
    from Suc.IH [OF \<open>closing w1\<close> this] True ev show ?thesis by (simp add: bnd_def run)
  next
    case False
    with one ev show ?thesis by (auto simp: bnd_def run split: sum.splits)
  qed
qed simp

text \<open>A session that receives requests and the end of the stream.\<close>

lemma serve_session_run:
  assumes "list_all request_ok rs" "payload (rx w) = concat (map request_bytes rs) @ part" "length part < PACKET_SIZE"
    "ending (rx w) \<noteq> RxWaits"
    "k_epoll_create K (ops w) = e" "0 \<le> e"
    "k_epoll_add K (ops w @ [OpEpollCreate e]) e fd = a" "0 \<le> a"
    "do_requests K rs (w\<lparr>ops := ops w @ [OpEpollCreate e, OpEpollAdd e fd a]\<rparr>) = (Inr (), u)"
    "filter (\<lambda>p. p \<noteq> PollFail EINTR) ps = replicate (Suc (length rs)) (PollReady [fd])"
  shows "\<exists>w'. serve_session K fd ps w = (Inr (), w') \<and> ops w' = ops u @ [OpClose e, OpClose fd] \<and>
    txed w' = txed u \<and> clientPath w' = clientPath w"
proof -
  let ?w = "w\<lparr>ops := ops w @ [OpEpollCreate e, OpEpollAdd e fd a]\<rparr>"
  have "payload (rx ?w) = concat (map request_bytes rs) @ part" "ending (rx ?w) \<noteq> RxWaits"
    using assms(2,4) by simp_all
  from serve_loop_requests [OF assms(1) this(1) assms(3) this(2) assms(9), of fd] obtain s
    where "serve_loop K fd (replicate (Suc (length rs)) (PollReady [fd])) ?w = (Inr (), u\<lparr>rx := s\<rparr>)" by blast
  then have loop: "serve_loop K fd ps ?w = (Inr (), u\<lparr>rx := s\<rparr>)"
    by (simp only: serve_loop_interrupted [of K fd ps] assms(10))
  have "clientPath u = clientPath w"
    using keeps_apply [OF do_requests_path, of K rs ?w] assms(9) by simp
  with loop assms(5-8) show ?thesis by (simp add: serve_session_def run next_do_def bnd_def)
qed

lemma serve_session_cmds:
  assumes "list_all plain_cmd cs" "payload (rx w) = concat (map enc_packet cs)" "ending (rx w) = Got []"
    "k_epoll_create K (ops w) = e" "0 \<le> e"
    "k_epoll_add K (ops w @ [OpEpollCreate e]) e fd = a" "0 \<le> a"
    "do_cmds K cs (w\<lparr>ops := ops w @ [OpEpollCreate e, OpEpollAdd e fd a]\<rparr>) = (Inr (), u)"
    "filter (\<lambda>p. p \<noteq> PollFail EINTR) ps = replicate (Suc (length cs)) (PollReady [fd])"
  shows "\<exists>w'. serve_session K fd ps w = (Inr (), w') \<and> ops w' = ops u @ [OpClose e, OpClose fd] \<and>
    txed w' = txed u \<and> clientPath w' = clientPath w"
  by (rule serve_session_run [where rs = "map Command cs" and part = "[]", OF _ _ _ _ assms(4-7)])
    (use assms(1-3,8,9) in \<open>simp_all add: do_requests_commands list_all_length comp_def\<close>)

section \<open>Properties\<close>



text \<open>
  C16. A client that has gone does not hold its worker once it is logged in: whatever bytes it has sent
  since, packets or not, uploads included, and however they are cut up, if the stream then ends and no
  \<open>send\<close> waits, then after at most one ready event for each 1036 bytes and one for the end of the stream the
  session is not waiting: it has returned, with its connection closed by its last call and its epoll
  instance closed, or the bytes have made a handler call \<open>exit\<close> or leave the defined behaviour of C (as a
  malformed upload can). Before the login this does not hold.
\<close>

theorem closed_session_ends:
  assumes "ending (rx w) = Got []" "TxBlock \<notin> set (plan w)" "length (payload (rx w)) div PACKET_SIZE < n"
    "filter (\<lambda>p. p \<noteq> PollFail EINTR) ps = replicate n (PollReady [fd])"
  shows "case serve_session K fd ps w of
      (Inr _, w') \<Rightarrow> \<exists>new. ops w' = ops w @ new @ [OpClose fd] \<and>
        (\<forall>e. 0 \<le> e \<longrightarrow> OpEpollCreate e \<in> set new \<longrightarrow> OpClose e \<in> set new)
    | (Inl stopped, _) \<Rightarrow> stopped \<noteq> Blocks"
proof -
  have loop: "serve_loop K fd ps (w\<lparr>ops := h\<rparr>) \<noteq> (Inl Blocks, v)" for h v
    unfolding serve_loop_interrupted [of K fd ps] assms(4)
    using serve_loop_closing [of "w\<lparr>ops := h\<rparr>" n K fd] assms(1-3) by (auto simp: closing_def)
  have "fst (serve_session K fd ps w) \<noteq> Inl Blocks"
    by (auto simp: serve_session_def run bnd_def next_do_def loop split: prod.splits sum.splits)
  with serve_session_closes [of K fd ps w] show ?thesis by (auto split: prod.splits sum.splits)
qed

theorem closed_session_ends_witness:
  "fst (serve_session calm_kernel 7 [PollReady [7], PollFail EINTR, PollReady [7]]
    \<lparr>rx = cut 9 (replicate 2000 CHR ''A'') @ [RxEof], plan = [], txed = [], ops = [], clientPath = clientPath_start\<rparr>)
     \<noteq> Inl Blocks"
proof -
  let ?w = "\<lparr>rx = cut 9 (replicate 2000 CHR ''A'') @ [RxEof], plan = [], txed = [], ops = [], clientPath = clientPath_start\<rparr>"
  have "ending (rx ?w) = Got []" "TxBlock \<notin> set (plan ?w)" "length (payload (rx ?w)) div PACKET_SIZE < 2"
    "filter (\<lambda>p. p \<noteq> PollFail EINTR) [PollReady [7], PollFail EINTR, PollReady [7]] = replicate 2 (PollReady [7])"
    by (simp_all add: numeral_2_eq_2)
  from closed_session_ends [OF this, of calm_kernel] show ?thesis by (auto split: prod.splits)
qed

text \<open>
  C17. A client that breaks off: where its bytes are any list of requests and then less than a packet,
  in any segmentation, and the stream ends or fails there, the session executes the complete requests, in
  order and once each, does nothing for the rest, and closes the epoll instance and the connection.
\<close>

theorem cut_off_session:
  assumes "list_all request_ok rs" "payload (rx w) = concat (map request_bytes rs) @ part"
    "length part < PACKET_SIZE" "ending (rx w) \<noteq> RxWaits"
    "k_epoll_create K (ops w) = e" "0 \<le> e"
    "k_epoll_add K (ops w @ [OpEpollCreate e]) e fd = a" "0 \<le> a"
    "do_requests K rs (w\<lparr>ops := ops w @ [OpEpollCreate e, OpEpollAdd e fd a]\<rparr>) = (Inr (), u)"
    "filter (\<lambda>p. p \<noteq> PollFail EINTR) ps = replicate (Suc (length rs)) (PollReady [fd])"
  shows "\<exists>w'. serve_session K fd ps w = (Inr (), w') \<and> ops w' = ops u @ [OpClose e, OpClose fd] \<and>
    txed w' = txed u \<and> clientPath w' = clientPath w"
  using assms by (rule serve_session_run)

theorem cut_off_session_witness:
  "\<exists>w'. serve_session calm_kernel 7 [PollReady [7], PollReady [7]]
      \<lparr>rx = [RxData (enc_packet (path_packet REQ_RM ''a'')), RxFail EINTR, RxData ''zap'', RxFail EOTHER],
       plan = [], txed = [], ops = [], clientPath = clientPath_start\<rparr> = (Inr (), w') \<and>
    ops w' = [OpEpollCreate 4, OpEpollAdd 4 7 0, OpUnlink ''a'' 0, OpClose 4, OpClose 7]"
proof -
  let ?c = "path_packet REQ_RM ''a''"
  let ?w = "\<lparr>rx = [RxData (enc_packet ?c), RxFail EINTR, RxData ''zap'', RxFail EOTHER], plan = [], txed = [],
      ops = [], clientPath = clientPath_start\<rparr>"
  have "p_data ?c = ''a'' @ NUL # replicate 1022 NUL"
    by (simp add: path_packet_def fit_def flip: replicate_Suc)
  then have str: "cstr (p_data ?c) = Some ''a''" "NUL \<in> set (p_data ?c)" "length (p_data ?c) = 1024"
    using cstr_terminated [of "''a''" "replicate 1022 NUL"] by simp_all
  have code: "cmdCode ?c = 4" by (simp add: path_packet_def)
  then have good: "list_all request_ok [Command ?c]"
    using str by (simp add: plain_cmd_def packet_ok_def INT_MAX_def)
  have rm: "do_requests calm_kernel [Command ?c] (?w\<lparr>ops := ops ?w @ [OpEpollCreate 4, OpEpollAdd 4 7 0]\<rparr>)
      = (Inr (), ?w\<lparr>ops := [OpEpollCreate 4, OpEpollAdd 4 7 0, OpUnlink ''a'' 0]\<rparr>)"
    by (simp add: cmdParse_def code removeFile_def str(1) next_do_def bnd_def [of "bnd m f" for m f] run)
      (simp add: calm_kernel_def run)
  from cut_off_session [OF good _ _ _ _ _ _ _ rm, where part = "''zap''" and ps = "[PollReady [7], PollReady [7]]"]
  show ?thesis by (simp add: calm_kernel_def) blast
qed

text \<open>
  C15. Nothing is left open: whenever \<open>handleClient\<close> returns, for any client, any file system and
  any results of \<open>epoll_wait\<close>, its last system call closes the connection, and every epoll
  instance it created has been closed.
\<close>

theorem handleClient_closes:
  assumes "handleClient K shadow fd ps w = Some (Inr (), w')"
  shows "\<exists>new. ops w' = ops w @ new @ [OpClose fd] \<and>
    (\<forall>e. 0 \<le> e \<longrightarrow> OpEpollCreate e \<in> set new \<longrightarrow> OpClose e \<in> set new)"
proof -
  from assms obtain r w1 where w1: "handle_authen_event shadow w = Some (Inr r, w1)"
    "(if r \<noteq> 0 then log_op (OpClose fd) else serve_session K fd ps) w1 = (Inr (), w')"
    by (auto simp: handleClient_def split: option.splits sum.splits)
  from handle_authen_ops [OF w1(1)] have ops: "ops w1 = ops w" .
  show ?thesis
  proof (cases "r = 0")
    case True
    with w1(2) serve_session_closes [of K fd ps w1 w'] ops show ?thesis by simp
  next
    case False
    with w1(2) ops show ?thesis by (intro exI [of _ "[]"]) (auto simp: run)
  qed
qed

theorem handleClient_closes_witness:
  "\<exists>w' new. handleClient calm_kernel Map.empty 7 []
      \<lparr>rx = [RxEof], plan = [TxFail EOTHER], txed = [], ops = [], clientPath = clientPath_start\<rparr>
        = Some (Inr (), w') \<and> ops w' = new @ [OpClose 7]"
proof -
  let ?w = "\<lparr>rx = [RxEof], plan = [TxFail EOTHER], txed = [], ops = [], clientPath = clientPath_start\<rparr>"
  have "\<exists>v. handle_authen_event Map.empty ?w = Some (Inr (-1), v) \<and>
      txed v = txed ?w @ concat (replicate (length ([] :: nat list)) (frame ''AUTH_FAIL''))"
    by (rule handle_authen_closed_run [where ps = "[]"]) simp_all
  then obtain v where "handle_authen_event Map.empty ?w = Some (Inr (-1), v)" by blast
  then have "handleClient calm_kernel Map.empty 7 [] ?w = Some (log_op (OpClose 7) v)"
    by (simp add: handleClient_def)
  then obtain w' where w': "handleClient calm_kernel Map.empty 7 [] ?w = Some (Inr (), w')"
    by (auto simp: run)
  from handleClient_closes [OF w'] w' show ?thesis by auto
qed

end
