(* ===== verification/File_Opt.thy ===== *)
theory File_Opt
  imports Cmd_Handle
begin

text \<open>
  The client's side of a command, \<open>client/fileOpt.c\<close>: \<open>cmdParse\<close> sends the packet and runs the
  handler, \<open>recvSignal\<close> waits for the server's result. The functions have the names of the code,
  with \<open>client_\<close> in front where the server has one of the same name.
\<close>

section \<open>Commands and results\<close>

text \<open>\<open>None\<close> is a \<open>NULL\<close> packet. One \<open>send\<close>: a partial one counts as success.\<close>

definition sendCmd :: "packetCmd option \<Rightarrow> ('z proc_scheme, int) prog" where
  "sendCmd cmd =
     (case cmd of
        None \<Rightarrow> ret (-1)
      | Some c \<Rightarrow> bnd (send1 (enc_packet c)) (\<lambda>send_ret. if send_ret < 0 then ret (-1) else ret 0))"

text \<open>What is printed.\<close>

definition result_line :: "string \<Rightarrow> string" where
  "result_line m = ''Command execution result: '' @ m @ [CHR 0x0A]"

definition recvSignal :: "kernel \<Rightarrow> ('z proc_scheme, int) prog" where
  "recvSignal K =
     bnd (client_recvn (replicate SIGNAL_SIZE NUL) (int SIGNAL_SIZE)) (\<lambda>(recv_ret, bs).
     if recv_ret < 0 then ret (-1)
     else if recv_ret = 0 then ret (-1)
     else
       (let len = sint (s_length (dec_signal bs)) in
        if len < 0 \<or> len > 1024 then ret (-1)
        else if len > 0 then
          bnd (reads (\<lambda>w. k_calloc K (ops w) (nat len + 1))) (\<lambda>ok.
          if \<not> ok then ret (-1)
          else
            bnd (client_recvn (replicate (nat len + 1) NUL) len) (\<lambda>(recv_ret2, msgBuf).
            if recv_ret2 \<le> 0 then ret (-1)
            else
              bnd (in_bounds (cstr msgBuf)) (\<lambda>m.
              next_do (log_op (OpPrint (result_line m))) (ret 0))))
        else next_do (log_op (OpPrint (result_line []))) (ret 0)))"

section \<open>Handlers\<close>

definition client_changeDir :: "kernel \<Rightarrow> packetCmd \<Rightarrow> ('z proc_scheme, int) prog" where
  "client_changeDir K cmd = next_do (recvSignal K) (ret 0)"

definition client_listDir :: "kernel \<Rightarrow> packetCmd \<Rightarrow> ('z proc_scheme, int) prog" where
  "client_listDir K cmd = next_do (recvSignal K) (ret 0)"

definition client_printWorkingDir :: "kernel \<Rightarrow> packetCmd \<Rightarrow> ('z proc_scheme, int) prog" where
  "client_printWorkingDir K cmd =
     (if argFlag cmd = 1 then ret (-1) else next_do (recvSignal K) (ret 0))"

definition client_removeFile :: "kernel \<Rightarrow> packetCmd \<Rightarrow> ('z proc_scheme, int) prog" where
  "client_removeFile K cmd =
     (if argFlag cmd \<noteq> 1 then ret (-1) else next_do (recvSignal K) (ret 0))"

text \<open>\<open>open\<close> is given the command code where it expects the address of a path.\<close>

definition putFile :: "kernel \<Rightarrow> packetCmd \<Rightarrow> ('z proc_scheme, int) prog" where
  "putFile K cmd =
     (if argFlag cmd \<noteq> 1 then ret (-1)
      else
        bnd (stack_bytes K DATA_SIZE) (\<lambda>data0.
        bnd (in_bounds (cstr (p_data cmd))) (\<lambda>name.
        bnd (in_bounds (memcpy data0 (name @ [NUL]) (of_nat (length name) + 1))) (\<lambda>data.
        bnd (send1 (take (4 + length name) (le32 (of_nat (length name)) @ data))) (\<lambda>r1.
        if r1 < 0 then ret (-1)
        else
          (let fd = k_open_at K (cmdCode cmd) in
           next_do (log_op (OpOpenAt (cmdCode cmd) fd))
           (if fd = -1 then halt (Exits 1)
            else
              bnd (reads (\<lambda>w. k_size K (ops w) fd)) (\<lambda>st_size.
              bnd (in_bounds (memcpy data (le64 (word_of_int st_size)) 8)) (\<lambda>data2.
              bnd (send1 (take 12 (le32 8 @ data2))) (\<lambda>r2.
              if r2 < 0 then next_do (log_op (OpClose fd)) (ret (-1))
              else
                next_do (recvSignal K) (next_do (log_op (OpClose fd)) (ret 0))))))))))))"

definition getFile :: "kernel \<Rightarrow> packetCmd \<Rightarrow> ('z proc_scheme, int) prog" where
  "getFile K cmd =
     (if argFlag cmd \<noteq> 1 then ret (-1)
      else
        bnd (stack_train K) (\<lambda>t0.
        bnd (client_recv_train t0) (\<lambda>t1.
        bnd (in_bounds (memcpy (replicate 1024 NUL) (t_data t1) (t_length t1))) (\<lambda>fileName.
        bnd (stack_bytes K 8) (\<lambda>filesize0.
        bnd (client_recv_train t1) (\<lambda>t2.
        bnd (in_bounds (memcpy filesize0 (t_data t2) (t_length t2))) (\<lambda>fsz.
        let filesize = sint (dec64 fsz) in
        bnd (in_bounds (cstr fileName)) (\<lambda>name.
        bnd (sys_open K name [O_RDWR, O_CREAT, O_TRUNC]) (\<lambda>fd.
        if fd = -1 then halt (Exits 1)
        else
          next_do (log_op (OpTruncate fd filesize))
          (bnd (sys_map K fd filesize) (\<lambda>m.
           (case m of
              None \<Rightarrow> halt (Exits 1)
            | Some mem \<Rightarrow>
                bnd (client_recvn mem filesize) (\<lambda>(_, mem').
                next_do (log_op (OpStore fd mem'))
                (next_do (log_op (OpClose fd))
                (next_do (recvSignal K) (ret 0))))))))))))))))"

definition client_makeDir :: "kernel \<Rightarrow> packetCmd \<Rightarrow> ('z proc_scheme, int) prog" where
  "client_makeDir K cmd =
     (if argFlag cmd \<noteq> 1 then ret (-1) else next_do (recvSignal K) (ret 0))"

text \<open>The results of \<open>sendCmd\<close> and of the handlers are dropped.\<close>

definition client_cmdParse :: "kernel \<Rightarrow> packetCmd \<Rightarrow> ('z proc_scheme, int) prog" where
  "client_cmdParse K cmd =
     next_do (sendCmd (Some cmd))
     (if cmdCode cmd = code_word REQ_CD then next_do (client_changeDir K cmd) (ret 0)
      else if cmdCode cmd = code_word REQ_LS then next_do (client_listDir K cmd) (ret 0)
      else if cmdCode cmd = code_word REQ_MKDIR then next_do (client_makeDir K cmd) (ret 0)
      else if cmdCode cmd = code_word REQ_RM then next_do (client_removeFile K cmd) (ret 0)
      else if cmdCode cmd = code_word REQ_PUT then next_do (putFile K cmd) (ret 0)
      else if cmdCode cmd = code_word REQ_GET then next_do (getFile K cmd) (ret 0)
      else if cmdCode cmd = code_word REQ_PWD then next_do (client_printWorkingDir K cmd) (ret 0)
      else ret (-1))"

section \<open>Waiting for a result\<close>

lemma recvSignal_complete:
  assumes "failfree (rx w)" "payload (rx w) = enc_signal sig @ rest"
  obtains s where "recvSignal K w = (Inr (-1), w\<lparr>rx := s\<rparr>)" "payload s = rest" "failfree s"
proof -
  have len: "length (enc_signal sig) = 16" by (rule signal_image.enc_size [OF TrueI])
  have pre: "int SIGNAL_SIZE \<le> INT_MAX" "SIGNAL_SIZE \<le> length (replicate SIGNAL_SIZE NUL)"
    "SIGNAL_SIZE \<le> length (payload (rx w))" using len assms(2) by (simp_all add: INT_MAX_def)
  obtain s where s: "client_recvn (replicate SIGNAL_SIZE NUL) (int SIGNAL_SIZE) w
      = (Inr (0, take SIGNAL_SIZE (payload (rx w)) @ drop SIGNAL_SIZE (replicate SIGNAL_SIZE NUL)), w\<lparr>rx := s\<rparr>)"
    "payload s = drop SIGNAL_SIZE (payload (rx w))" "failfree s"
    by (rule client_recvn_enough [OF assms(1) pre])
  have "payload s = rest" using s(2) len assms(2) by simp
  moreover have "recvSignal K w = (Inr (-1), w\<lparr>rx := s\<rparr>)"
    unfolding recvSignal_def bnd_def s(1) by (simp add: run)
  ultimately show ?thesis using that s(3) by blast
qed

lemma recvSignal_waits:
  assumes "failfree (rx w)" "length (payload (rx w)) < 16" "ending (rx w) = RxWaits"
  obtains s where "recvSignal K w = (Inl Blocks, w\<lparr>rx := s\<rparr>)"
proof -
  have "int SIGNAL_SIZE \<le> INT_MAX" "SIGNAL_SIZE \<le> length (replicate SIGNAL_SIZE NUL)"
    by (simp_all add: INT_MAX_def)
  then obtain s where "client_recvn (replicate SIGNAL_SIZE NUL) (int SIGNAL_SIZE) w
      = (client_code 16 (short_result (ending (rx w))
         (payload (rx w) @ drop (length (payload (rx w))) (replicate SIGNAL_SIZE NUL))), w\<lparr>rx := s\<rparr>)"
    by (rule client_recvn_short [OF assms(1) _ _ assms(2)])
  with that assms(3) show ?thesis
    by (simp add: recvSignal_def bnd_def short_result_def client_code_def)
qed

lemma recvSignal_closed:
  assumes "rx w = [RxEof]"
  shows "recvSignal K w = (Inr 0, w\<lparr>ops := ops w @ [OpPrint (result_line [])]\<rparr>)"
proof -
  have "client_recvn (replicate SIGNAL_SIZE NUL) (int SIGNAL_SIZE) w
      = (Inr (1, replicate SIGNAL_SIZE NUL), w)"
    using assms by (cases w) (simp add: client_recvn_def client_recvn_loop.simps [of "[RxEof]"])
  then show ?thesis
    by (simp add: recvSignal_def bnd_def run dec_signal_zeroed)
qed

lemma keeps_client_recvn: "keeps txed (client_recvn buf n)" "keeps ops (client_recvn buf n)"
  by (auto simp: keeps_def client_recvn_def split: prod.splits)

lemma keeps_recvSignal: "keeps txed (recvSignal K)"
  unfolding recvSignal_def by (intro keep keeps_client_recvn)

text \<open>What the commands that only wait for a result send.\<close>

definition waits_only :: "packetCmd \<Rightarrow> bool" where
  "waits_only cmd \<longleftrightarrow>
     cmdCode cmd \<in> {code_word REQ_CD, code_word REQ_LS} \<or>
     cmdCode cmd \<in> {code_word REQ_MKDIR, code_word REQ_RM} \<and> argFlag cmd = 1 \<or>
     cmdCode cmd = code_word REQ_PWD \<and> argFlag cmd \<noteq> 1"

lemma waits_only_run:
  assumes "waits_only cmd" "plan w = []"
  shows "client_cmdParse K cmd w
    = next_do (recvSignal K) (ret 0) (w\<lparr>plan := [], txed := txed w @ enc_packet cmd\<rparr>)"
  using assms
  by (auto simp: waits_only_def client_cmdParse_def sendCmd_def client_changeDir_def client_listDir_def
      client_makeDir_def client_removeFile_def client_printWorkingDir_def next_do_def bnd_def
      send1_idle run split: prod.splits sum.splits)

lemma waits_only_sends:
  assumes "waits_only cmd" "plan w = []"
  shows "txed (snd (client_cmdParse K cmd w)) = txed w @ enc_packet cmd"
proof -
  have "keeps txed (next_do (recvSignal K) (ret 0) :: ('a proc_scheme, int) prog)"
    by (intro keep keeps_recvSignal)
  from keeps_apply [OF this, of "w\<lparr>plan := [], txed := txed w @ enc_packet cmd\<rparr>"]
  show ?thesis by (simp add: waits_only_run [OF assms])
qed

section \<open>Waiting for the contents of a file\<close>

text \<open>A name and a size arrive in the same \<open>train\<close>.\<close>

lemma client_two_frames:
  assumes pay: "payload (rx w) = frame name @ frame (le64 n) @ rest" "failfree (rx w)"
    and len: "length name \<le> DATA_SIZE" "length (t_data t0) = DATA_SIZE"
  obtains t1 s1 t2 s2 where
    "client_recv_train t0 w = (Inr t1, w\<lparr>rx := s1\<rparr>)" "client_recv_train t1 (w\<lparr>rx := s1\<rparr>) = (Inr t2, w\<lparr>rx := s2\<rparr>)"
    "payload s2 = rest" "failfree s2" "ending s2 = ending (rx w)"
    "\<forall>arr. length name \<le> length arr \<and> int (length arr) \<le> INT_MAX \<longrightarrow>
       memcpy arr (t_data t1) (t_length t1) = Some (name @ drop (length name) arr)"
    "\<forall>arr. length arr = 8 \<longrightarrow> memcpy arr (t_data t2) (t_length t2) = Some (le64 n)"
proof -
  let ?t1 = "\<lparr>t_length = of_nat (length name), t_data = name @ drop (length name) (t_data t0)\<rparr>"
  let ?t2 = "\<lparr>t_length = of_nat (length (le64 n)), t_data = le64 n @ drop (length (le64 n)) (t_data ?t1)\<rparr>"
  have fits: "length name \<le> length (t_data t0)" "int (length name) \<le> INT_MAX"
    "length (le64 n) \<le> length (t_data ?t1)" "int (length (le64 n)) \<le> INT_MAX"
    using len by (simp_all add: INT_MAX_def)
  obtain s1 where s1: "client_recv_train t0 w = (Inr ?t1, w\<lparr>rx := s1\<rparr>)"
    "payload s1 = frame (le64 n) @ rest" "failfree s1" "ending s1 = ending (rx w)"
    by (rule client_recv_train_frame [OF pay fits(1,2)])
  have pay1: "payload (rx (w\<lparr>rx := s1\<rparr>)) = frame (le64 n) @ rest" "failfree (rx (w\<lparr>rx := s1\<rparr>))"
    using s1(2,3) by simp_all
  obtain s2 where s2: "client_recv_train ?t1 (w\<lparr>rx := s1\<rparr>) = (Inr ?t2, w\<lparr>rx := s2\<rparr>)"
    "payload s2 = rest" "failfree s2" "ending s2 = ending s1"
    by (rule client_recv_train_frame [OF pay1 fits(3,4)]) simp
  show ?thesis
    by (rule that [OF s1(1) s2(1,2,3)])
      (use s1(4) s2(4) memcpy_prefix [OF refl] memcpy_size [OF refl] in auto)
qed

text \<open>With a name and a size in the socket and nothing behind them, \<open>getFile\<close> creates the local file
  and waits for its contents.\<close>

lemma getFile_waits:
  assumes pay: "payload (rx w) = frame name @ frame (le64 (of_nat n))" and ff: "failfree (rx w)"
    and wait: "ending (rx w) = RxWaits" and arg: "argFlag cmd = 1"
    and len: "length name < 1024" "no_nul name" "0 < n" "int n \<le> INT_MAX"
    and fd: "k_open K (ops w) name [O_RDWR, O_CREAT, O_TRUNC] = fd" "fd \<noteq> -1"
    and map: "k_map K (ops w @ [OpOpen name [O_RDWR, O_CREAT, O_TRUNC] fd, OpTruncate fd (int n)]) fd (int n)
      = Some mem"
  shows "\<exists>w'. getFile K cmd w = (Inl Blocks, w') \<and> ops w' = ops w @
    [OpOpen name [O_RDWR, O_CREAT, O_TRUNC] fd, OpTruncate fd (int n), OpMap fd (int n)]"
proof -
  let ?st = "fit 1028 (k_stack K (ops w) 1028)"
  let ?t0 = "\<lparr>t_length = dec32 (take 4 ?st), t_data = drop 4 ?st\<rparr>"
  have start: "payload (rx w) = frame name @ frame (le64 (of_nat n)) @ []" "length name \<le> DATA_SIZE"
    "length (t_data ?t0) = DATA_SIZE" using pay len(1) by simp_all
  obtain t1 s1 t2 s2 where
    t: "client_recv_train ?t0 w = (Inr t1, w\<lparr>rx := s1\<rparr>)" "client_recv_train t1 (w\<lparr>rx := s1\<rparr>) = (Inr t2, w\<lparr>rx := s2\<rparr>)"
    and s2: "payload s2 = []" "failfree s2" "ending s2 = ending (rx w)"
    and copies: "\<forall>arr. length name \<le> length arr \<and> int (length arr) \<le> INT_MAX \<longrightarrow>
        memcpy arr (t_data t1) (t_length t1) = Some (name @ drop (length name) arr)"
      "\<forall>arr. length arr = 8 \<longrightarrow> memcpy arr (t_data t2) (t_length t2) = Some (le64 (of_nat n))"
    by (rule client_two_frames [OF start(1) ff start(2,3)])
  let ?o = "ops w @ [OpOpen name [O_RDWR, O_CREAT, O_TRUNC] fd, OpTruncate fd (int n), OpMap fd (int n)]"
  let ?w = "w\<lparr>rx := s2, ops := ?o\<rparr>"
  have w: "failfree (rx ?w)" "length (payload (rx ?w)) < n" "ending (rx ?w) = RxWaits" "n \<le> length (fit n mem)"
    using s2 wait len(3) by simp_all
  obtain s3 where "client_recvn (fit n mem) (int n) ?w = (client_code n (short_result (ending (rx ?w))
       (payload (rx ?w) @ drop (length (payload (rx ?w))) (fit n mem))), ?w\<lparr>rx := s3\<rparr>)"
    by (rule client_recvn_short [OF w(1) len(4) w(4,2)])
  then have s3: "client_recvn (fit n mem) (int n) ?w = (Inl Blocks, ?w\<lparr>rx := s3\<rparr>)"
    by (simp only: w(3) short_result_def client_code_def rx_result.case sum.case)
  have name: "memcpy (replicate 1024 NUL) (t_data t1) (t_length t1)
      = Some (name @ drop (length name) (replicate 1024 NUL))"
    using len(1) by (intro copies(1) [rule_format]) (simp_all add: INT_MAX_def)
  have path: "cstr (name @ drop (length name) (replicate 1024 NUL)) = Some name"
    using len(1) cstr_padded [OF len(2), of 1024] by simp
  have size: "memcpy (fit 8 (k_stack K (ops w) 8)) (t_data t2) (t_length t2) = Some (le64 (of_nat n))"
    by (simp add: copies(2))
  have sz: "sint (of_nat n :: clong) = int n"
    using len(4) by (simp add: INT_MAX_def sint_of_nat_clong)
  have b: "bnd (client_recv_train ?t0) f w = f t1 (w\<lparr>rx := s1\<rparr>)"
    "bnd (client_recv_train t1) f (w\<lparr>rx := s1\<rparr>) = f t2 (w\<lparr>rx := s2\<rparr>)"
    "bnd (client_recvn (fit n mem) (int n)) g ?w = (Inl Blocks, ?w\<lparr>rx := s3\<rparr>)"
    for f :: "_ \<Rightarrow> (_, int) prog" and g :: "_ \<Rightarrow> (_, int) prog"
    by (simp_all only: bnd_def t s3 prod.case sum.case)
  have ow: "ops (w\<lparr>rx := s\<rparr>) = ops w" for s by simp
  have flag: "\<not> argFlag cmd \<noteq> 1" using arg by simp
  have "getFile K cmd w = (Inl Blocks, ?w\<lparr>rx := s3\<rparr>)"
    unfolding getFile_def stack_train_def bnd_assoc if_not_P [OF flag]
    using fd map
    by (simp only: stack_bytes_run bnd_simps b(1) name bnd_Some ow b(2) size
        Let_def dec64_le64 sz path sys_open_run) (simp add: run b(3))
  then show ?thesis by simp
qed

text \<open>\<open>put\<close> up to the \<open>open\<close>.\<close>

lemma putFile_run:
  assumes "cmdCode cmd = code_word REQ_PUT" "argFlag cmd = 1" "cstr (p_data cmd) = Some name"
    "length name < DATA_SIZE" "plan w = []" "k_open_at K (code_word REQ_PUT) = -1"
  shows "\<exists>w'. client_cmdParse K cmd w = (Inl (Exits 1), w') \<and>
    txed w' = txed w @ enc_packet cmd @ frame name"
proof -
  let ?old = "fit DATA_SIZE (k_stack K (ops w) DATA_SIZE)"
  let ?data = "name @ NUL # drop (Suc (length name)) ?old"
  have "size_t_of (of_nat (length name) + 1) = int (Suc (length name))"
    using size_t_of_nat_small [of "Suc (length name)"] assms(4) by (simp add: INT_MAX_def add.commute)
  then have mem: "memcpy ?old (name @ [NUL]) (of_nat (length name) + 1) = Some ?data"
    using memcpy_at [of _ "Suc (length name)" "name @ [NUL]" ?old] assms(4) by simp
  have t: "take (4 + length name) (le32 (of_nat (length name)) @ ?data) = frame name"
    by (simp add: frame_def)
  let ?w = "w\<lparr>plan := [], txed := txed w @ enc_packet cmd\<rparr>"
  have "putFile K cmd ?w = (Inl (Exits 1), ?w\<lparr>txed := (txed w @ enc_packet cmd) @ frame name,
      ops := ops w @ [OpOpenAt (code_word REQ_PUT) (-1)]\<rparr>)"
    using assms(1,2,6)
    by (simp add: putFile_def run assms(3) mem t [simplified] bnd_def [of "send1 d" for d] send1_idle Let_def)
  with assms(1,5) show ?thesis
    by (simp add: client_cmdParse_def sendCmd_def next_do_def bnd_def send1_idle run)
qed

section \<open>Properties\<close>

text \<open>
  \<open>recvSignal\<close> takes success for a closed connection: the client's \<open>recvn\<close> returns 0 when all bytes
  have arrived and 1 at the end of the stream, \<open>recvSignal\<close> treats 0 as the end. So for every
  complete signal, whatever its status and message, it returns \<open>-1\<close> and prints nothing, with
  the message left unread in the socket; and on a connection that has been closed it returns 0 and
  prints an empty result.
\<close>

lemma recvSignal_inverted:
  "(failfree (rx w) \<longrightarrow> payload (rx w) = enc_signal sig @ rest \<longrightarrow>
      (\<exists>w'. recvSignal K w = (Inr (-1), w') \<and> payload (rx w') = rest \<and> ops w' = ops w)) \<and>
   (rx w = [RxEof] \<longrightarrow> recvSignal K w = (Inr 0, w\<lparr>ops := ops w @ [OpPrint (result_line [])]\<rparr>))"
proof (intro conjI impI)
  assume "failfree (rx w)" "payload (rx w) = enc_signal sig @ rest"
  then obtain s where "recvSignal K w = (Inr (-1), w\<lparr>rx := s\<rparr>)" "payload s = rest"
    by (rule recvSignal_complete)
  then show "\<exists>w'. recvSignal K w = (Inr (-1), w') \<and> payload (rx w') = rest \<and> ops w' = ops w" by simp
qed (rule recvSignal_closed)

lemma recvSignal_inverted_example:
  "(\<exists>w'. recvSignal calm_kernel (client_with (signal_bytes CMD_SUCCESS ''ok'')) = (Inr (-1), w') \<and>
      payload (rx w') = ''ok'') \<and>
   recvSignal calm_kernel \<lparr>rx = [RxEof], plan = [], txed = [], ops = []\<rparr>
     = (Inr 0, \<lparr>rx = [RxEof], plan = [], txed = [], ops = [OpPrint (result_line [])]\<rparr>)"
  using recvSignal_inverted [of "client_with (signal_bytes CMD_SUCCESS ''ok'')"
      "\<lparr>sendACK = 1, recvACK = 1, cmdStatus = status_val CMD_SUCCESS, s_length = of_nat (length ''ok'')\<rparr>"
      "''ok''" calm_kernel]
    recvSignal_inverted [of "\<lparr>rx = [RxEof], plan = [], txed = [], ops = []\<rparr>" undefined undefined calm_kernel]
  by (simp add: signal_bytes_def) blast

text \<open>
  \<open>put\<close> ends the client: after sending the file's name, \<open>putFile\<close> passes the command code (the
  number 5) to \<open>open\<close> as the address of the path. Where \<open>open\<close> fails for that address, as it does
  for every address at which no memory is mapped, the client exits, whatever the file.
\<close>

lemma putFile_exits:
  assumes "cmdCode cmd = code_word REQ_PUT" "argFlag cmd = 1" "cstr (p_data cmd) = Some name"
    "length name < DATA_SIZE" "plan w = []" "k_open_at K (code_word REQ_PUT) = -1"
  shows "\<exists>w'. client_cmdParse K cmd w = (Inl (Exits 1), w') \<and>
    txed w' = txed w @ enc_packet cmd @ frame name"
  using assms by (rule putFile_run)

lemma putFile_exits_example:
  "\<exists>w'. client_cmdParse calm_kernel (path_packet REQ_PUT ''a'') \<lparr>rx = [], plan = [], txed = [], ops = []\<rparr>
      = (Inl (Exits 1), w') \<and> txed w' = enc_packet (path_packet REQ_PUT ''a'') @ frame ''a''"
proof -
  have "cstr (p_data (path_packet REQ_PUT ''a'')) = Some ''a''"
    using cstr_terminated [of "''a''" "replicate 1022 NUL"]
    by (simp add: path_packet_def fit_def flip: replicate_Suc)
  from putFile_exits [OF _ _ this, of "\<lparr>rx = [], plan = [], txed = [], ops = []\<rparr>" calm_kernel]
  show ?thesis by (simp add: calm_kernel_def path_packet_def)
qed

end
