(* ===== verification/Client_Main.thy ===== *)
theory Client_Main
  imports Authentication Cmd_Opt File_Opt Client_Handle
begin

text \<open>
  The client's program, \<open>client/client.c\<close>, after it has connected: log in, then serve the server's
  messages and the user's commands as \<open>epoll_wait\<close> reports them. The standard input is a script
  of the same kind as a socket's; \<open>poll\<close> is the result of one \<open>epoll_wait\<close>.
\<close>

section \<open>Events\<close>

text \<open>One \<open>recv\<close> of up to 1024 bytes, which are printed up to the first NUL.\<close>

definition handle_socket_event :: "('z proc_scheme, int) prog" where
  "handle_socket_event w =
     (case recv_sys 1024 (rx w) of
        (RxWaits, s) \<Rightarrow> (Inl Blocks, w\<lparr>rx := s\<rparr>)
      | (RxError e, s) \<Rightarrow> (Inr (-1), w\<lparr>rx := s\<rparr>)
      | (Got d, s) \<Rightarrow>
          if d = [] then (Inr (-1), w\<lparr>rx := s\<rparr>)
          else (Inr 0, w\<lparr>rx := s,
            ops := ops w @ [OpPrint (''Received from server: '' @ takeWhile (\<lambda>c. c \<noteq> NUL) d)]\<rparr>))"

text \<open>The line in \<open>buf\<close>, from the bytes read: a newline at the end is cut off.\<close>

definition input_line :: "char list \<Rightarrow> string" where
  "input_line d =
     takeWhile (\<lambda>c. c \<noteq> NUL) (if last d = CHR 0x0A then butlast d else d)"

text \<open>What is done with a line: parse it, print the packet, run the command.\<close>

definition run_line :: "kernel \<Rightarrow> string \<Rightarrow> ('z proc_scheme, int) prog" where
  "run_line K line =
     bnd (stack_bytes K PACKET_SIZE) (\<lambda>bs.
     (case cmdCheck (Some line) (Some (dec_packet bs)) of
        (Inl e, p) \<Rightarrow> halt e
      | (Inr check_ret, None) \<Rightarrow> halt BadPointer
      | (Inr check_ret, Some pcmdArg) \<Rightarrow>
          if check_ret \<noteq> 0 then ret 1
          else
            next_do (if argFlag pcmdArg = 1 then bnd (in_bounds (cstr (p_data pcmdArg))) (\<lambda>_. ret ()) else ret ())
            (next_do (client_cmdParse K pcmdArg) (ret 0))))"

text \<open>The result carries the rest of the standard input.\<close>

definition handle_stdin_event :: "kernel \<Rightarrow> rx_event list \<Rightarrow> ('z proc_scheme, int \<times> rx_event list) prog" where
  "handle_stdin_event K inp =
     (case recv_sys 1023 inp of
        (RxWaits, s) \<Rightarrow> halt Blocks
      | (RxError e, s) \<Rightarrow> ret (-1, s)
      | (Got d, s) \<Rightarrow>
          if d = [] then ret (-1, s)
          else bnd (run_line K (input_line d)) (\<lambda>r. ret (r, s)))"

section \<open>The event loop\<close>

text \<open>The ready descriptors of one \<open>epoll_wait\<close>; the result says whether to exit.\<close>

fun client_ready ::
  "kernel \<Rightarrow> int \<Rightarrow> int list \<Rightarrow> rx_event list \<Rightarrow> ('z proc_scheme, bool \<times> rx_event list) prog"
where
  "client_ready K sockfd [] inp = ret (False, inp)"
| "client_ready K sockfd (fd # fds) inp =
     (if fd = sockfd then
        bnd handle_socket_event (\<lambda>r.
        if r \<noteq> 0 then ret (True, inp) else client_ready K sockfd fds inp)
      else if fd = 0 then
        bnd (handle_stdin_event K inp) (\<lambda>(r, inp').
        if r = -1 then ret (True, inp')
        else client_ready K sockfd fds inp')
      else client_ready K sockfd fds inp)"

text \<open>Any failure of \<open>epoll_wait\<close> ends the loop, an interrupted call too.\<close>

fun client_loop :: "kernel \<Rightarrow> int \<Rightarrow> poll list \<Rightarrow> rx_event list \<Rightarrow> ('z proc_scheme, unit) prog" where
  "client_loop K sockfd [] inp = halt Blocks"
| "client_loop K sockfd (PollFail e # ps) inp = ret ()"
| "client_loop K sockfd (PollReady fds # ps) inp =
     bnd (client_ready K sockfd fds inp) (\<lambda>(should_exit, inp').
     if should_exit then ret () else client_loop K sockfd ps inp')"

text \<open>\<open>main\<close> after \<open>connect\<close>: \<open>names\<close> is the input the login reads, \<open>inp\<close> what is there after it.\<close>

definition client_main ::
  "kernel \<Rightarrow> (string \<Rightarrow> string \<Rightarrow> string option) \<Rightarrow> (nat \<Rightarrow> train) \<Rightarrow> int \<Rightarrow> poll list \<Rightarrow>
   string \<Rightarrow> rx_event list \<Rightarrow> client \<Rightarrow> (stop + int) \<times> client"
where
  "client_main K crypt junk sockfd ps names inp w =
     (case client_handle_authen_event crypt junk names w of
        (Inl e, _, w1) \<Rightarrow> (Inl e, w1)
      | (Inr r, _, w1) \<Rightarrow>
          (if r \<noteq> 0 then next_do (log_op (OpClose sockfd)) (ret 1)
           else
             bnd (reads (\<lambda>w. k_epoll_create K (ops w))) (\<lambda>epfd.
             next_do (log_op (OpEpollCreate epfd))
             (if epfd = -1 then halt (Exits 1)
              else
                bnd (reads (\<lambda>w. k_epoll_add K (ops w) epfd 0)) (\<lambda>a1.
                next_do (log_op (OpEpollAdd epfd 0 a1))
                (bnd (reads (\<lambda>w. k_epoll_add K (ops w) epfd sockfd)) (\<lambda>a2.
                 next_do (log_op (OpEpollAdd epfd sockfd a2))
                 (next_do (client_loop K sockfd ps inp)
                 (next_do (log_op (OpClose sockfd))
                 (next_do (log_op (OpClose epfd)) (ret 0)))))))))) w1)"

section \<open>Lines\<close>

lemma dec_packet_ok: "length bs = PACKET_SIZE \<Longrightarrow> packet_ok (dec_packet bs)"
  by (simp add: dec_packet_def packet_ok_def)

text \<open>The packet variable before it is filled in.\<close>

definition packet_junk :: "kernel \<Rightarrow> 'z proc_scheme \<Rightarrow> packetCmd" where
  "packet_junk K w = dec_packet (fit PACKET_SIZE (k_stack K (ops w) PACKET_SIZE))"

lemma packet_junk_ok: "packet_ok (packet_junk K w)"
  by (simp add: packet_junk_def dec_packet_ok)

lemma run_line_eq:
  "run_line K line w = (case cmdCheck (Some line) (Some (packet_junk K w)) of
        (Inl e, p) \<Rightarrow> halt e
      | (Inr check_ret, None) \<Rightarrow> halt BadPointer
      | (Inr check_ret, Some pcmdArg) \<Rightarrow>
          if check_ret \<noteq> 0 then ret 1
          else
            next_do (if argFlag pcmdArg = 1 then bnd (in_bounds (cstr (p_data pcmdArg))) (\<lambda>_. ret ()) else ret ())
            (next_do (client_cmdParse K pcmdArg) (ret 0))) w"
  by (simp only: run_line_def stack_bytes_run packet_junk_def)

lemma cmdCheck_keeps_packet: "cmdCheck (Some line) (Some p) \<noteq> (r, None)"
  by (auto simp: cmdCheck_def cmdCut_def Let_def split: option.splits if_splits prod.splits sum.splits)

lemma run_line_rejected:
  assumes "parse_tokens (tokens line) (packet_junk K w) = None"
  shows "run_line K line w = (Inr 1, w)"
proof -
  from cmdCheck_parse [OF packet_junk_ok, of line K w] assms obtain q
    where "cmdCheck (Some line) (Some (packet_junk K w)) = (Inr (-1), q)" by simp
  moreover with cmdCheck_keeps_packet obtain q' where "q = Some q'" by (cases q) auto
  ultimately show ?thesis by (simp add: run_line_eq run)
qed

lemma run_line_accepted:
  assumes "no_nul line" "parse_tokens (tokens line) (packet_junk K w) = Some q"
  shows "run_line K line w = next_do (client_cmdParse K q) (ret 0) w"
proof -
  have check: "cmdCheck (Some line) (Some (packet_junk K w)) = (Inr 0, Some q)"
    using cmdCheck_parse [OF packet_junk_ok, of line K w] assms(2) by simp
  from accepted_packet_ok [OF packet_junk_ok assms(1) this] obtain a
    where "cstr (p_data q) = Some a" by blast
  with check show ?thesis by (simp add: run_line_eq run next_do_def [of "bnd m f" for m f] bnd_assoc)
qed

lemma input_line_nl: "no_nul line \<Longrightarrow> input_line (line @ [CHR 0x0A]) = line"
  by (simp add: input_line_def takeWhile_no_nul)

text \<open>
  A line typed by the user: a line the parser (\<open>parse_tokens\<close>) rejects has no effect at all and makes the
  handler return 1; a line it accepts is run as exactly the packet it gives, and the
  handler returns 0 when the command returns.
\<close>

lemma handle_stdin_line:
  assumes "no_nul line" "length line < 1023"
  shows "handle_stdin_event K (RxData (line @ [CHR 0x0A]) # inp) w =
    (case parse_tokens (tokens line) (packet_junk K w) of
       None \<Rightarrow> (Inr (1, inp), w)
     | Some q \<Rightarrow> next_do (client_cmdParse K q) (ret (0, inp)) w)"
proof -
  have ev: "handle_stdin_event K (RxData (line @ [CHR 0x0A]) # inp) w
      = bnd (run_line K line) (\<lambda>r. ret (r, inp)) w"
    using assms(2) by (simp add: handle_stdin_event_def input_line_nl [OF assms(1)])
  show ?thesis
  proof (cases "parse_tokens (tokens line) (packet_junk K w)")
    case None
    then show ?thesis by (simp add: ev bnd_def run_line_rejected run)
  next
    case (Some q)
    then show ?thesis
      by (simp add: ev bnd_def next_do_def run_line_accepted [OF assms(1) Some] run split: prod.splits sum.splits)
  qed
qed

lemma stdin_line_example:
  "handle_stdin_event calm_kernel [RxData (''frob'' @ [CHR 0x0A])] (client_with [])
    = (Inr (1, []), client_with [])"
proof -
  have "tokens ''frob'' = [''frob'']"
    by (simp add: tokens.simps strtok_by_def is_sep_def)
  then show ?thesis
    using handle_stdin_line [of "''frob''" calm_kernel "[]" "client_with []"]
    by (simp add: parse_tokens_def str_to_cmdcode_def)
qed

end
