(* ===== verification/Whole_Session.thy ===== *)
theory Whole_Session
  imports Client_Main
begin

text \<open>
  Whole sessions, from the connection to its close: the server's \<open>handleClient\<close> with its login and
  its commands, and the client's program on the other side, run against each other.
\<close>

section \<open>The server's side\<close>

text \<open>A packet that asks for the directory \<open>d\<close>.\<close>

definition asks_mkdir :: "packetCmd \<Rightarrow> string \<Rightarrow> bool" where
  "asks_mkdir c d \<longleftrightarrow>
     packet_ok c \<and> cmdCode c = code_word REQ_MKDIR \<and> cstr (p_data c) = Some d"

text \<open>What the commands for the directories \<open>ds\<close> below \<open>base\<close> do after the calls \<open>h\<close>: one call
  each, in order, and what is sent for each of them.\<close>

fun mkdir_log :: "kernel \<Rightarrow> string \<Rightarrow> sysop list \<Rightarrow> string list \<Rightarrow> sysop list" where
  "mkdir_log K base h [] = []"
| "mkdir_log K base h (d # ds) =
     (let e = OpMkdir (base @ ''/'' @ d) (k_mkdir K h (base @ ''/'' @ d)) in
      e # mkdir_log K base (h @ [e]) ds)"

fun mkdir_reply :: "sysop \<Rightarrow> char list" where
  "mkdir_reply (OpMkdir p r) =
     (if r = -1 then signal_bytes CMD_FAILURE ''Failed to create directory''
      else signal_bytes CMD_SUCCESS ''Directory created successfully'')"
| "mkdir_reply e = []"

lemma asks_mkdir_plain: "list_all2 asks_mkdir cs ds \<Longrightarrow> list_all plain_cmd cs"
  by (induction rule: list_all2_induct) (auto simp: asks_mkdir_def plain_cmd_def cstr_Some_iff)

lemma do_cmds_mkdir:
  assumes "list_all2 asks_mkdir cs ds" "path_ok (clientPath w) base" "flowing (plan w)"
    "\<forall>d \<in> set ds. length base + 1 + length d < MAX_PATH_LEN"
  shows "\<exists>p. do_cmds K cs w = (Inr (), w\<lparr>ops := ops w @ mkdir_log K base (ops w) ds, plan := p,
      txed := txed w @ concat (map mkdir_reply (mkdir_log K base (ops w) ds))\<rparr>)"
  using assms
proof (induction arbitrary: w rule: list_all2_induct)
  case Nil
  then show ?case by (intro exI [of _ "plan w"]) (simp add: run)
next
  case (Cons c cs d ds)
  let ?p = "base @ ''/'' @ d"
  let ?e = "OpMkdir ?p (k_mkdir K (ops w) ?p)"
  from Cons.hyps(1) have c: "cstr (p_data c) = Some d" "cmdCode c = code_word REQ_MKDIR"
    by (simp_all add: asks_mkdir_def)
  have d: "length base + 1 + length d < MAX_PATH_LEN" using Cons.prems(3) by simp
  from makeDir_run [OF Cons.prems(1) c(1) d Cons.prems(2), of K] obtain p1 where run1:
    "cmdParse K c w = (Inr 0, w\<lparr>ops := ops w @ [?e], plan := p1, txed := txed w @ mkdir_reply ?e\<rparr>)"
    and p1: "flowing p1"
    by (auto simp: cmdParse_def c(2) next_do_def bnd_def run split: if_splits)
  let ?w = "w\<lparr>ops := ops w @ [?e], plan := p1, txed := txed w @ mkdir_reply ?e\<rparr>"
  have "path_ok (clientPath ?w) base" "flowing (plan ?w)"
    "\<forall>d \<in> set ds. length base + 1 + length d < MAX_PATH_LEN" using Cons.prems p1 by simp_all
  from Cons.IH [OF this] obtain p2 where "do_cmds K cs ?w = (Inr (),
      ?w\<lparr>ops := ops ?w @ mkdir_log K base (ops ?w) ds, plan := p2,
        txed := txed ?w @ concat (map mkdir_reply (mkdir_log K base (ops ?w) ds))\<rparr>)" by blast
  then show ?case by (intro exI [of _ p2]) (simp add: next_do_def bnd_def run1 Let_def)
qed

text \<open>Logging in, after any failed attempts, and creating directories.\<close>

lemma handleClient_mkdirs:
  assumes pay: "payload (rx w) = attempts bad @ frame u @ frame p @ concat (map enc_packet cs)"
      "ending (rx w) = Got []"
    and login: "list_all (\<lambda>(v, q). sendable (v, q) \<and> shadow v \<noteq> Some q) bad" "sendable (u, p)"
      "shadow u = Some p" "path_ok (clientPath w) cur" "length cur + 1 + length u < MAX_PATH_LEN" "plan w = []"
    and cmds: "list_all2 asks_mkdir cs ds"
      "\<forall>d \<in> set ds. length (login_path cur u) + 1 + length d < MAX_PATH_LEN"
    and epoll: "k_epoll_create K (ops w) = e" "0 \<le> e"
      "k_epoll_add K (ops w @ [OpEpollCreate e]) e fd = a" "0 \<le> a"
      "filter (\<lambda>p. p \<noteq> PollFail EINTR) ps = replicate (Suc (length cs)) (PollReady [fd])"
  shows "\<exists>w'. handleClient K shadow fd ps w = Some (Inr (), w') \<and>
    ops w' = ops w @ [OpEpollCreate e, OpEpollAdd e fd a] @
      mkdir_log K (login_path cur u) (ops w @ [OpEpollCreate e, OpEpollAdd e fd a]) ds @ [OpClose e, OpClose fd] \<and>
    txed w' = txed w @ concat (replicate (length bad) (frame ''AUTH_FAIL'')) @ frame ''AUTH_RESULT_OK'' @
      concat (map mkdir_reply (mkdir_log K (login_path cur u) (ops w @ [OpEpollCreate e, OpEpollAdd e fd a]) ds))"
proof -
  from handle_authen_attempts [where w = w and shadow = shadow and u = u and p = p, OF pay(1) login]
  obtain v where v: "handle_authen_event shadow w = Some (Inr 0, v)" "payload (rx v) = concat (map enc_packet cs)"
    "txed v = txed w @ concat (replicate (length bad) (frame ''AUTH_FAIL'')) @ frame ''AUTH_RESULT_OK''"
    "path_ok (clientPath v) (login_path cur u)" "plan v = []" "ending (rx v) = Got []"
    using pay(2) by auto
  have log: "ops v = ops w" by (rule handle_authen_ops [OF v(1)])
  let ?h = "ops w @ [OpEpollCreate e, OpEpollAdd e fd a]"
  have "path_ok (clientPath (v\<lparr>ops := ?h\<rparr>)) (login_path cur u)" "flowing (plan (v\<lparr>ops := ?h\<rparr>))"
    using v(4,5) by simp_all
  from do_cmds_mkdir [OF cmds(1) this cmds(2), of K] obtain q where
    "do_cmds K cs (v\<lparr>ops := ?h\<rparr>) = (Inr (), v\<lparr>ops := ?h @ mkdir_log K (login_path cur u) ?h ds, plan := q,
      txed := txed v @ concat (map mkdir_reply (mkdir_log K (login_path cur u) ?h ds))\<rparr>)" by auto
  from serve_session_cmds [OF asks_mkdir_plain [OF cmds(1)] v(2,6), of K, unfolded log, OF epoll(1-4) this epoll(5)]
  show ?thesis by (auto simp: handleClient_def v(1,3))
qed

section \<open>The client's side\<close>

text \<open>Names and passwords as the user types them, and as the client sends them: with the hash
  \<open>crypt\<close> makes of the password.\<close>

definition typed :: "(string \<times> string) list \<Rightarrow> string" where
  "typed xs = concat (map (\<lambda>(u, pw). u @ [CHR 0x0A] @ pw @ [CHR 0x0A]) xs)"

definition typable :: "(string \<Rightarrow> string \<Rightarrow> string option) \<Rightarrow> (string \<Rightarrow> string) \<Rightarrow> string \<times> string \<Rightarrow> bool" where
  "typable crypt hash x \<longleftrightarrow>
     no_nul (fst x) \<and> CHR 0x0A \<notin> set (fst x) \<and> length (fst x) < 63 \<and>
     no_nul (snd x) \<and> CHR 0x0A \<notin> set (snd x) \<and> length (snd x) < 127 \<and>
     crypt (snd x) salt = Some (hash (snd x)) \<and> no_nul (hash (snd x)) \<and> length (hash (snd x)) < 128"

abbreviation hashed :: "(string \<Rightarrow> string) \<Rightarrow> (string \<times> string) list \<Rightarrow> (string \<times> string) list" where
  "hashed hash xs \<equiv> map (\<lambda>(u, pw). (u, hash pw)) xs"

lemma client_login_round:
  assumes "typable crypt hash (u, pw)" "is_connected (g_clientState w) \<noteq> 1"
    "payload (rx w) = frame msg @ rest" "failfree (rx w)" "plan w = []" "length msg < 64" "no_nul msg"
    "length (t_data (junk 0)) = DATA_SIZE"
  obtains w' where "client_handle_authen_event crypt junk (typed ((u, pw) # xs) @ later) w =
      (if msg = ''AUTH_RESULT_OK'' then (Inr 0, typed xs @ later, w')
       else client_handle_authen_event crypt (\<lambda>k. junk (Suc k)) (typed xs @ later) w')"
    "g_clientState w' = (if msg = ''AUTH_RESULT_OK'' then (g_clientState w)\<lparr>is_connected := 1\<rparr>
       else g_clientState w)" "payload (rx w') = rest" "failfree (rx w')" "plan w' = []"
    "txed w' = txed w @ attempts (hashed hash [(u, pw)])" "ops w' = ops w"
proof -
  have t: "no_nul u" "CHR 0x0A \<notin> set u" "length u < 63" "no_nul pw" "CHR 0x0A \<notin> set pw" "length pw < 127"
    "crypt pw salt = Some (hash pw)" "length (hash pw) < 128" using assms(1) by (simp_all add: typable_def)
  obtain w' where w': "handle_authentication crypt (junk 0) (Some u) (Some pw) w
      = (Inr (if msg = ''AUTH_RESULT_OK'' then 0 else -1), w')"
    "g_clientState w' = (if msg = ''AUTH_RESULT_OK'' then (g_clientState w)\<lparr>is_connected := 1\<rparr>
       else g_clientState w)" "payload (rx w') = rest" "failfree (rx w')" "plan w = [] \<longrightarrow> plan w' = []"
    "txed w' = txed w @ frame u @ frame (hash pw)" "ops w' = ops w"
    by (rule handle_authentication_reply [where crypt = crypt and pw = pw and h = "hash pw" and u = u
          and w = w and msg = msg and rest = rest and junk = "junk 0"])
      (use assms t in simp_all)
  have read: "fgets 64 (typed ((u, pw) # xs) @ later) = Some (u @ [CHR 0x0A], pw @ CHR 0x0A # typed xs @ later)"
    "fgets 128 (pw @ CHR 0x0A # typed xs @ later) = Some (pw @ [CHR 0x0A], typed xs @ later)"
    using fgets_line [OF t(2), of 64 "pw @ CHR 0x0A # typed xs @ later"] fgets_line [OF t(5), of 128] t(3,6)
    by (simp_all add: typed_def)
  show ?thesis
    by (rule that [of w'])
      (use w' assms(2,5) in \<open>simp_all add: client_handle_authen_event.simps [of crypt junk "typed ((u, pw) # xs) @ later"]
        read chomp_line t attempts_def\<close>)
qed

lemma client_logins:
  assumes "list_all (typable crypt hash) bad" "typable crypt hash (u, pw)"
    "is_connected (g_clientState w) \<noteq> 1" "failfree (rx w)" "plan w = []"
    "payload (rx w) = concat (replicate (length bad) (frame ''AUTH_FAIL'')) @ frame ''AUTH_RESULT_OK'' @ rest"
    "\<forall>k. length (t_data (junk k)) = DATA_SIZE"
  shows "\<exists>w'. client_handle_authen_event crypt junk (typed (bad @ [(u, pw)]) @ later) w = (Inr 0, later, w') \<and>
    payload (rx w') = rest \<and> failfree (rx w') \<and> plan w' = [] \<and>
    txed w' = txed w @ attempts (hashed hash (bad @ [(u, pw)])) \<and> ops w' = ops w \<and>
    is_connected (g_clientState w') = 1"
  using assms
proof (induction bad arbitrary: w junk)
  case Nil
  then have pre: "payload (rx w) = frame ''AUTH_RESULT_OK'' @ rest" by simp
  obtain w' where "client_handle_authen_event crypt junk (typed ((u, pw) # []) @ later) w = (Inr 0, typed [] @ later, w')"
    "g_clientState w' = (g_clientState w)\<lparr>is_connected := 1\<rparr>" "payload (rx w') = rest" "failfree (rx w')"
    "plan w' = []" "txed w' = txed w @ attempts (hashed hash [(u, pw)])" "ops w' = ops w"
    by (rule client_login_round [OF Nil(2,3) pre Nil(4,5), of junk "[]" later]) (use Nil in auto)
  then show ?case by (auto simp: typed_def)
next
  case (Cons x bad)
  obtain v q where x: "x = (v, q)" by (cases x)
  have ok: "typable crypt hash (v, q)" using Cons.prems(1) x by simp
  have pre: "payload (rx w) = frame ''AUTH_FAIL'' @ concat (replicate (length bad) (frame ''AUTH_FAIL'')) @
      frame ''AUTH_RESULT_OK'' @ rest" using Cons.prems(6) by simp
  obtain w1 where w1: "client_handle_authen_event crypt junk (typed ((v, q) # bad @ [(u, pw)]) @ later) w
      = client_handle_authen_event crypt (\<lambda>k. junk (Suc k)) (typed (bad @ [(u, pw)]) @ later) w1"
    "g_clientState w1 = g_clientState w"
    "payload (rx w1) = concat (replicate (length bad) (frame ''AUTH_FAIL'')) @ frame ''AUTH_RESULT_OK'' @ rest"
    "failfree (rx w1)" "plan w1 = []" "txed w1 = txed w @ attempts (hashed hash [(v, q)])" "ops w1 = ops w"
    by (rule client_login_round [OF ok Cons.prems(3) pre Cons.prems(4,5), of junk "bad @ [(u, pw)]" later])
      (use Cons.prems(7) in auto)
  have "\<exists>w'. client_handle_authen_event crypt (\<lambda>k. junk (Suc k)) (typed (bad @ [(u, pw)]) @ later) w1 = (Inr 0, later, w') \<and>
    payload (rx w') = rest \<and> failfree (rx w') \<and> plan w' = [] \<and>
    txed w' = txed w1 @ attempts (hashed hash (bad @ [(u, pw)])) \<and> ops w' = ops w1 \<and>
    is_connected (g_clientState w') = 1"
    by (rule Cons.IH) (use Cons.prems w1 in auto)
  then show ?case using w1 by (auto simp: x attempts_def)
qed

text \<open>A message of the server: a first piece of what has come in is printed.\<close>

lemma handle_socket_event_prints:
  assumes "failfree (rx w)" "payload (rx w) \<noteq> []" "no_nul (payload (rx w))"
  obtains d s where "handle_socket_event w = (Inr 0, w\<lparr>rx := s, ops := ops w @ [OpPrint (''Received from server: '' @ d)]\<rparr>)"
    "d \<noteq> []" "payload (rx w) = d @ payload s" "failfree s"
proof -
  obtain r s where rs: "recv_sys 1024 (rx w) = (r, s)" by (cases "recv_sys 1024 (rx w)")
  have "\<exists>d. r = Got d"
    using recv_sys_failfree [OF rs assms(1)] rs assms(2) by (cases r) (auto dest: recv_sys_waits)
  then obtain d where d: "r = Got d" ..
  with recv_sys_got [of 1024 "rx w" d s] rs assms(2) have pay: "payload (rx w) = d @ payload s" "d \<noteq> []" by auto
  from pay(1) assms(3) have "takeWhile (\<lambda>c. c \<noteq> NUL) d = d" by (intro takeWhile_no_nul) simp
  with pay(2) have "handle_socket_event w
      = (Inr 0, w\<lparr>rx := s, ops := ops w @ [OpPrint (''Received from server: '' @ d)]\<rparr>)"
    by (simp add: handle_socket_event_def rs d)
  then show ?thesis using pay(2,1) by (rule that) (use recv_sys_failfree [OF rs assms(1)] in blast)
qed

text \<open>The command, the server's message and the end of the input.\<close>

lemma client_loop_mkdir:
  assumes line: "tokens line = [''mkdir'', arg]" "no_nul line" "length line < 1023" "length arg < DATA_SIZE"
    and w: "plan w = []" "failfree (rx w)" "payload (rx w) = enc_signal h @ msg" "msg \<noteq> []" "no_nul msg"
    and sock: "sockfd \<noteq> 0"
  shows "\<exists>w' d t. client_loop K sockfd [PollReady [0], PollReady [sockfd], PollReady [0]]
      [RxData (line @ [CHR 0x0A]), RxEof] w = (Inr (), w') \<and>
    txed w' = txed w @ enc_packet (arg_packet REQ_MKDIR arg (packet_junk K w)) \<and>
    ops w' = ops w @ [OpPrint (''Received from server: '' @ d)] \<and> d \<noteq> [] \<and> msg = d @ t"
proof -
  let ?q = "arg_packet REQ_MKDIR arg (packet_junk K w)"
  have "no_nul arg" using tokens_no_nul [OF line(2), of arg] line(1) by simp
  have wo: "waits_only ?q" by (simp add: waits_only_def arg_packet_def)
  have "parse_tokens (tokens line) (packet_junk K w) = Some ?q"
    using line(1,4) by (simp add: parse_tokens_def str_to_cmdcode_def)
  then have typed: "handle_stdin_event K (RxData (line @ [CHR 0x0A]) # inp) w
      = next_do (client_cmdParse K ?q) (ret (0, inp)) w" for inp
    by (simp add: handle_stdin_line [OF line(2,3)])
  let ?w = "w\<lparr>plan := [], txed := txed w @ enc_packet ?q\<rparr>"
  have "failfree (rx ?w)" "payload (rx ?w) = enc_signal h @ msg" using w(2,3) by simp_all
  then obtain s1 where "recvSignal K ?w = (Inr (-1), ?w\<lparr>rx := s1\<rparr>)" "payload s1 = msg" "failfree s1"
    by (rule recvSignal_complete)
  then have cmd: "handle_stdin_event K (RxData (line @ [CHR 0x0A]) # inp) w = (Inr (0, inp), ?w\<lparr>rx := s1\<rparr>)"
    for inp by (simp add: typed waits_only_run [OF wo w(1)] next_do_def bnd_def run)
  have "failfree (rx (?w\<lparr>rx := s1\<rparr>))" "payload (rx (?w\<lparr>rx := s1\<rparr>)) \<noteq> []" "no_nul (payload (rx (?w\<lparr>rx := s1\<rparr>)))"
    using \<open>payload s1 = msg\<close> \<open>failfree s1\<close> w(4,5) by simp_all
  then obtain d s2 where msg: "handle_socket_event (?w\<lparr>rx := s1\<rparr>) = (Inr 0, ?w\<lparr>rx := s1, rx := s2,
      ops := ops (?w\<lparr>rx := s1\<rparr>) @ [OpPrint (''Received from server: '' @ d)]\<rparr>)"
    "d \<noteq> []" "payload (rx (?w\<lparr>rx := s1\<rparr>)) = d @ payload s2" by (rule handle_socket_event_prints)
  have eof: "handle_stdin_event K [RxEof] v = (Inr (-1, [RxEof]), v)" for v :: "'a proc_scheme"
    by (simp add: handle_stdin_event_def run)
  have "client_loop K sockfd [PollReady [0], PollReady [sockfd], PollReady [0]] [RxData (line @ [CHR 0x0A]), RxEof] w
      = (Inr (), ?w\<lparr>rx := s2, ops := ops w @ [OpPrint (''Received from server: '' @ d)]\<rparr>)"
    using sock by (simp add: bnd_def cmd msg(1) eof run)
  with msg(2,3) \<open>payload s1 = msg\<close> show ?thesis by auto
qed

section \<open>The conversation\<close>

text \<open>The client's calls between its login and its event loop.\<close>

definition client_setup :: "kernel \<Rightarrow> sysop list \<Rightarrow> int \<Rightarrow> sysop list" where
  "client_setup K h sockfd =
     (let ep = k_epoll_create K h;
          s1 = [OpEpollCreate ep];
          s2 = s1 @ [OpEpollAdd ep 0 (k_epoll_add K (h @ s1) ep 0)]
      in s2 @ [OpEpollAdd ep sockfd (k_epoll_add K (h @ s2) ep sockfd)])"

text \<open>What the client sends in a session with the logins \<open>xs\<close> and one \<open>mkdir\<close>, and what the server
  answers when the first \<open>n\<close> logins fail and the call for the directory returns \<open>r\<close>.\<close>

definition mkdir_requests ::
  "kernel \<Rightarrow> sysop list \<Rightarrow> int \<Rightarrow> (string \<Rightarrow> string) \<Rightarrow> (string \<times> string) list \<Rightarrow> string \<Rightarrow> char list"
where
  "mkdir_requests K h sockfd hash xs arg =
     attempts (hashed hash xs) @ enc_packet (arg_packet REQ_MKDIR arg
       (dec_packet (fit PACKET_SIZE (k_stack K (h @ client_setup K h sockfd) PACKET_SIZE))))"

definition mkdir_message :: "int \<Rightarrow> string" where
  "mkdir_message r = (if r = -1 then ''Failed to create directory'' else ''Directory created successfully'')"

definition mkdir_answers :: "nat \<Rightarrow> int \<Rightarrow> char list" where
  "mkdir_answers n r = concat (replicate n (frame ''AUTH_FAIL'')) @ frame ''AUTH_RESULT_OK'' @
     signal_bytes (if r = -1 then CMD_FAILURE else CMD_SUCCESS) (mkdir_message r)"

lemma mkdir_reply_message:
  "mkdir_reply (OpMkdir p r) = signal_bytes (if r = -1 then CMD_FAILURE else CMD_SUCCESS) (mkdir_message r)"
  by (simp add: mkdir_message_def)

lemma mkdir_message_text: "mkdir_message r \<noteq> []" "no_nul (mkdir_message r)"
  by (simp_all add: mkdir_message_def)

lemma client_conversation:
  assumes users: "list_all (typable crypt hash) (bad @ [(u, pw)])"
    and line: "tokens line = [''mkdir'', arg]" "no_nul line" "length line < 1023" "length arg < DATA_SIZE"
    and w: "is_connected (g_clientState w) \<noteq> 1" "plan w = []" "failfree (rx w)"
      "payload (rx w) = mkdir_answers (length bad) r" "\<forall>k. length (t_data (junk k)) = DATA_SIZE"
    and sock: "sockfd \<noteq> 0" "k_epoll_create K (ops w) = ep" "ep \<noteq> -1"
  shows "\<exists>w' d t. client_main K crypt junk sockfd [PollReady [0], PollReady [sockfd], PollReady [0]]
      (typed (bad @ [(u, pw)])) [RxData (line @ [CHR 0x0A]), RxEof] w = (Inr 0, w') \<and>
    txed w' = txed w @ mkdir_requests K (ops w) sockfd hash (bad @ [(u, pw)]) arg \<and>
    ops w' = ops w @ client_setup K (ops w) sockfd @
      [OpPrint (''Received from server: '' @ d), OpClose sockfd, OpClose ep] \<and> d \<noteq> [] \<and> mkdir_message r = d @ t"
proof -
  let ?msg = "mkdir_message r"
  let ?code = "if r = -1 then CMD_FAILURE else CMD_SUCCESS"
  have us: "list_all (typable crypt hash) bad" "typable crypt hash (u, pw)" using users by simp_all
  from client_logins [OF us w(1,3,2) w(4) [unfolded mkdir_answers_def] w(5), of "[]"] obtain v where v:
    "client_handle_authen_event crypt junk (typed (bad @ [(u, pw)])) w = (Inr 0, [], v)"
    "payload (rx v) = signal_bytes ?code ?msg" "failfree (rx v)" "plan v = []"
    "txed v = txed w @ attempts (hashed hash (bad @ [(u, pw)]))" "ops v = ops w" by auto
  let ?v = "v\<lparr>ops := ops w @ client_setup K (ops w) sockfd\<rparr>"
  have "plan ?v = []" "failfree (rx ?v)" "payload (rx ?v) = enc_signal
      \<lparr>sendACK = 1, recvACK = 1, cmdStatus = status_val ?code, s_length = of_nat (length ?msg)\<rparr> @ ?msg"
    using v by (simp_all add: signal_bytes_def)
  from client_loop_mkdir [OF line this mkdir_message_text sock(1), of K] obtain w' d t where
    "client_loop K sockfd [PollReady [0], PollReady [sockfd], PollReady [0]] [RxData (line @ [CHR 0x0A]), RxEof] ?v
      = (Inr (), w')" "txed w' = txed ?v @ enc_packet (arg_packet REQ_MKDIR arg (packet_junk K ?v))"
    "ops w' = ops ?v @ [OpPrint (''Received from server: '' @ d)]" "d \<noteq> []" "?msg = d @ t" by blast
  then show ?thesis
    using sock(2,3) v(1,5,6)
    by (intro exI [of _ "w'\<lparr>ops := ops w' @ [OpClose sockfd, OpClose ep]\<rparr>"] exI [of _ d] exI [of _ t])
      (simp add: client_main_def next_do_def bnd_def run packet_junk_def client_setup_def mkdir_requests_def Let_def)
qed

lemma server_conversation:
  assumes users: "list_all (typable crypt hash) (bad @ [(u, pw)])"
      "list_all (\<lambda>(v, q). shadow v \<noteq> Some (hash q)) bad" "shadow u = Some (hash pw)"
    and arg: "no_nul arg" "length arg < DATA_SIZE" "length (login_path cur u) + 1 + length arg < MAX_PATH_LEN"
    and w: "plan w = []" "path_ok (clientPath w) cur" "length cur + 1 + length u < MAX_PATH_LEN"
      "payload (rx w) = mkdir_requests Kc h sockfd hash (bad @ [(u, pw)]) arg" "ending (rx w) = Got []"
    and epoll: "k_epoll_create K (ops w) = e" "0 \<le> e" "k_epoll_add K (ops w @ [OpEpollCreate e]) e fd = a" "0 \<le> a"
    and r: "k_mkdir K (ops w @ [OpEpollCreate e, OpEpollAdd e fd a]) (login_path cur u @ ''/'' @ arg) = r"
  shows "\<exists>w'. handleClient K shadow fd [PollReady [fd], PollReady [fd]] w = Some (Inr (), w') \<and>
    txed w' = txed w @ mkdir_answers (length bad) r \<and>
    ops w' = ops w @ [OpEpollCreate e, OpEpollAdd e fd a, OpMkdir (login_path cur u @ ''/'' @ arg) r,
      OpClose e, OpClose fd]"
proof -
  let ?q = "arg_packet REQ_MKDIR arg (dec_packet (fit PACKET_SIZE (k_stack Kc (h @ client_setup Kc h sockfd) PACKET_SIZE)))"
  have asks: "list_all2 asks_mkdir [?q] [arg]"
    using packet_ok_arg [OF dec_packet_ok [OF length_fit] arg(2)] cstr_arg [OF arg(1)]
    by (simp add: asks_mkdir_def) (simp add: arg_packet_def)
  have bad: "list_all (\<lambda>(v, q). sendable (v, q) \<and> shadow v \<noteq> Some q) (hashed hash bad)"
    "sendable (u, hash pw)" using users by (auto simp: list_all_iff typable_def sendable_def)
  have pay: "payload (rx w) = attempts (hashed hash bad) @ frame u @ frame (hash pw) @ concat (map enc_packet [?q])"
    using w(4) by (simp add: mkdir_requests_def attempts_def)
  have "\<forall>d \<in> set [arg]. length (login_path cur u) + 1 + length d < MAX_PATH_LEN" using arg(3) by simp
  moreover have "mkdir_log K (login_path cur u) (ops w @ [OpEpollCreate e, OpEpollAdd e fd a]) [arg]
      = [OpMkdir (login_path cur u @ ''/'' @ arg) r]" using r by simp
  ultimately show ?thesis
    using handleClient_mkdirs [where ps = "[PollReady [fd], PollReady [fd]]", OF pay w(5) bad users(3) w(2,3,1) asks _ epoll]
    by (simp add: mkdir_reply_message mkdir_answers_def conj_commute split del: if_split
        del: mkdir_log.simps mkdir_reply.simps)
qed

section \<open>Properties\<close>

text \<open>
  C6. A whole session: a user mistypes the credentials any number of times, then logs in, types
  \<open>mkdir\<close> and an argument, and ends the input. The two programs fit together: for the server's
  answers in any segmentation the client's program sends exactly the requests, prints a piece of the
  server's message, closes its socket and its epoll instance and returns 0; and for the client's
  requests in any segmentation and the end of the stream the server's \<open>handleClient\<close> sends exactly the
  answers, creates exactly the directory below the user's own, and closes the connection and its
  epoll instance.
\<close>

theorem whole_session:
  assumes "list_all (typable crypt hash) (bad @ [(u, pw)])"
    "list_all (\<lambda>(v, q). shadow v \<noteq> Some (hash q)) bad" "shadow u = Some (hash pw)"
    and "tokens line = [''mkdir'', arg]" "no_nul line" "length line < 1023"
    and "is_connected (g_clientState c) \<noteq> 1" "plan c = []" "txed c = []" "\<forall>k. length (t_data (junk k)) = DATA_SIZE"
    and "sockfd \<noteq> 0" "k_epoll_create Kc (ops c) = ep" "ep \<noteq> -1"
    and "plan s = []" "txed s = []" "path_ok (clientPath s) cur" "length cur + 1 + length u < MAX_PATH_LEN"
      "length (login_path cur u) + 1 + length arg < MAX_PATH_LEN"
    and "k_epoll_create K (ops s) = e" "0 \<le> e" "k_epoll_add K (ops s @ [OpEpollCreate e]) e fd = a" "0 \<le> a"
    and "k_mkdir K (ops s @ [OpEpollCreate e, OpEpollAdd e fd a]) (login_path cur u @ ''/'' @ arg) = r"
    and "failfree X" "payload X = mkdir_answers (length bad) r"
    and "payload Y = mkdir_requests Kc (ops c) sockfd hash (bad @ [(u, pw)]) arg" "ending Y = Got []"
  shows "\<exists>c' d t s'. client_main Kc crypt junk sockfd [PollReady [0], PollReady [sockfd], PollReady [0]]
        (typed (bad @ [(u, pw)])) [RxData (line @ [CHR 0x0A]), RxEof] (c\<lparr>rx := X\<rparr>) = (Inr 0, c') \<and>
    handleClient K shadow fd [PollReady [fd], PollReady [fd]] (s\<lparr>rx := Y\<rparr>) = Some (Inr (), s') \<and>
    txed c' = payload Y \<and> txed s' = payload X \<and>
    ops c' = ops c @ client_setup Kc (ops c) sockfd @
      [OpPrint (''Received from server: '' @ d), OpClose sockfd, OpClose ep] \<and>
    d \<noteq> [] \<and> mkdir_message r = d @ t \<and>
    ops s' = ops s @ [OpEpollCreate e, OpEpollAdd e fd a, OpMkdir (login_path cur u @ ''/'' @ arg) r,
      OpClose e, OpClose fd]"
proof -
  have arg: "no_nul arg" "length arg < DATA_SIZE"
    using tokens_no_nul [OF assms(5), of arg] assms(4,18) by simp_all
  let ?c = "c\<lparr>rx := X\<rparr>" and ?s = "s\<lparr>rx := Y\<rparr>"
  have c: "is_connected (g_clientState ?c) \<noteq> 1" "plan ?c = []" "failfree (rx ?c)"
    "payload (rx ?c) = mkdir_answers (length bad) r" "k_epoll_create Kc (ops ?c) = ep"
    using assms(7,8,12,24,25) by simp_all
  have s: "plan ?s = []" "path_ok (clientPath ?s) cur"
    "payload (rx ?s) = mkdir_requests Kc (ops c) sockfd hash (bad @ [(u, pw)]) arg" "ending (rx ?s) = Got []"
    "k_epoll_create K (ops ?s) = e" "k_epoll_add K (ops ?s @ [OpEpollCreate e]) e fd = a"
    "k_mkdir K (ops ?s @ [OpEpollCreate e, OpEpollAdd e fd a]) (login_path cur u @ ''/'' @ arg) = r"
    using assms(14,16,19,21,23,26,27) by simp_all
  note client = client_conversation [OF assms(1,4,5,6) arg(2) c(1-4) assms(10,11) c(5) assms(13)]
  note server = server_conversation [OF assms(1-3) arg assms(18) s(1,2) assms(17) s(3-5) assms(20) s(6) assms(22) s(7)]
  from client server assms(9,15,25,26) show ?thesis by simp blast
qed

text \<open>The two programs before the session, for the example: nothing received, nothing done.\<close>

definition fresh_client :: client where
  "fresh_client = (client_with [])\<lparr>plan := []\<rparr>"

definition example_requests :: "char list" where
  "example_requests = mkdir_requests calm_kernel [] 3 (\<lambda>pw. ''h'' @ pw) [(''bob'', ''x''), (''bob'', ''pw'')] ''docs''"

theorem whole_session_witness:
  "\<exists>c' d s'. client_main calm_kernel (\<lambda>pw s. Some (''h'' @ pw)) (\<lambda>k. zero_train) 3
        [PollReady [0], PollReady [3], PollReady [0]] (typed [(''bob'', ''x''), (''bob'', ''pw'')])
        [RxData (''mkdir docs'' @ [CHR 0x0A]), RxEof] (fresh_client\<lparr>rx := [RxData (mkdir_answers 1 0)]\<rparr>) = (Inr 0, c') \<and>
    handleClient calm_kernel [''bob'' \<mapsto> ''hpw''] 7 [PollReady [7], PollReady [7]]
      ((server_with [] clientPath_start)\<lparr>rx := cut 9 example_requests @ [RxEof]\<rparr>) = Some (Inr (), s') \<and>
    ops c' = [OpEpollCreate 4, OpEpollAdd 4 0 0, OpEpollAdd 4 3 0,
      OpPrint (''Received from server: '' @ d), OpClose 3, OpClose 4] \<and>
    ops s' = [OpEpollCreate 4, OpEpollAdd 4 7 0, OpMkdir (home_prefix @ ''/bob/docs'') 0, OpClose 4, OpClose 7]"
proof -
  have users: "list_all (typable (\<lambda>pw s. Some (''h'' @ pw)) (\<lambda>pw. ''h'' @ pw)) ([(''bob'', ''x'')] @ [(''bob'', ''pw'')])"
    "list_all (\<lambda>(v, q). [''bob'' \<mapsto> ''hpw''] v \<noteq> Some (''h'' @ q)) [(''bob'', ''x'')]"
    "[''bob'' \<mapsto> ''hpw''] ''bob'' = Some (''h'' @ ''pw'')" by (simp_all add: typable_def)
  have line: "tokens ''mkdir docs'' = [''mkdir'', ''docs'']" "no_nul ''mkdir docs''" "length ''mkdir docs'' < 1023"
    by (simp_all add: tokens.simps strtok_by_def is_sep_def)
  have c: "is_connected (g_clientState fresh_client) \<noteq> 1" "plan fresh_client = []" "txed fresh_client = []"
    "\<forall>k. length (t_data ((\<lambda>k. zero_train) (k :: nat))) = DATA_SIZE" "(3 :: int) \<noteq> 0"
    "k_epoll_create calm_kernel (ops fresh_client) = 4" "(4 :: int) \<noteq> -1" and oc: "ops fresh_client = []"
    by (simp_all add: fresh_client_def client_with_def g_clientState_start_def calm_kernel_def)
  let ?s = "server_with [] clientPath_start"
  have home: "length home_prefix = 40" "login_path home_prefix ''bob'' = home_prefix @ ''/bob''"
    by (simp_all add: home_prefix_def login_path_def)
  have s: "plan ?s = []" "txed ?s = []" "path_ok (clientPath ?s) home_prefix"
    "length home_prefix + 1 + length ''bob'' < MAX_PATH_LEN"
    "length (login_path home_prefix ''bob'') + 1 + length ''docs'' < MAX_PATH_LEN"
    by (simp_all add: clientPath_start_ok home)
  have e: "k_epoll_create calm_kernel (ops ?s) = 4" "(0 :: int) \<le> 4"
    "k_epoll_add calm_kernel (ops ?s @ [OpEpollCreate 4]) 4 7 = 0" "(0 :: int) \<le> 0"
    "k_mkdir calm_kernel (ops ?s @ [OpEpollCreate 4, OpEpollAdd 4 7 0]) (login_path home_prefix ''bob'' @ ''/'' @ ''docs'') = 0"
    by (simp_all add: calm_kernel_def)
  have x: "failfree [RxData (mkdir_answers 1 0)]" "payload [RxData (mkdir_answers 1 0)] = mkdir_answers (length [(''bob'', ''x'')]) 0"
    by (simp_all add: failfree_def)
  have y: "payload (cut 9 example_requests @ [RxEof]) = mkdir_requests calm_kernel (ops fresh_client) 3 (\<lambda>pw. ''h'' @ pw)
      ([(''bob'', ''x'')] @ [(''bob'', ''pw'')]) ''docs''" "ending (cut 9 example_requests @ [RxEof]) = Got []"
    by (simp_all only: payload_cut_more payload.simps ending.simps append_Nil2 oc example_requests_def append.simps)
  have prep: "client_setup calm_kernel [] 3 = [OpEpollCreate 4, OpEpollAdd 4 0 0, OpEpollAdd 4 3 0]"
    by (simp add: client_setup_def calm_kernel_def)
  have opss: "ops ?s = []" by simp
  show ?thesis
    using whole_session [OF users line c s e x y]
    unfolding oc opss prep home(2) append.simps append_assoc One_nat_def list.size add_0 by blast
qed

end
