(* ===== verification/Client_Config.thy ===== *)
theory Client_Config
  imports C_Text Kernel
begin

text \<open>
  The client's configuration file, \<open>client/config.c\<close>: lines with one XML-like element each, of
  which four are read. The file system is an argument: \<open>fopen\<close> gives the text of a file, or
  \<open>None\<close> where \<open>fopen\<close> returns \<open>NULL\<close>; so is the address \<open>inet_pton\<close> finds in a string, \<open>None\<close>
  where it returns 0. A pointer that may be \<open>NULL\<close> is an option; \<open>extractXmlTagValue\<close> is only
  called with arrays.
\<close>

section \<open>The parser\<close>

record client_config =
  cc_addr :: sockaddr_in
  cc_filePath :: "char list"
  cc_configPath :: "char list"

text \<open>\<open>memset(config, 0, sizeof(*config))\<close>, which is also how \<open>g_clientConfig\<close> starts.\<close>

definition zero_config :: client_config where
  "zero_config =
     \<lparr>cc_addr = zero_addr, cc_filePath = replicate 1024 NUL, cc_configPath = replicate 1024 NUL\<rparr>"

text \<open>The second loop of \<open>trimWhitespace\<close>, with \<open>len\<close> as its second argument.\<close>

fun trim_end :: "char list \<Rightarrow> nat \<Rightarrow> char list" where
  "trim_end s 0 = s"
| "trim_end s (Suc len) = (if isspace (s ! len) then trim_end (s[len := NUL]) len else s)"

definition trimWhitespace :: "char list \<Rightarrow> char list option" where
  "trimWhitespace s =
     (case cstr s of
        None \<Rightarrow> None
      | Some inp \<Rightarrow>
          let start = length (takeWhile isspace inp) in
          (case (if start \<noteq> 0 then poke 0 (drop start inp @ [NUL]) s else Some s) of
             None \<Rightarrow> None
           | Some moved \<Rightarrow> map_option (\<lambda>t. trim_end moved (length t)) (cstr moved)))"

definition open_tag :: "string \<Rightarrow> string" where
  "open_tag tag = ''<'' @ tag @ ''>''"

definition close_tag :: "string \<Rightarrow> string" where
  "close_tag tag = ''</'' @ tag @ ''>''"

text \<open>\<open>outSize\<close> is the size of \<open>out\<close>; \<open>None\<close> is an access out of bounds.\<close>

definition extractXmlTagValue :: "string \<Rightarrow> string \<Rightarrow> char list \<Rightarrow> (int \<times> char list) option" where
  "extractXmlTagValue line tag out =
     (if out = [] then Some (0, out)
      else if 64 \<le> length (open_tag tag) \<or> 64 \<le> length (close_tag tag) then Some (0, out)
      else
        (case strstr line (open_tag tag) of
           None \<Rightarrow> Some (0, out)
         | Some i \<Rightarrow>
             let start = drop (i + length (open_tag tag)) line in
             (case strstr start (close_tag tag) of
                None \<Rightarrow> Some (0, out)
              | Some e \<Rightarrow>
                  if e = 0 then Some (0, out)
                  else
                    let valueLen = (if length out \<le> e then length out - 1 else e) in
                    (case poke 0 (take valueLen start) out of
                       None \<Rightarrow> None
                     | Some out1 \<Rightarrow>
                         (case poke (int valueLen) [NUL] out1 of
                            None \<Rightarrow> None
                          | Some out2 \<Rightarrow> map_option (Pair 1) (trimWhitespace out2))))))"

text \<open>The local variables of \<open>Config\<close> that its loop changes.\<close>

record conf_vars =
  v_ip :: "char list"
  v_family :: "char list"
  v_port :: int
  v_filePath :: "char list"
  v_valueBuf :: "char list"

definition conf_start :: "char list \<Rightarrow> conf_vars" where
  "conf_start junk =
     \<lparr>v_ip = replicate 64 NUL, v_family = replicate 32 NUL, v_port = 0,
      v_filePath = replicate 1024 NUL, v_valueBuf = fit 1024 junk\<rparr>"

definition read_tag :: "string \<Rightarrow> string \<Rightarrow> (conf_vars, bool) prog" where
  "read_tag line tag =
     bnd (reads v_valueBuf) (\<lambda>buf.
     bnd (in_bounds (extractXmlTagValue line tag buf)) (\<lambda>(found, buf').
     next_do (update (\<lambda>v. v\<lparr>v_valueBuf := buf'\<rparr>)) (ret (found \<noteq> 0))))"

definition value_read :: "(conf_vars, string) prog" where
  "value_read = bnd (reads v_valueBuf) (\<lambda>buf. in_bounds (cstr buf))"

text \<open>One line of the file; \<open>-1\<close> ends \<open>Config\<close>.\<close>

definition config_line :: "string \<Rightarrow> (conf_vars, int) prog" where
  "config_line line =
     bnd (read_tag line ''family'') (\<lambda>found.
     if found then
       bnd value_read (\<lambda>s. next_do (update (\<lambda>v. v\<lparr>v_family := snprintf (v_family v) s\<rparr>)) (ret 0))
     else
     bnd (read_tag line ''ip'') (\<lambda>found.
     if found then
       bnd value_read (\<lambda>s. next_do (update (\<lambda>v. v\<lparr>v_ip := snprintf (v_ip v) s\<rparr>)) (ret 0))
     else
     bnd (read_tag line ''port'') (\<lambda>found.
     if found then
       bnd value_read (\<lambda>s.
       let (parsedPort, endPtr) = strtol s in
       if endPtr = 0 \<or> endPtr < length s \<or> parsedPort \<le> 0 \<or> parsedPort > 65535 then ret (-1)
       else next_do (update (\<lambda>v. v\<lparr>v_port := parsedPort\<rparr>)) (ret 0))
     else
     bnd (read_tag line ''localPath'') (\<lambda>found.
     if found then
       bnd value_read (\<lambda>s. next_do (update (\<lambda>v. v\<lparr>v_filePath := snprintf (v_filePath v) s\<rparr>)) (ret 0))
     else ret 0))))"

text \<open>What \<open>line[512]\<close> holds as a string after \<open>fgets\<close> has stored the characters \<open>l\<close>.\<close>

definition line_text :: "char list \<Rightarrow> string" where
  "line_text l = takeWhile (\<lambda>c. c \<noteq> NUL) l"

function config_lines :: "string \<Rightarrow> (conf_vars, int) prog" where
  "config_lines inp =
     (case fgets 512 inp of
        None \<Rightarrow> ret 0
      | Some (l, rest) \<Rightarrow>
          bnd (config_line (line_text l)) (\<lambda>r. if r \<noteq> 0 then ret r else config_lines rest))"
  by pat_completeness auto
termination
  by (relation "measure length") (auto dest: fgets_progress)

declare config_lines.simps [simp del]

text \<open>The checks after the loop and the result.\<close>

definition fill_config :: "(string \<Rightarrow> cint option) \<Rightarrow> string \<Rightarrow> conf_vars \<Rightarrow> (client_config, int) prog" where
  "fill_config pton configPath v =
     bnd (in_bounds (cstr (v_ip v))) (\<lambda>ip.
     bnd (in_bounds (cstr (v_filePath v))) (\<lambda>filePath.
     bnd (in_bounds (cstr (v_family v))) (\<lambda>family.
     if ip = [] \<or> v_port v = 0 \<or> filePath = [] then ret (-1)
     else if family \<noteq> [] \<and> family \<noteq> ''AF_INET'' then ret (-1)
     else
       next_do (update (\<lambda>c. c\<lparr>cc_addr := (cc_addr c)
         \<lparr>sin_family := AF_INET, sin_port := htons (word_of_int (v_port v))\<rparr>\<rparr>))
       (case pton ip of
          None \<Rightarrow> ret (-1)
        | Some a \<Rightarrow>
            next_do (update (\<lambda>c. c\<lparr>cc_addr := (cc_addr c)\<lparr>s_addr := a\<rparr>\<rparr>))
            (next_do (update (\<lambda>c. c\<lparr>cc_filePath := snprintf (cc_filePath c) filePath,
                                     cc_configPath := snprintf (cc_configPath c) configPath\<rparr>))
            (ret 0))))))"

definition client_Config ::
  "(string \<Rightarrow> string option) \<Rightarrow> (string \<Rightarrow> cint option) \<Rightarrow> char list \<Rightarrow>
   string option \<Rightarrow> client_config option \<Rightarrow> (stop + int) \<times> client_config option"
where
  "client_Config fopen pton junk configPath config =
     (case (configPath, config) of
        (Some path, Some c) \<Rightarrow>
          (case fopen path of
             None \<Rightarrow> (Inr (-1), Some c)
           | Some inp \<Rightarrow>
               (case config_lines inp (conf_start junk) of
                  (Inl e, v) \<Rightarrow> (Inl e, Some zero_config)
                | (Inr r, v) \<Rightarrow>
                    if r \<noteq> 0 then (Inr (-1), Some zero_config)
                    else map_prod id Some (fill_config pton path v zero_config)))
      | _ \<Rightarrow> (Inr (-1), config))"

text \<open>The state is the global \<open>g_clientConfig\<close>.\<close>

definition LoadGlobalConfig ::
  "(string \<Rightarrow> string option) \<Rightarrow> (string \<Rightarrow> cint option) \<Rightarrow> char list \<Rightarrow> string option \<Rightarrow>
   (client_config, int) prog"
where
  "LoadGlobalConfig fopen pton junk configPath g =
     (case client_Config fopen pton junk configPath (Some g) of
        (r, Some g') \<Rightarrow> (r, g')
      | (r, None) \<Rightarrow> (r, g))"

definition GetGlobalConfig :: "(client_config, client_config) prog" where
  "GetGlobalConfig = reads (\<lambda>g. g)"

text \<open>The labels are Chinese text in UTF-8, \<open>char\<close> by \<open>char\<close>.\<close>

definition LABEL_ADDRESS :: string where
  "LABEL_ADDRESS =
     [CHR 0xE6, CHR 0x9C, CHR 0x8D, CHR 0xE5, CHR 0x8A, CHR 0xA1, CHR 0xE5, CHR 0x99, CHR
   0xA8, CHR 0xE5, CHR 0x9C, CHR 0xB0, CHR 0xE5, CHR 0x9D, CHR 0x80]"

definition LABEL_PORT :: string where
  "LABEL_PORT =
     [CHR 0xE7, CHR 0xAB, CHR 0xAF, CHR 0xE5, CHR 0x8F, CHR 0xA3]"

definition LABEL_DIRECTORY :: string where
  "LABEL_DIRECTORY =
     [CHR 0xE6, CHR 0x9C, CHR 0xAC, CHR 0xE5, CHR 0x9C, CHR 0xB0, CHR 0xE6, CHR 0x96, CHR
   0x87, CHR 0xE4, CHR 0xBB, CHR 0xB6, CHR 0xE7, CHR 0x9B, CHR 0xAE, CHR 0xE5, CHR 0xBD,
   CHR 0x95]"

definition LABEL_CONFIG :: string where
  "LABEL_CONFIG =
     [CHR 0xE9, CHR 0x85, CHR 0x8D, CHR 0xE7, CHR 0xBD, CHR 0xAE, CHR 0xE6, CHR 0x96, CHR
   0x87, CHR 0xE4, CHR 0xBB, CHR 0xB6, CHR 0xE8, CHR 0xB7, CHR 0xAF, CHR 0xE5, CHR 0xBE,
   CHR 0x84]"

text \<open>What \<open>printClientConfig\<close> prints; \<open>ntop\<close> is the text \<open>inet_ntop\<close> makes of an address, which always
  fits its \<open>INET_ADDRSTRLEN\<close> bytes. \<open>None\<close> is a directory or path without an end.\<close>

definition printClientConfig :: "(cint \<Rightarrow> string) \<Rightarrow> client_config \<Rightarrow> string option" where
  "printClientConfig ntop config =
     (let ip = ntop (s_addr (cc_addr config)); port = unat (htons (sin_port (cc_addr config))) in
      case (cstr (cc_filePath config), cstr (cc_configPath config)) of
        (Some filePath, Some configPath) \<Rightarrow>
          Some (LABEL_ADDRESS @ '': '' @ ip @ [CHR 0x0A] @
                LABEL_PORT @ '': '' @ decimal port @ [CHR 0x0A] @
                LABEL_DIRECTORY @ '': '' @ filePath @ [CHR 0x0A] @
                LABEL_CONFIG @ '': '' @ configPath @ [CHR 0x0A])
      | _ \<Rightarrow> None)"

section \<open>Trimming and extracting\<close>

lemma trim_end_rev:
  "no_nul t \<Longrightarrow> \<exists>r'. trim_end (t @ NUL # r) (length t) = rev (dropWhile isspace (rev t)) @ NUL # r'
     \<and> length (dropWhile isspace (rev t)) + length r' = length t + length r"
proof (induction t arbitrary: r rule: rev_induct)
  case (snoc c t)
  have nth: "((t @ [c]) @ NUL # r) ! length t = c" by (simp add: nth_append)
  show ?case
  proof (cases "isspace c")
    case True
    from snoc obtain r' where "trim_end (t @ NUL # NUL # r) (length t)
        = rev (dropWhile isspace (rev t)) @ NUL # r'"
      "length (dropWhile isspace (rev t)) + length r' = length t + Suc (length r)"
      using snoc.IH [of "NUL # r"] by auto
    with True nth show ?thesis by (auto simp: list_update_append)
  qed (use nth in auto)
qed simp

lemma trimWhitespace_strip:
  assumes "cstr s = Some t"
  obtains s' where "trimWhitespace s = Some s'" "cstr s' = Some (strip t)" "length s' = length s"
proof -
  from assms obtain r where s: "s = t @ NUL # r" and t: "no_nul t"
    by (auto simp: cstr_Some_iff)
  define k where "k = length (takeWhile isspace t)"
  define u where "u = dropWhile isspace t"
  have u: "u = drop k t" "length u \<le> length t" "k \<le> length t"
    by (simp_all add: u_def k_def dropWhile_eq_drop length_dropWhile_le length_takeWhile_le)
  have nul: "no_nul u" using t u(1) by (simp add: no_nul_drop)
  obtain r1 where moved: "(if k \<noteq> 0 then poke 0 (drop k t @ [NUL]) s else Some s) = Some (u @ NUL # r1)"
    and len: "length u + length r1 = length t + length r"
  proof (cases "k = 0")
    case True
    then have "u = t" by (simp add: u(1))
    with True that s show ?thesis by simp
  next
    case False
    then show ?thesis using that [of "drop (Suc (length u)) s"] u(2,3) by (simp add: s poke_0 u(1))
  qed
  from trim_end_rev [OF nul, of r1] obtain r2 where r2:
    "trim_end (u @ NUL # r1) (length u) = strip t @ NUL # r2" "length (strip t) + length r2 = length u + length r1"
    by (auto simp: strip_def u_def)
  with moved nul r2(1) have "trimWhitespace s = Some (strip t @ NUL # r2)"
    by (simp only: trimWhitespace_def assms Let_def option.case k_def [symmetric]) (simp add: cstr_terminated)
  moreover have "length (strip t @ NUL # r2) = length s"
    using r2(2) len by (simp add: s)
  ultimately show ?thesis
    using that cstr_terminated [OF no_nul_strip [OF t]] by blast
qed

text \<open>The text of an element of a line, where the buffer has \<open>n\<close> bytes.\<close>

definition tag_value :: "nat \<Rightarrow> string \<Rightarrow> string \<Rightarrow> string option" where
  "tag_value n line tag =
     (case strstr line (open_tag tag) of
        None \<Rightarrow> None
      | Some i \<Rightarrow>
          let start = drop (i + length (open_tag tag)) line in
          (case strstr start (close_tag tag) of
             None \<Rightarrow> None
           | Some e \<Rightarrow> if e = 0 then None else Some (strip (take (min e (n - 1)) start))))"

lemma tag_value_no_nul: "no_nul line \<Longrightarrow> tag_value n line tag = Some v \<Longrightarrow> no_nul v"
  by (auto simp: tag_value_def Let_def no_nul_strip no_nul_take no_nul_drop split: option.splits if_splits)

lemma extract_value:
  assumes "no_nul line" "out \<noteq> []" "length tag < 61"
  obtains out' where
    "extractXmlTagValue line tag out = Some (of_bool (tag_value (length out) line tag \<noteq> None), out')"
    "length out' = length out"
    "\<And>v. tag_value (length out) line tag = Some v \<Longrightarrow> cstr out' = Some v"
proof (cases "tag_value (length out) line tag")
  case None
  with assms(2,3) that [of out] show ?thesis
    by (auto simp: extractXmlTagValue_def tag_value_def open_tag_def close_tag_def Let_def
        split: option.splits if_splits)
next
  case (Some v)
  then obtain i e where i: "strstr line (open_tag tag) = Some i"
    and e: "strstr (drop (i + length (open_tag tag)) line) (close_tag tag) = Some e" "e \<noteq> 0"
    by (auto simp: tag_value_def Let_def split: option.splits if_splits)
  define start where "start = drop (i + length (open_tag tag)) line"
  define n where "n = (if length out \<le> e then length out - 1 else e)"
  have n: "n < length out" "n = min e (length out - 1)" using assms(2) by (auto simp: n_def)
  have "e \<le> length start" using strstr_found [OF e(1)] by (simp add: start_def)
  with n have len: "length (take n start) = n" by simp
  have v: "v = strip (take n start)" using Some i e by (simp add: tag_value_def Let_def start_def n(2))
  have "no_nul (take n start)" using assms(1) by (simp add: start_def no_nul_take no_nul_drop)
  then have c: "cstr (take n start @ NUL # drop (Suc n) out) = Some (take n start)"
    by (rule cstr_terminated)
  from trimWhitespace_strip [OF c] obtain s' where s': "trimWhitespace (take n start @ NUL # drop (Suc n) out) = Some s'"
    "cstr s' = Some v" "length s' = length (take n start @ NUL # drop (Suc n) out)" unfolding v by blast
  have p1: "poke 0 (take n start) out = Some (take n start @ drop n out)"
    using n(1) len by (simp add: poke_0)
  have p2: "poke (int n) [NUL] (take n start @ drop n out) = Some (take n start @ NUL # drop (Suc n) out)"
    using n(1) len by (simp add: poke_at)
  have "extractXmlTagValue line tag out = Some (1, s')"
    using assms(2,3) i e p1 p2 s'(1)
    by (simp add: extractXmlTagValue_def Let_def open_tag_def close_tag_def start_def flip: n_def)
  with that [of s'] s' Some n(1) len show ?thesis by simp
qed

section \<open>What a file means\<close>

text \<open>The lines \<open>fgets\<close> makes of a text: at most 511 characters each.\<close>

function text_lines :: "string \<Rightarrow> string list" where
  "text_lines inp =
     (case fgets 512 inp of None \<Rightarrow> [] | Some (l, rest) \<Rightarrow> line_text l # text_lines rest)"
  by pat_completeness auto
termination
  by (relation "measure length") (auto dest: fgets_progress)

declare text_lines.simps [simp del]

text \<open>A line sets the first of the four tags it has a value for.\<close>

definition line_entry :: "string \<Rightarrow> (string \<times> string) option" where
  "line_entry line =
     map_option (\<lambda>tag. (tag, the (tag_value 1024 line tag)))
       (find (\<lambda>tag. tag_value 1024 line tag \<noteq> None) [''family'', ''ip'', ''port'', ''localPath''])"

definition entries :: "string \<Rightarrow> (string \<times> string) list" where
  "entries inp = List.map_filter line_entry (text_lines inp)"

text \<open>The last value of a tag counts.\<close>

definition setting :: "(string \<times> string) list \<Rightarrow> string \<Rightarrow> string" where
  "setting es tag = foldl (\<lambda>v e. if fst e = tag then snd e else v) [] es"

definition port_of :: "string \<Rightarrow> int option" where
  "port_of s =
     (let (n, k) = strtol s in
      if k = 0 \<or> k < length s \<or> n \<le> 0 \<or> n > 65535 then None else Some n)"

definition bad_entry :: "string \<times> string \<Rightarrow> bool" where
  "bad_entry e \<longleftrightarrow> fst e = ''port'' \<and> port_of (snd e) = None"

definition port_setting :: "(string \<times> string) list \<Rightarrow> int" where
  "port_setting es = (case port_of (setting es ''port'') of None \<Rightarrow> 0 | Some n \<Rightarrow> n)"

text \<open>The result and the structure that a list of entries gives.\<close>

definition config_meaning ::
  "(string \<Rightarrow> cint option) \<Rightarrow> string \<Rightarrow> (string \<times> string) list \<Rightarrow> int \<times> client_config"
where
  "config_meaning pton path es =
     (let ip = take 63 (setting es ''ip''); port = port_setting es;
          family = take 31 (setting es ''family''); dir = setting es ''localPath'';
          with_port = zero_config\<lparr>cc_addr := \<lparr>sin_family = AF_INET,
            sin_port = htons (word_of_int port), s_addr = 0\<rparr>\<rparr> in
      if (\<exists>e \<in> set es. bad_entry e) \<or> ip = [] \<or> port = 0 \<or> dir = [] \<or> family \<notin> {[], ''AF_INET''}
      then (-1, zero_config)
      else case pton ip of
          None \<Rightarrow> (-1, with_port)
        | Some a \<Rightarrow> (0, with_port\<lparr>cc_addr := (cc_addr with_port)\<lparr>s_addr := a\<rparr>,
            cc_filePath := snprintf (replicate 1024 NUL) dir,
            cc_configPath := snprintf (replicate 1024 NUL) path\<rparr>))"

text \<open>The local variables after the entries \<open>es\<close>.\<close>

definition holds_entries :: "(string \<times> string) list \<Rightarrow> conf_vars \<Rightarrow> bool" where
  "holds_entries es v \<longleftrightarrow>
     length (v_ip v) = 64 \<and> cstr (v_ip v) = Some (take 63 (setting es ''ip'')) \<and>
     length (v_family v) = 32 \<and> cstr (v_family v) = Some (take 31 (setting es ''family'')) \<and>
     length (v_filePath v) = 1024 \<and> cstr (v_filePath v) = Some (setting es ''localPath'') \<and>
     v_port v = port_setting es \<and> length (v_valueBuf v) = 1024"

lemma setting_snoc [simp]: "setting (es @ [(t, v)]) tag = (if t = tag then v else setting es tag)"
  by (simp add: setting_def)

lemma setting_Nil [simp]: "setting [] tag = []"
  by (simp add: setting_def)

lemma port_of_Nil [simp]: "port_of [] = None"
  by (simp add: port_of_def strtol_def number_at_def Let_def)

lemma tag_value_length: "tag_value n line tag = Some v \<Longrightarrow> 0 < n \<Longrightarrow> length v < n"
proof -
  assume "tag_value n line tag = Some v" "0 < n"
  then obtain k t where "v = strip (take (min k (n - 1)) t)"
    by (auto simp: tag_value_def Let_def split: option.splits if_splits)
  then show ?thesis
    using length_strip [of "take (min k (n - 1)) t"] \<open>0 < n\<close> by (simp, linarith)
qed

lemma conf_start_holds: "holds_entries [] (conf_start junk)"
  using cstr_terminated [of "[]" "replicate n NUL" for n]
  by (simp add: holds_entries_def conf_start_def port_setting_def cstr_def)

lemma read_tag_run:
  assumes "holds_entries es v" "no_nul line" "length tag < 61"
  obtains v' where "read_tag line tag v = (Inr (tag_value 1024 line tag \<noteq> None), v')"
    "holds_entries es v'" "\<And>s. tag_value 1024 line tag = Some s \<Longrightarrow> cstr (v_valueBuf v') = Some s"
proof -
  from assms(1) have len: "length (v_valueBuf v) = 1024" by (simp add: holds_entries_def)
  then have "v_valueBuf v \<noteq> []" by auto
  from extract_value [OF assms(2) this assms(3)] obtain b where
    "extractXmlTagValue line tag (v_valueBuf v) = Some (of_bool (tag_value 1024 line tag \<noteq> None), b)"
    "length b = 1024" "\<And>s. tag_value 1024 line tag = Some s \<Longrightarrow> cstr b = Some s"
    unfolding len by blast
  then show ?thesis
    using assms(1) that [of "v\<lparr>v_valueBuf := b\<rparr>"] by (simp add: read_tag_def run holds_entries_def)
qed

lemma value_read_run: "cstr (v_valueBuf v) = Some s \<Longrightarrow> value_read v = (Inr s, v)"
  by (simp add: value_read_def run)

lemma line_entry_cases:
  "line_entry line =
     (case tag_value 1024 line ''family'' of Some s \<Rightarrow> Some (''family'', s) | None \<Rightarrow>
     (case tag_value 1024 line ''ip'' of Some s \<Rightarrow> Some (''ip'', s) | None \<Rightarrow>
     (case tag_value 1024 line ''port'' of Some s \<Rightarrow> Some (''port'', s) | None \<Rightarrow>
     (case tag_value 1024 line ''localPath'' of Some s \<Rightarrow> Some (''localPath'', s) | None \<Rightarrow> None))))"
  by (auto simp: line_entry_def split: option.splits)

lemma holds_entries_set:
  assumes "holds_entries es v" "no_nul s"
  shows "holds_entries (es @ [(''family'', s)]) (v\<lparr>v_family := snprintf (v_family v) s\<rparr>)"
    "holds_entries (es @ [(''ip'', s)]) (v\<lparr>v_ip := snprintf (v_ip v) s\<rparr>)"
    "length s < 1024 \<Longrightarrow>
     holds_entries (es @ [(''localPath'', s)]) (v\<lparr>v_filePath := snprintf (v_filePath v) s\<rparr>)"
    "port_of s = Some n \<Longrightarrow> holds_entries (es @ [(''port'', s)]) (v\<lparr>v_port := n\<rparr>)"
  using assms by (auto simp: holds_entries_def port_setting_def snprintf_sized)

lemma config_line_run:
  assumes R: "holds_entries es v" and nul: "no_nul line"
  obtains v' where
    "config_line line v = (Inr (if \<exists>e. line_entry line = Some e \<and> bad_entry e then -1 else 0), v')"
    "\<not> (\<exists>e. line_entry line = Some e \<and> bad_entry e) \<Longrightarrow>
     holds_entries (es @ (case line_entry line of None \<Rightarrow> [] | Some e \<Rightarrow> [e])) v'"
proof -
  note nn = tag_value_no_nul [OF nul] and found = option.distinct option.inject
  obtain v1 where v1: "read_tag line ''family'' v = (Inr (tag_value 1024 line ''family'' \<noteq> None), v1)"
    "holds_entries es v1" "\<And>s. tag_value 1024 line ''family'' = Some s \<Longrightarrow> cstr (v_valueBuf v1) = Some s"
    using read_tag_run [OF R nul, of "''family''"] by auto
  obtain v2 where v2: "read_tag line ''ip'' v1 = (Inr (tag_value 1024 line ''ip'' \<noteq> None), v2)"
    "holds_entries es v2" "\<And>s. tag_value 1024 line ''ip'' = Some s \<Longrightarrow> cstr (v_valueBuf v2) = Some s"
    using read_tag_run [OF v1(2) nul, of "''ip''"] by auto
  obtain v3 where v3: "read_tag line ''port'' v2 = (Inr (tag_value 1024 line ''port'' \<noteq> None), v3)"
    "holds_entries es v3" "\<And>s. tag_value 1024 line ''port'' = Some s \<Longrightarrow> cstr (v_valueBuf v3) = Some s"
    using read_tag_run [OF v2(2) nul, of "''port''"] by auto
  obtain v4 where v4: "read_tag line ''localPath'' v3 = (Inr (tag_value 1024 line ''localPath'' \<noteq> None), v4)"
    "holds_entries es v4" "\<And>s. tag_value 1024 line ''localPath'' = Some s \<Longrightarrow> cstr (v_valueBuf v4) = Some s"
    using read_tag_run [OF v3(2) nul, of "''localPath''"] by auto
  note runs = config_line_def bnd_def v1(1) v2(1) v3(1) v4(1) value_read_run run line_entry_cases bad_entry_def
  consider s where "tag_value 1024 line ''family'' = Some s"
    | s where "tag_value 1024 line ''family'' = None" "tag_value 1024 line ''ip'' = Some s"
    | s where "tag_value 1024 line ''family'' = None" "tag_value 1024 line ''ip'' = None"
        "tag_value 1024 line ''port'' = Some s"
    | s where "tag_value 1024 line ''family'' = None" "tag_value 1024 line ''ip'' = None"
        "tag_value 1024 line ''port'' = None" "tag_value 1024 line ''localPath'' = Some s"
    | "tag_value 1024 line ''family'' = None" "tag_value 1024 line ''ip'' = None"
        "tag_value 1024 line ''port'' = None" "tag_value 1024 line ''localPath'' = None"
    by fastforce
  then show ?thesis
  proof cases
    case 1
    with v1(3) holds_entries_set(1) [OF v1(2) nn [OF 1]] that show ?thesis by (simp add: runs)
  next
    case 2
    with v2(3) holds_entries_set(2) [OF v2(2) nn [OF 2(2)]] that show ?thesis by (simp add: runs)
  next
    case 3
    obtain n k where "strtol s = (n, k)" by fastforce
    then show ?thesis
      using 3 v3(3) holds_entries_set(4) [OF v3(2) nn [OF 3(3)]] that
      by (cases "k = 0 \<or> k < length s \<or> n \<le> 0 \<or> n > 65535") (simp_all add: runs port_of_def)
  next
    case 4
    with v4(3) holds_entries_set(3) [OF v4(2) nn [OF 4(4)]] tag_value_length [OF 4(4)] that
    show ?thesis by (simp add: runs)
  next
    case 5
    with v4(2) that show ?thesis by (simp add: runs)
  qed
qed

lemma line_text_no_nul [simp]: "no_nul (line_text l)"
  by (auto simp: line_text_def no_nul_def dest: set_takeWhileD)

lemma entries_fgets:
  "fgets 512 inp = Some (l, rest) \<Longrightarrow>
   entries inp = (case line_entry (line_text l) of None \<Rightarrow> [] | Some e \<Rightarrow> [e]) @ entries rest"
  by (simp add: entries_def text_lines.simps [of inp] map_filter_def split: option.splits)

lemma config_lines_run:
  "holds_entries es v \<Longrightarrow>
   \<exists>v'. config_lines inp v = (Inr (if \<exists>e \<in> set (entries inp). bad_entry e then -1 else 0), v')
     \<and> (\<not> (\<exists>e \<in> set (entries inp). bad_entry e) \<longrightarrow> holds_entries (es @ entries inp) v')"
proof (induction inp arbitrary: es v rule: config_lines.induct)
  case (1 inp)
  show ?case
  proof (cases "fgets 512 inp")
    case None
    then have "entries inp = []" by (simp add: entries_def text_lines.simps map_filter_def)
    with None 1(2) show ?thesis by (simp add: config_lines.simps run)
  next
    case (Some lr)
    then obtain l rest where f: "fgets 512 inp = Some (l, rest)" by (cases lr) auto
    note ent = entries_fgets [OF f]
    obtain v1 where v1: "config_line (line_text l) v
        = (Inr (if \<exists>e. line_entry (line_text l) = Some e \<and> bad_entry e then -1 else 0), v1)"
      "\<not> (\<exists>e. line_entry (line_text l) = Some e \<and> bad_entry e) \<Longrightarrow>
        holds_entries (es @ (case line_entry (line_text l) of None \<Rightarrow> [] | Some e \<Rightarrow> [e])) v1"
      using config_line_run [OF 1(2) line_text_no_nul] by blast
    show ?thesis
    proof (cases "\<exists>e. line_entry (line_text l) = Some e \<and> bad_entry e")
      case True
      with v1(1) f ent show ?thesis by (auto simp: config_lines.simps [of inp] bnd_def run)
    next
      case False
      let ?e = "case line_entry (line_text l) of None \<Rightarrow> [] | Some e \<Rightarrow> [e]"
      have R1: "holds_entries (es @ ?e) v1" using v1(2) [OF False] .
      have IH: "\<exists>v'. config_lines rest v1 = (Inr (if \<exists>e \<in> set (entries rest). bad_entry e then -1 else 0), v')
          \<and> (\<not> (\<exists>e \<in> set (entries rest). bad_entry e) \<longrightarrow> holds_entries ((es @ ?e) @ entries rest) v')"
        by (rule "1.IH" [OF f refl _ R1]) simp
      have bad: "(\<exists>e \<in> set (entries inp). bad_entry e) \<longleftrightarrow> (\<exists>e \<in> set (entries rest). bad_entry e)"
        using False ent by (auto split: option.splits)
      have "config_line (line_text l) v = (Inr 0, v1)"
        using v1(1) by (simp only: if_not_P [OF False])
      then have "config_lines inp v = config_lines rest v1"
        using f by (simp add: config_lines.simps [of inp] bnd_def)
      with IH show ?thesis unfolding bad by (simp only: ent append_assoc)
    qed
  qed
qed

lemma fill_config_run:
  assumes "holds_entries es v" "\<not> (\<exists>e \<in> set es. bad_entry e)"
  shows "fill_config pton path v zero_config = (case config_meaning pton path es of (r, c) \<Rightarrow> (Inr r, c))"
  using assms
  by (simp add: fill_config_def config_meaning_def holds_entries_def Let_def run zero_config_def zero_addr_def
      split: option.splits)

lemma Config_meaning:
  "fopen path = Some inp \<Longrightarrow>
   client_Config fopen pton junk (Some path) (Some c)
     = (case config_meaning pton path (entries inp) of (r, c') \<Rightarrow> (Inr r, Some c'))"
proof -
  assume f: "fopen path = Some inp"
  obtain v where v: "config_lines inp (conf_start junk)
      = (Inr (if \<exists>e \<in> set (entries inp). bad_entry e then -1 else 0), v)"
    "\<not> (\<exists>e \<in> set (entries inp). bad_entry e) \<longrightarrow> holds_entries (entries inp) v"
    using config_lines_run [OF conf_start_holds, of inp junk] unfolding append_Nil by blast
  show ?thesis
  proof (cases "\<exists>e \<in> set (entries inp). bad_entry e")
    case True
    with f v(1) show ?thesis by (simp add: client_Config_def config_meaning_def Let_def)
  next
    case False
    have "config_lines inp (conf_start junk) = (Inr 0, v)"
      using v(1) by (simp only: if_not_P [OF False])
    with f fill_config_run [OF v(2) [rule_format, OF False] False, of pton path] show ?thesis
      by (simp add: client_Config_def split: prod.splits)
  qed
qed

text \<open>A configuration that loads can be printed: the port in host order, the paths as they were stored.\<close>

lemma config_meaning_prints:
  assumes "config_meaning pton path es = (0, g)" "no_nul path" "no_nul (setting es ''localPath'')"
  obtains a n where "pton (take 63 (setting es ''ip'')) = Some a" "port_of (setting es ''port'') = Some n"
    "printClientConfig ntop g = Some (LABEL_ADDRESS @ '': '' @ ntop a @ [CHR 0x0A] @
       LABEL_PORT @ '': '' @ decimal (nat n) @ [CHR 0x0A] @
       LABEL_DIRECTORY @ '': '' @ take 1023 (setting es ''localPath'') @ [CHR 0x0A] @
       LABEL_CONFIG @ '': '' @ take 1023 path @ [CHR 0x0A])"
proof -
  from assms(1) obtain n where n: "port_of (setting es ''port'') = Some n"
    by (auto simp: config_meaning_def Let_def port_setting_def split: if_splits option.splits)
  then have "0 < n" "n \<le> 65535" by (auto simp: port_of_def Let_def split: if_splits prod.splits)
  then have "unat (word_of_int n :: 16 word) = nat n"
    by (simp add: unat_eq_nat_uint uint_word_of_int)
  with assms n show ?thesis
    using that by (auto simp: config_meaning_def Let_def port_setting_def printClientConfig_def
      snprintf_sized split: if_splits option.splits)
qed

section \<open>Files written in the format\<close>

definition config_tags :: "string list" where
  "config_tags = [''family'', ''ip'', ''port'', ''localPath'']"

definition config_item :: "string \<Rightarrow> string \<times> string \<Rightarrow> string" where
  "config_item indent e = indent @ open_tag (fst e) @ snd e @ close_tag (fst e)"

text \<open>One element on each line.\<close>

definition config_text :: "string \<Rightarrow> (string \<times> string) list \<Rightarrow> string" where
  "config_text indent es = concat (map (\<lambda>e. config_item indent e @ [CHR 0x0A]) es)"

definition plain_value :: "string \<Rightarrow> bool" where
  "plain_value v \<longleftrightarrow> v \<noteq> [] \<and> strip v = v \<and> no_nul v \<and> CHR ''<'' \<notin> set v \<and> CHR 0x0A \<notin> set v"

definition item_ok :: "string \<Rightarrow> string \<times> string \<Rightarrow> bool" where
  "item_ok indent e \<longleftrightarrow>
     fst e \<in> set config_tags \<and> plain_value (snd e) \<and> length (config_item indent e) < 511"

definition indent_ok :: "string \<Rightarrow> bool" where
  "indent_ok indent \<longleftrightarrow> set indent \<subseteq> {CHR '' '', CHR 0x09}"

lemma tag_value_item:
  assumes "indent_ok indent" "plain_value v" "length v < 1024"
  shows "tag_value 1024 (indent @ open_tag t @ v @ close_tag t @ [CHR 0x0A]) t = Some v"
proof -
  have ind: "CHR ''<'' \<notin> set indent" using assms(1) by (auto simp: indent_ok_def)
  have "strstr (indent @ open_tag t @ v @ close_tag t @ [CHR 0x0A]) (open_tag t) = Some (length indent)"
    using strstr_skip [of "open_tag t" indent] ind by (simp add: open_tag_def)
  moreover have "strstr (v @ close_tag t @ [CHR 0x0A]) (close_tag t) = Some (length v)"
    using strstr_skip [of "close_tag t" v] assms(2) by (simp add: close_tag_def plain_value_def)
  ultimately show ?thesis
    using assms(2,3) by (simp add: tag_value_def Let_def plain_value_def)
qed

text \<open>No other tag is found in the line.\<close>

lemma tag_value_other:
  assumes "indent_ok indent" "plain_value v" "t \<in> set config_tags" "t' \<in> set config_tags" "t' \<noteq> t"
  shows "tag_value 1024 (indent @ open_tag t @ v @ close_tag t @ [CHR 0x0A]) t' = None"
proof -
  have ind: "CHR ''<'' \<notin> set indent" using assms(1) by (auto simp: indent_ok_def)
  have v: "CHR ''<'' \<notin> set v" using assms(2) by (simp add: plain_value_def)
  have skip: "CHR ''<'' \<notin> set u \<Longrightarrow> strstr x (open_tag t') = None \<Longrightarrow> strstr (u @ x) (open_tag t') = None"
    for u x using strstr_absent [of "open_tag t'" u x] by (simp add: open_tag_def)
  have "\<forall>t \<in> set config_tags. \<forall>t' \<in> set config_tags. t' \<noteq> t \<longrightarrow>
      strstr (close_tag t @ [CHR 0x0A]) (open_tag t') = None"
    by (simp add: close_tag_def open_tag_def config_tags_def)
  with assms(3-5) have close: "strstr (close_tag t @ [CHR 0x0A]) (open_tag t') = None" by blast
  have "\<forall>t \<in> set config_tags. \<forall>t' \<in> set config_tags. t' \<noteq> t \<longrightarrow>
      take (length (open_tag t')) (open_tag t @ x) \<noteq> open_tag t' \<and> CHR ''<'' \<notin> set (t @ ''>'')" for x
    by (simp add: open_tag_def config_tags_def)
  with assms(3-5) have hd: "take (length (open_tag t')) (open_tag t @ x) \<noteq> open_tag t'"
    and tl: "CHR ''<'' \<notin> set (t @ ''>'')" for x by blast+
  have "strstr (open_tag t @ v @ close_tag t @ [CHR 0x0A]) (open_tag t') = None"
    using skip [OF tl skip [OF v close]] hd [of "v @ close_tag t @ [CHR 0x0A]"] by (simp add: open_tag_def)
  from skip [OF ind this] show ?thesis by (simp add: tag_value_def)
qed

lemma line_entry_item:
  assumes "indent_ok indent" "item_ok indent e"
  shows "line_entry (config_item indent e @ [CHR 0x0A]) = Some e"
proof -
  obtain t v where e: "e = (t, v)" by (cases e)
  with assms(2) have v: "plain_value v" "t \<in> set config_tags" "length v < 1024"
    by (auto simp: item_ok_def config_item_def)
  note own = tag_value_item [OF assms(1) v(1,3), of t]
    and other = tag_value_other [OF assms(1) v(1,2)]
  from v(2) consider "t = ''family''" | "t = ''ip''" | "t = ''port''" | "t = ''localPath''"
    by (auto simp: config_tags_def)
  then show ?thesis
    by cases (use own other [of "''family''"] other [of "''ip''"] other [of "''port''"] in
      \<open>simp_all add: e config_item_def line_entry_cases config_tags_def\<close>)
qed

lemma entries_item:
  assumes "indent_ok indent" "item_ok indent e"
  shows "entries ((config_item indent e @ [CHR 0x0A]) @ rest) = e # entries rest"
proof -
  let ?l = "config_item indent e"
  have chars: "CHR 0x0A \<notin> set ?l" "no_nul (?l @ [CHR 0x0A])"
    using assms
    by (auto simp: item_ok_def config_item_def plain_value_def indent_ok_def open_tag_def close_tag_def
        config_tags_def no_nul_def)
  have "fgets 512 (?l @ CHR 0x0A # rest) = Some (?l @ [CHR 0x0A], rest)"
    using assms(2) chars(1) by (intro fgets_line) (auto simp: item_ok_def)
  moreover have "line_text (?l @ [CHR 0x0A]) = ?l @ [CHR 0x0A]"
    using takeWhile_no_nul [OF chars(2)] by (simp only: line_text_def)
  ultimately show ?thesis
    using line_entry_item [OF assms] entries_fgets [of "?l @ CHR 0x0A # rest"] by simp
qed

interpretation client_file: settings_file entries "\<lambda>e. config_item indent e @ [CHR 0x0A]"
  "\<lambda>e. indent_ok indent \<and> item_ok indent e" for indent
proof
  show "entries [] = []" by (simp add: entries_def text_lines.simps map_filter_def)
qed (use entries_item in blast)

lemma entries_config_text:
  "indent_ok indent \<Longrightarrow> \<forall>e \<in> set es. item_ok indent e \<Longrightarrow> entries (config_text indent es) = es"
  unfolding config_text_def by (rule client_file.settings_of_items) simp

lemma setting_unique: "(tag, v) \<in> set es \<Longrightarrow> \<forall>e \<in> set es. fst e = tag \<longrightarrow> snd e = v \<Longrightarrow> setting es tag = v"
proof (induction es rule: rev_induct)
  case (snoc e es)
  then show ?case by (cases e) (auto simp: setting_def)
qed simp

lemma port_of_decimal: "0 < n \<Longrightarrow> n \<le> 65535 \<Longrightarrow> port_of (decimal n) = Some (int n)"
  using decimal_digits [of n] by (simp add: port_of_def strtol_decimal LONG_MAX_def)

section \<open>Properties\<close>

text \<open>
  C34. What the client takes from its configuration file, for every file, address parser and
  initial contents of the buffers: the entries are those of the file's lines of at most 511
  characters, a line gives the first of the four tags that has a value in it, the last value of a
  tag counts. The result is 0 with exactly these settings, or -1 where a port is no number from 1 to
  65535, the address, the port or the directory is missing, the family is not \<open>AF_INET\<close> or the address is
  not accepted; no buffer is overrun.
\<close>

theorem Config_exact:
  assumes "fopen path = Some inp"
  shows "client_Config fopen pton junk (Some path) (Some c)
    = (case config_meaning pton path (entries inp) of (r, c') \<Rightarrow> (Inr r, Some c'))"
  by (rule Config_meaning [where fopen = fopen and path = path, OF assms])

theorem Config_exact_witness:
  "client_Config (\<lambda>p. Some ''<port>80x</port>'') (\<lambda>s. None) [] (Some ''c.xml'') (Some zero_config)
    = (Inr (-1), Some zero_config)"
proof -
  have "entries ''<port>80x</port>'' = [(''port'', ''80x'')]"
    by (simp add: entries_def text_lines.simps map_filter_def line_text_def line_entry_cases
        tag_value_def open_tag_def close_tag_def Let_def numeral_eq_Suc strip_def isspace_def)
  moreover have "bad_entry (''port'', ''80x'')"
    by (simp add: bad_entry_def port_of_def strtol_def number_at_def Let_def isspace_def is_digit_def)
  ultimately show ?thesis
    using Config_exact [of "\<lambda>p. Some ''<port>80x</port>''" "''c.xml''" "''<port>80x</port>''" "\<lambda>s. None" "[]" zero_config]
    by (simp add: config_meaning_def Let_def)
qed

text \<open>
  C22. Round trip of the configuration file: a file that states the four settings, one element on a
  line of less than 511 characters, in any order and any number of times, loads into
  \<open>g_clientConfig\<close> with exactly these values.
\<close>

theorem Config_roundtrip:
  assumes "fopen path = Some (config_text indent es)"
    and "set es = {(''family'', ''AF_INET''), (''ip'', ip), (''port'', decimal port), (''localPath'', dir)}"
    and "indent_ok indent" "\<forall>e \<in> set es. item_ok indent e"
    and "0 < port" "port \<le> 65535" "length ip < 64" "length dir < 1024" "pton ip = Some a" "no_nul path"
  shows "\<exists>g. LoadGlobalConfig fopen pton junk (Some path) g0 = (Inr 0, g) \<and>
    cc_addr g = \<lparr>sin_family = AF_INET, sin_port = htons (of_nat port), s_addr = a\<rparr> \<and>
    cstr (cc_filePath g) = Some dir \<and> cstr (cc_configPath g) = Some (take 1023 path)"
proof -
  have ok: "item_ok indent (''ip'', ip)" "item_ok indent (''localPath'', dir)"
    using assms(2,4) by auto
  have settings: "setting es ''family'' = ''AF_INET''" "setting es ''ip'' = ip"
    "setting es ''port'' = decimal port" "setting es ''localPath'' = dir"
    by (rule setting_unique; simp add: assms(2))+
  have good: "\<not> (\<exists>e \<in> set es. bad_entry e)"
    using assms(2,5,6) by (auto simp: bad_entry_def port_of_decimal)
  have "ip \<noteq> []" "dir \<noteq> []" "no_nul dir"
    using ok by (auto simp: item_ok_def plain_value_def)
  with settings good assms(5-10) show ?thesis
    by (simp add: LoadGlobalConfig_def Config_meaning [where fopen = fopen and path = path, OF assms(1)] entries_config_text [OF assms(3,4)]
        config_meaning_def port_setting_def port_of_decimal Let_def snprintf_sized)
qed

theorem Config_roundtrip_witness:
  "\<exists>g. LoadGlobalConfig
      (\<lambda>p. Some (config_text '' '' [(''ip'', ''10.0.0.1''), (''port'', decimal 1234), (''localPath'', ''/tmp''),
        (''family'', ''AF_INET'')]))
      (\<lambda>s. if s = ''10.0.0.1'' then Some 16777226 else None) [] (Some ''c.xml'') zero_config = (Inr 0, g) \<and>
    cc_addr g = \<lparr>sin_family = AF_INET, sin_port = htons 1234, s_addr = 16777226\<rparr> \<and>
    cstr (cc_filePath g) = Some ''/tmp'' \<and> cstr (cc_configPath g) = Some ''c.xml''"
proof -
  let ?es = "[(''ip'', ''10.0.0.1''), (''port'', decimal 1234), (''localPath'', ''/tmp''), (''family'', ''AF_INET'')]"
  have d: "decimal 1234 = ''1234''" by (simp add: decimal.simps char_of_def bit_0)
  have "\<forall>e \<in> set ?es. item_ok '' '' e"
    by (simp add: d item_ok_def plain_value_def config_item_def open_tag_def close_tag_def config_tags_def
        strip_def isspace_def)
  then show ?thesis
    using Config_roundtrip [of "\<lambda>p. Some (config_text '' '' ?es)" "''c.xml''" "'' ''" ?es "''10.0.0.1''" 1234
        "''/tmp''" "\<lambda>s. if s = ''10.0.0.1'' then Some 16777226 else None" 16777226 "[]" zero_config]
    by (simp add: insert_commute indent_ok_def)
qed

end
