(* ===== verification/Build_Config.thy ===== *)
theory Build_Config
  imports C_Text
begin

text \<open>
  The settings that are compiled into the programs: \<open>server/serverConfig.h\<close> and
  \<open>client/clientConfig.h\<close>. The two programs have a \<open>CONFIG_FILE_PATH\<close> each.
\<close>

section \<open>The server's settings\<close>

definition server_CONFIG_FILE_PATH :: string where
  "server_CONFIG_FILE_PATH = ''server_config.xml''"

definition SERVER_FAMILY :: int where
  "SERVER_FAMILY = AF_INET"

definition SERVER_IP :: string where
  "SERVER_IP = ''0.0.0.0''"

definition SERVER_PORT :: int where
  "SERVER_PORT = 1234"

definition WORKER_THREAD_NUM :: int where
  "WORKER_THREAD_NUM = 4"

definition SERVER_FILE_PATH :: string where
  "SERVER_FILE_PATH = ''./server_files''"

section \<open>The client's settings\<close>

definition client_CONFIG_FILE_PATH :: string where
  "client_CONFIG_FILE_PATH = ''client_config.xml''"

definition CLIENT_FAMILY :: int where
  "CLIENT_FAMILY = AF_INET"

definition CLIENT_IP :: string where
  "CLIENT_IP = ''127.0.0.1''"

definition CLIENT_PORT :: int where
  "CLIENT_PORT = 1234"

definition CLIENT_FILE_PATH :: string where
  "CLIENT_FILE_PATH = ''/home/dingjr/DevCode/NexFile/tmp/netDisk''"

section \<open>Addresses\<close>

text \<open>The addresses both \<open>main\<close> functions fill in from them; \<open>inet_addr\<close> is an argument.\<close>

definition serverAddr :: "(string \<Rightarrow> cint) \<Rightarrow> sockaddr_in" where
  "serverAddr inet_addr =
     zero_addr\<lparr>sin_family := SERVER_FAMILY, sin_port := htons (word_of_int SERVER_PORT), s_addr := inet_addr SERVER_IP\<rparr>"

definition client_addr :: "(string \<Rightarrow> cint) \<Rightarrow> sockaddr_in" where
  "client_addr inet_addr =
     zero_addr\<lparr>sin_family := CLIENT_FAMILY, sin_port := htons (word_of_int CLIENT_PORT), s_addr := inet_addr CLIENT_IP\<rparr>"

lemmas server_settings = SERVER_FAMILY_def SERVER_IP_def SERVER_PORT_def WORKER_THREAD_NUM_def

lemmas client_settings = CLIENT_FAMILY_def CLIENT_IP_def CLIENT_PORT_def

text \<open>The client asks for the port the server listens on.\<close>

lemma ports_agree: "sin_port (client_addr a) = sin_port (serverAddr b)" "sin_family (client_addr a) = sin_family (serverAddr b)"
  by (simp_all add: client_addr_def serverAddr_def CLIENT_PORT_def SERVER_PORT_def CLIENT_FAMILY_def SERVER_FAMILY_def)

end
