(* ===== verification/Server_Config.thy ===== *)
theory Server_Config
  imports Build_Config
begin

text \<open>
  The server's configuration file, \<open>server/configParser.c\<close>: lines \<open>ip: ...\<close>, \<open>port: ...\<close> and
  \<open>threadNum: ...\<close> read with \<open>sscanf\<close>. The file, the address \<open>inet_pton\<close> finds in a string
  (\<open>None\<close> where it returns 0) and whether \<open>strdup\<close> finds memory are arguments. \<open>ERROR_CHECK\<close> ends
  the process with \<open>Exits 1\<close>.
\<close>

section \<open>The parser\<close>

text \<open>How \<open>open\<close> and the one \<open>read\<close> of a file go.\<close>

datatype file_read = NoFile | ReadFails | Bytes "char list"

text \<open>The path is on the heap; \<open>None\<close> is \<open>NULL\<close>. All of \<open>globalConfig\<close> starts as zero.\<close>

record server_config =
  ipv4 :: cint
  port :: cint
  threadNum :: cint
  sc_configPath :: "string option"

definition globalConfig_start :: server_config where
  "globalConfig_start = \<lparr>ipv4 = 0, port = 0, threadNum = 0, sc_configPath = None\<rparr>"

text \<open>\<open>sscanf(line, "...%63s", buf)\<close> where it returns 1: the word after the given text.\<close>

definition scan_word :: "string \<Rightarrow> string \<Rightarrow> string option" where
  "scan_word lit line =
     (let w = takeWhile (\<lambda>c. \<not> isspace c) (dropWhile isspace (drop (length lit) line)) in
      if take (length lit) line = lit \<and> w \<noteq> [] then Some (take 63 w) else None)"

text \<open>\<open>sscanf(line, "...%d", &n)\<close> where it returns 1: the number after the given text.\<close>

definition scan_number :: "string \<Rightarrow> string \<Rightarrow> int option" where
  "scan_number lit line =
     (if take (length lit) line = lit then map_option fst (number_at (drop (length lit) line)) else None)"

record scan_vars =
  ipStr :: "char list"
  scan_port :: cint
  scan_threads :: cint

definition scan_start :: scan_vars where
  "scan_start = \<lparr>ipStr = replicate 64 NUL, scan_port = 0, scan_threads = 0\<rparr>"

text \<open>The conversion of a number that does not fit an \<open>int\<close> is undefined.\<close>

definition fits_int :: "int \<Rightarrow> bool" where
  "fits_int n \<longleftrightarrow> - INT_MAX - 1 \<le> n \<and> n \<le> INT_MAX"

definition store_number :: "(cint \<Rightarrow> scan_vars \<Rightarrow> scan_vars) \<Rightarrow> int \<Rightarrow> (scan_vars, unit) prog" where
  "store_number f n = (if fits_int n then update (f (word_of_int n)) else halt SignedOverflow)"

definition scan_line :: "string \<Rightarrow> (scan_vars, unit) prog" where
  "scan_line line =
     (case scan_word ''ip:'' line of
        Some w \<Rightarrow>
          bnd (reads ipStr) (\<lambda>buf.
          bnd (in_bounds (poke 0 (w @ [NUL]) buf)) (\<lambda>buf'. update (\<lambda>v. v\<lparr>ipStr := buf'\<rparr>)))
      | None \<Rightarrow>
     (case scan_number ''port:'' line of
        Some n \<Rightarrow> store_number (\<lambda>k v. v\<lparr>scan_port := k\<rparr>) n
      | None \<Rightarrow>
     (case scan_number ''threadNum:'' line of
        Some n \<Rightarrow> store_number (\<lambda>k v. v\<lparr>scan_threads := k\<rparr>) n
      | None \<Rightarrow> ret ())))"

definition is_eol :: "char \<Rightarrow> bool" where
  "is_eol c \<longleftrightarrow> c = CHR 0x0D \<or> c = CHR 0x0A"

function scan_lines :: "string \<Rightarrow> (scan_vars, unit) prog" where
  "scan_lines buf =
     (case strtok_by is_eol buf of
        None \<Rightarrow> ret ()
      | Some (line, rest) \<Rightarrow> next_do (scan_line line) (scan_lines rest))"
  by pat_completeness auto
termination
  by (relation "measure length") (auto dest: strtok_by_shorter)

declare scan_lines.simps [simp del]

text \<open>At most 1023 bytes of the file are read; they are used up to the first NUL.\<close>

definition conf_buffer :: "char list \<Rightarrow> string" where
  "conf_buffer bs = takeWhile (\<lambda>c. c \<noteq> NUL) (take 1023 bs)"

text \<open>The state is \<open>*config\<close>.\<close>

definition parseConfig ::
  "(string \<Rightarrow> file_read) \<Rightarrow> (string \<Rightarrow> cint option) \<Rightarrow> bool \<Rightarrow> string \<Rightarrow> (server_config, int) prog"
where
  "parseConfig files pton strdup_ok configPath =
     (case files configPath of
        NoFile \<Rightarrow> halt (Exits 1)
      | ReadFails \<Rightarrow> halt (Exits 1)
      | Bytes bs \<Rightarrow>
          (case scan_lines (conf_buffer bs) scan_start of
             (Inl e, v) \<Rightarrow> halt e
           | (Inr _, v) \<Rightarrow>
               bnd (in_bounds (cstr (ipStr v))) (\<lambda>ip.
               case pton ip of
                 None \<Rightarrow> halt (Exits 1)
               | Some a \<Rightarrow>
                   if sint (scan_port v) \<le> 0 \<or> sint (scan_port v) > 65535 then halt (Exits 1)
                   else if sint (scan_threads v) \<le> 0 then halt (Exits 1)
                   else
                     next_do (update (\<lambda>c. c\<lparr>ipv4 := a, port := scan_port v, threadNum := scan_threads v,
                                            sc_configPath := None\<rparr>))
                     (if strdup_ok then
                        next_do (update (\<lambda>c. c\<lparr>sc_configPath := Some configPath\<rparr>)) (ret 0)
                      else halt (Exits 1)))))"

definition server_Config :: "server_config \<Rightarrow> sockaddr_in" where
  "server_Config config =
     \<lparr>sin_family = AF_INET, sin_port = htons (ucast (port config)), s_addr = ipv4 config\<rparr>"

record config_globals =
  globalConfig :: server_config
  configInitialized :: int

definition config_globals_start :: config_globals where
  "config_globals_start = \<lparr>globalConfig = globalConfig_start, configInitialized = 0\<rparr>"

text \<open>\<open>None\<close> is \<open>NULL\<close>; otherwise what the returned pointer points to.\<close>

definition getConfig ::
  "(string \<Rightarrow> file_read) \<Rightarrow> (string \<Rightarrow> cint option) \<Rightarrow> bool \<Rightarrow> (config_globals, server_config option) prog"
where
  "getConfig files pton strdup_ok g =
     (if configInitialized g = 0 then
        (case parseConfig files pton strdup_ok ''server.conf'' (globalConfig g) of
           (Inl e, c) \<Rightarrow> (Inl e, g\<lparr>globalConfig := c\<rparr>)
         | (Inr _, c) \<Rightarrow> (Inr None, g\<lparr>globalConfig := c\<rparr>))
      else (Inr (Some (globalConfig g)), g))"

text \<open>The globals after any calls that returned.\<close>

inductive config_reach :: "config_globals \<Rightarrow> bool" where
  start: "config_reach config_globals_start"
| call: "config_reach g \<Longrightarrow> getConfig files pton strdup_ok g = (Inr r, g') \<Longrightarrow> config_reach g'"

lemma config_reach_uninitialized: "config_reach g \<Longrightarrow> configInitialized g = 0"
  by (induction rule: config_reach.induct)
    (auto simp: config_globals_start_def getConfig_def split: if_splits prod.splits sum.splits)

section \<open>What a file means\<close>

datatype conf_setting = SetIp string | SetPort int | SetThreads int

definition line_setting :: "string \<Rightarrow> conf_setting option" where
  "line_setting line =
     (case scan_word ''ip:'' line of
        Some w \<Rightarrow> Some (SetIp w)
      | None \<Rightarrow> case scan_number ''port:'' line of
        Some n \<Rightarrow> Some (SetPort n)
      | None \<Rightarrow> map_option SetThreads (scan_number ''threadNum:'' line))"

function conf_lines :: "string \<Rightarrow> string list" where
  "conf_lines buf =
     (case strtok_by is_eol buf of None \<Rightarrow> [] | Some (line, rest) \<Rightarrow> line # conf_lines rest)"
  by pat_completeness auto
termination
  by (relation "measure length") (auto dest: strtok_by_shorter)

declare conf_lines.simps [simp del]

definition conf_settings :: "string \<Rightarrow> conf_setting list" where
  "conf_settings buf = List.map_filter line_setting (conf_lines buf)"

text \<open>The last setting of each kind counts.\<close>

fun apply_setting :: "conf_setting \<Rightarrow> string \<times> int \<times> int \<Rightarrow> string \<times> int \<times> int" where
  "apply_setting (SetIp w) (ip, p, t) = (w, p, t)"
| "apply_setting (SetPort n) (ip, p, t) = (ip, n, t)"
| "apply_setting (SetThreads n) (ip, p, t) = (ip, p, n)"

definition conf_values :: "conf_setting list \<Rightarrow> string \<times> int \<times> int" where
  "conf_values ss = fold apply_setting ss ([], 0, 0)"

fun setting_fits :: "conf_setting \<Rightarrow> bool" where
  "setting_fits (SetIp w) = True"
| "setting_fits (SetPort n) = fits_int n"
| "setting_fits (SetThreads n) = fits_int n"

definition conf_accepted :: "(string \<Rightarrow> cint option) \<Rightarrow> string \<times> int \<times> int \<Rightarrow> bool" where
  "conf_accepted pton vals \<longleftrightarrow>
     (case vals of (ip, p, t) \<Rightarrow> pton ip \<noteq> None \<and> 0 < p \<and> p \<le> 65535 \<and> 0 < t)"

definition holds_values :: "string \<times> int \<times> int \<Rightarrow> scan_vars \<Rightarrow> bool" where
  "holds_values vals v \<longleftrightarrow>
     (case vals of (ip, p, t) \<Rightarrow>
        length (ipStr v) = 64 \<and> cstr (ipStr v) = Some ip \<and> fits_int p \<and> fits_int t \<and>
        scan_port v = word_of_int p \<and> scan_threads v = word_of_int t)"

lemma scan_word_ok: "no_nul line \<Longrightarrow> scan_word lit line = Some w \<Longrightarrow> no_nul w \<and> length w \<le> 63"
  by (auto simp: scan_word_def Let_def no_nul_def split: if_splits
      dest!: in_set_takeD set_takeWhileD set_dropWhileD in_set_dropD)

lemma store_number_run:
  "store_number f n v = (if fits_int n then (Inr (), f (word_of_int n) v) else (Inl SignedOverflow, v))"
  by (simp add: store_number_def run)

lemma scan_line_run:
  assumes "holds_values vals v" "no_nul line"
  shows "\<exists>v'. scan_line line v = (case line_setting line of
      None \<Rightarrow> (Inr (), v')
    | Some s \<Rightarrow> if setting_fits s then (Inr (), v') else (Inl SignedOverflow, v')) \<and>
    (case line_setting line of
       None \<Rightarrow> holds_values vals v'
     | Some s \<Rightarrow> setting_fits s \<longrightarrow> holds_values (apply_setting s vals) v')"
proof (cases "scan_word ''ip:'' line")
  case None
  with assms(1) show ?thesis
    by (cases vals; cases "scan_number ''port:'' line"; cases "scan_number ''threadNum:'' line")
      (auto simp: scan_line_def line_setting_def store_number_run run holds_values_def)
next
  case (Some w)
  from scan_word_ok [OF assms(2) Some] have w: "no_nul w" "length w \<le> 63" by auto
  obtain ip p t where vals: "vals = (ip, p, t)" by (cases vals)
  have "poke 0 (w @ [NUL]) (ipStr v) = Some (w @ NUL # drop (Suc (length w)) (ipStr v))"
    using assms(1) w(2) by (simp add: poke_0 holds_values_def vals)
  with Some w assms(1) show ?thesis
    by (simp add: scan_line_def line_setting_def run holds_values_def vals cstr_terminated)
qed

lemma conf_settings_line:
  "strtok_by is_eol buf = Some (line, rest) \<Longrightarrow>
   conf_settings buf = (case line_setting line of None \<Rightarrow> [] | Some s \<Rightarrow> [s]) @ conf_settings rest"
  by (simp add: conf_settings_def conf_lines.simps [of buf] map_filter_def split: option.splits)

lemma conf_settings_end: "strtok_by is_eol buf = None \<Longrightarrow> conf_settings buf = []"
  by (simp add: conf_settings_def conf_lines.simps [of buf] map_filter_def)

lemma scan_lines_run:
  "holds_values vals v \<Longrightarrow> no_nul buf \<Longrightarrow>
   \<exists>v'. scan_lines buf v =
       (if \<forall>s \<in> set (conf_settings buf). setting_fits s then (Inr (), v') else (Inl SignedOverflow, v'))
     \<and> ((\<forall>s \<in> set (conf_settings buf). setting_fits s) \<longrightarrow>
         holds_values (fold apply_setting (conf_settings buf) vals) v')"
proof (induction buf arbitrary: vals v rule: scan_lines.induct)
  case (1 buf)
  show ?case
  proof (cases "strtok_by is_eol buf")
    case None
    with "1.prems" show ?thesis by (simp add: conf_settings_end scan_lines.simps run)
  next
    case (Some lr)
    then obtain line rest where tok: "strtok_by is_eol buf = Some (line, rest)" by (cases lr) auto
    note nul = strtok_by_no_nul [OF "1.prems"(2) tok]
    note step = scan_lines.simps [of buf] tok conf_settings_line [OF tok] next_do_def bnd_def
    from scan_line_run [OF "1.prems"(1)] nul obtain v1 where v1: "scan_line line v = (case line_setting line of
        None \<Rightarrow> (Inr (), v1)
      | Some s \<Rightarrow> if setting_fits s then (Inr (), v1) else (Inl SignedOverflow, v1))"
      "case line_setting line of
         None \<Rightarrow> holds_values vals v1
       | Some s \<Rightarrow> setting_fits s \<longrightarrow> holds_values (apply_setting s vals) v1" by blast
    show ?thesis
    proof (cases "line_setting line")
      case None
      with v1 "1.IH" [OF tok refl, of vals v1] nul show ?thesis by (simp add: step)
    next
      case (Some s)
      with v1 "1.IH" [OF tok refl, of "apply_setting s vals" v1] nul show ?thesis
        by (cases "setting_fits s") (simp_all add: step)
    qed
  qed
qed

lemma scan_start_holds: "holds_values ([], 0, 0) scan_start"
  by (simp add: holds_values_def scan_start_def cstr_def fits_int_def INT_MAX_def)

lemma sint_fits: "fits_int n \<Longrightarrow> sint (word_of_int n :: cint) = n"
  by (simp add: fits_int_def INT_MAX_def int_word_sint)

lemma conf_buffer_no_nul [simp]: "no_nul (conf_buffer bs)"
  by (auto simp: conf_buffer_def no_nul_def dest: set_takeWhileD)

text \<open>The structure after values that were accepted.\<close>

definition conf_stored ::
  "(string \<Rightarrow> cint option) \<Rightarrow> string option \<Rightarrow> string \<times> int \<times> int \<Rightarrow> server_config \<Rightarrow> server_config"
where
  "conf_stored pton path vals c =
     (case vals of (ip, p, t) \<Rightarrow>
        c\<lparr>ipv4 := the (pton ip), port := word_of_int p, threadNum := word_of_int t, sc_configPath := path\<rparr>)"

lemma parseConfig_meaning:
  assumes "files path = Bytes bs" "conf_settings (conf_buffer bs) = ss"
  shows "parseConfig files pton strdup_ok path c =
    (if \<exists>s \<in> set ss. \<not> setting_fits s then (Inl SignedOverflow, c)
     else if \<not> conf_accepted pton (conf_values ss) then (Inl (Exits 1), c)
     else if strdup_ok then (Inr 0, conf_stored pton (Some path) (conf_values ss) c)
     else (Inl (Exits 1), conf_stored pton None (conf_values ss) c))"
proof -
  from scan_lines_run [OF scan_start_holds conf_buffer_no_nul, of bs] assms(2) obtain v where
    v: "scan_lines (conf_buffer bs) scan_start =
        (if \<forall>s \<in> set ss. setting_fits s then (Inr (), v) else (Inl SignedOverflow, v))"
    "(\<forall>s \<in> set ss. setting_fits s) \<longrightarrow> holds_values (conf_values ss) v"
    unfolding conf_values_def by blast
  obtain ip p t where vals: "conf_values ss = (ip, p, t)" by (cases "conf_values ss")
  show ?thesis
  proof (cases "\<forall>s \<in> set ss. setting_fits s")
    case True
    with v(2) have "cstr (ipStr v) = Some ip" "sint (scan_port v) = p" "sint (scan_threads v) = t"
      "scan_port v = word_of_int p" "scan_threads v = word_of_int t"
      by (auto simp: holds_values_def vals sint_fits)
    with True v(1) assms(1) show ?thesis
      by (auto simp: parseConfig_def run vals conf_accepted_def conf_stored_def split: option.splits)
  next
    case False
    with v(1) assms(1) show ?thesis by (auto simp: parseConfig_def run)
  qed
qed

section \<open>Files written in the format\<close>

fun setting_line :: "conf_setting \<Rightarrow> string" where
  "setting_line (SetIp w) = ''ip: '' @ w"
| "setting_line (SetPort n) = ''port: '' @ decimal (nat n)"
| "setting_line (SetThreads n) = ''threadNum: '' @ decimal (nat n)"

fun setting_ok :: "conf_setting \<Rightarrow> bool" where
  "setting_ok (SetIp w) = (w \<noteq> [] \<and> bare w \<and> no_nul w \<and> length w \<le> 63)"
| "setting_ok (SetPort n) = (0 \<le> n)"
| "setting_ok (SetThreads n) = (0 \<le> n)"

definition eol_ok :: "string \<Rightarrow> bool" where
  "eol_ok eol \<longleftrightarrow> eol \<noteq> [] \<and> (\<forall>c \<in> set eol. is_eol c)"

definition conf_text :: "string \<Rightarrow> conf_setting list \<Rightarrow> string" where
  "conf_text eol ss = concat (map (\<lambda>s. setting_line s @ eol) ss)"

lemma bare_word: "bare w \<Longrightarrow> takeWhile (\<lambda>c. \<not> isspace c) w = w" "bare w \<Longrightarrow> dropWhile isspace w = w"
  by (induction w) (auto simp: bare_def)

lemma scan_number_decimal:
  "scan_number lit (lit @ CHR '' '' # decimal n) = Some (int n)"
  using number_at_digits [of "decimal n" "[]"] decimal_digits [of n]
  by (simp add: scan_number_def number_at_def isspace_def)

lemma line_setting_line: "setting_ok s \<Longrightarrow> line_setting (setting_line s) = Some s"
proof (cases s)
  case (SetIp w)
  moreover assume "setting_ok s"
  ultimately show ?thesis by (simp add: line_setting_def scan_word_def bare_word)
next
  case (SetPort n)
  moreover assume "setting_ok s"
  ultimately show ?thesis
    using scan_number_decimal [of "''port:''" "nat n"] by (simp add: line_setting_def scan_word_def)
next
  case (SetThreads n)
  moreover have "scan_number ''port:'' (''threadNum: '' @ decimal (nat n)) = None"
    by (simp add: scan_number_def)
  moreover assume "setting_ok s"
  ultimately show ?thesis
    using scan_number_decimal [of "''threadNum:''" "nat n"] by (simp add: line_setting_def scan_word_def)
qed

lemma setting_line_chars:
  "setting_ok s \<Longrightarrow> setting_line s \<noteq> [] \<and> no_nul (setting_line s) \<and> (\<forall>c \<in> set (setting_line s). \<not> is_eol c)"
proof -
  have words: "\<forall>c \<in> set ''ip: ''. \<not> is_eol c" "\<forall>c \<in> set ''port: ''. \<not> is_eol c"
    "\<forall>c \<in> set ''threadNum: ''. \<not> is_eol c" by (simp_all add: is_eol_def)
  have bare: "bare w \<Longrightarrow> \<forall>c \<in> set w. \<not> is_eol c" for w
    by (auto simp: bare_def is_eol_def isspace_def)
  assume ok: "setting_ok s"
  then have "\<forall>c \<in> set (setting_line s). \<not> is_eol c"
    using words bare bare_decimal(1)
    by (cases s; simp only: setting_line.simps setting_ok.simps set_append ball_Un) blast+
  with ok bare_decimal(2) show ?thesis by (cases s) simp_all
qed

lemma conf_settings_eol: "\<forall>c \<in> set u. is_eol c \<Longrightarrow> conf_settings (u @ x) = conf_settings x"
proof (induction u)
  case (Cons c u)
  then have "conf_lines (c # u @ x) = conf_lines (u @ x)"
    by (simp add: conf_lines.simps [of "c # u @ x"] conf_lines.simps [of "u @ x"] strtok_by_sep)
  with Cons show ?case by (simp add: conf_settings_def)
qed simp

lemma conf_settings_item:
  assumes "eol_ok eol" "setting_ok s"
  shows "conf_settings ((setting_line s @ eol) @ rest) = s # conf_settings rest"
proof -
  note chars = setting_line_chars [OF assms(2)]
  have "strtok_by is_eol (setting_line s @ eol @ rest) = Some (setting_line s, drop 1 (eol @ rest))"
    using chars assms by (intro strtok_by_word) (auto simp: eol_ok_def)
  moreover have "drop 1 (eol @ rest) = tl eol @ rest" "conf_settings (tl eol @ rest) = conf_settings rest"
    using conf_settings_eol [of "tl eol"] assms(1) by (cases eol; auto simp: eol_ok_def)+
  ultimately show ?thesis by (simp add: conf_settings_line line_setting_line [OF assms(2)])
qed

interpretation server_file: settings_file conf_settings "\<lambda>s. setting_line s @ eol"
  "\<lambda>s. eol_ok eol \<and> setting_ok s" for eol
proof
  show "conf_settings [] = []" by (simp add: conf_settings_end strtok_by_def)
qed (use conf_settings_item in blast)

lemma conf_settings_text:
  "eol_ok eol \<Longrightarrow> \<forall>s \<in> set ss. setting_ok s \<Longrightarrow> conf_settings (conf_text eol ss) = ss"
  unfolding conf_text_def by (rule server_file.settings_of_items) simp

lemma conf_text_no_nul:
  "eol_ok eol \<Longrightarrow> \<forall>s \<in> set ss. setting_ok s \<Longrightarrow> no_nul (conf_text eol ss)"
proof (induction ss)
  case (Cons s ss)
  have "no_nul eol" using Cons.prems(1) by (auto simp: eol_ok_def no_nul_def is_eol_def)
  with Cons setting_line_chars [of s] show ?case by (simp add: conf_text_def)
qed (simp add: conf_text_def)

lemma conf_values_unique:
  "set ss \<subseteq> {SetIp ip, SetPort p, SetThreads t} \<Longrightarrow>
   conf_values ss = (if SetIp ip \<in> set ss then ip else [], if SetPort p \<in> set ss then p else 0,
     if SetThreads t \<in> set ss then t else 0)"
proof (induction ss rule: rev_induct)
  case (snoc s ss)
  then show ?case by (cases s) (auto simp: conf_values_def)
qed (simp add: conf_values_def)

section \<open>Properties\<close>

text \<open>
  C35. What the server takes from its configuration file, for every file and address parser: the
  first 1023 bytes up to a NUL are cut into lines at carriage returns and newlines, a line sets the
  address, the port or the number of threads, the last of each counts. \<open>parseConfig\<close> returns only
  with an accepted address, a port from 1 to 65535 and a positive number of threads, which it
  stores; in every other case the process ends, unless a number exceeds \<open>int\<close>, which is undefined.
\<close>

theorem parseConfig_exact:
  assumes "files path = Bytes bs" "conf_settings (conf_buffer bs) = ss"
  shows "parseConfig files pton strdup_ok path c =
    (if \<exists>s \<in> set ss. \<not> setting_fits s then (Inl SignedOverflow, c)
     else if \<not> conf_accepted pton (conf_values ss) then (Inl (Exits 1), c)
     else if strdup_ok then (Inr 0, conf_stored pton (Some path) (conf_values ss) c)
     else (Inl (Exits 1), conf_stored pton None (conf_values ss) c))"
  by (rule parseConfig_meaning [where files = files and path = path, OF assms])

theorem parseConfig_exact_witness:
  "parseConfig (\<lambda>p. Bytes ''port: 80'') (\<lambda>s. None) True ''server.conf'' globalConfig_start
    = (Inl (Exits 1), globalConfig_start)"
proof -
  have b: "conf_buffer ''port: 80'' = conf_text [CHR 0x0A] [] @ ''port: 80''"
    by (simp add: conf_buffer_def conf_text_def)
  have "\<not> setting_fits s \<longleftrightarrow> False" if "s \<in> set (conf_settings ''port: 80'')" for s
    using that by (simp add: conf_settings_def conf_lines.simps strtok_by_def is_eol_def map_filter_def
        line_setting_def scan_word_def scan_number_def number_at_def isspace_def is_digit_def Let_def
        dec_val_def digit_val_def fits_int_def INT_MAX_def)
  with b parseConfig_exact [of "\<lambda>p. Bytes ''port: 80''" "''server.conf''" "''port: 80''" _ "\<lambda>s. None" True
      globalConfig_start, OF refl refl]
  show ?thesis by (auto simp: conf_text_def conf_accepted_def split: prod.splits)
qed

text \<open>
  C23. Round trip of the server's configuration file: a file of at most 1023 bytes that states
  address, port and number of threads, in any order and any number of times, on lines ended by
  newlines or carriage returns, gives exactly these values, and \<open>Config\<close> the socket address of them.
\<close>

theorem server_config_roundtrip:
  assumes "files path = Bytes (conf_text eol ss)" "length (conf_text eol ss) \<le> 1023" "eol_ok eol"
    and "set ss = {SetIp ip, SetPort (int p), SetThreads (int n)}"
    and "setting_ok (SetIp ip)" "0 < p" "p \<le> 65535" "0 < n" "int n \<le> INT_MAX" "pton ip = Some a"
  shows "\<exists>c'. parseConfig files pton True path c = (Inr 0, c') \<and>
    server_Config c' = \<lparr>sin_family = AF_INET, sin_port = htons (of_nat p), s_addr = a\<rparr> \<and>
    sint (threadNum c') = int n \<and> sc_configPath c' = Some path"
proof -
  have ok: "\<forall>s \<in> set ss. setting_ok s" using assms(4,5) by auto
  have "conf_buffer (conf_text eol ss) = conf_text eol ss"
    using assms(2) by (simp add: conf_buffer_def takeWhile_no_nul conf_text_no_nul [OF assms(3) ok])
  then have ss: "conf_settings (conf_buffer (conf_text eol ss)) = ss"
    by (simp add: conf_settings_text [OF assms(3) ok])
  have fits: "\<not> (\<exists>s \<in> set ss. \<not> setting_fits s)"
    using assms(4,7,9) by (auto simp: fits_int_def INT_MAX_def)
  have vals: "conf_values ss = (ip, int p, int n)"
    using conf_values_unique [of ss ip "int p" "int n"] assms(4) by simp
  have "parseConfig files pton True path c = (Inr 0, conf_stored pton (Some path) (ip, int p, int n) c)"
    using assms(6-8,10) fits
    by (simp add: parseConfig_meaning [where files = files and path = path, OF assms(1) ss] vals conf_accepted_def)
  moreover have "ucast (of_nat p :: cint) = (of_nat p :: 16 word)"
    using assms(7) by (simp add: unsigned_of_nat take_bit_nat_eq_self)
  ultimately show ?thesis
    using assms(9,10) by (simp add: conf_stored_def server_Config_def sint_of_nat_small)
qed

theorem server_config_roundtrip_witness:
  "\<exists>c'. parseConfig (\<lambda>p. Bytes (conf_text [CHR 0x0A] [SetPort 1234, SetIp ''0.0.0.0'', SetThreads 4]))
      (\<lambda>s. if s = ''0.0.0.0'' then Some 0 else None) True ''server.conf'' globalConfig_start = (Inr 0, c') \<and>
    server_Config c' = \<lparr>sin_family = AF_INET, sin_port = htons 1234, s_addr = 0\<rparr> \<and>
    sint (threadNum c') = 4 \<and> sc_configPath c' = Some ''server.conf''"
proof -
  let ?ss = "[SetPort 1234, SetIp ''0.0.0.0'', SetThreads 4]"
  have "length (conf_text [CHR 0x0A] ?ss) \<le> 1023"
    by (simp add: conf_text_def decimal.simps)
  moreover have "eol_ok [CHR 0x0A]" by (simp add: eol_ok_def is_eol_def)
  moreover have "setting_ok (SetIp ''0.0.0.0'')" by (simp add: bare_def isspace_def)
  ultimately show ?thesis
    using server_config_roundtrip [of "\<lambda>p. Bytes (conf_text [CHR 0x0A] ?ss)" "''server.conf''" "[CHR 0x0A]" ?ss
        "''0.0.0.0''" 1234 4 "\<lambda>s. if s = ''0.0.0.0'' then Some 0 else None" 0 globalConfig_start]
    by (simp add: insert_commute INT_MAX_def)
qed

text \<open>The file that \<open>CONFIG_FILE_PATH\<close> names is never looked at.\<close>

lemma getConfig_other_file: "getConfig (files(server_CONFIG_FILE_PATH := b)) pton strdup_ok = getConfig files pton strdup_ok"
  by (rule ext) (simp add: getConfig_def parseConfig_def server_CONFIG_FILE_PATH_def)

text \<open>
  \<open>getConfig\<close> never gives a configuration: nothing sets \<open>configInitialized\<close>, so every call
  parses \<open>server.conf\<close> again and returns \<open>NULL\<close> or ends the process, also where the file is
  right.
\<close>

lemma getConfig_null:
  "config_reach g \<Longrightarrow> fst (getConfig files pton strdup_ok g) \<noteq> Inr (Some c)"
  by (auto simp: getConfig_def config_reach_uninitialized split: prod.splits sum.splits)

lemma getConfig_null_example:
  "\<not> (\<exists>c. fst (getConfig (\<lambda>p. Bytes (conf_text [CHR 0x0A] [SetPort 1234, SetIp ''0.0.0.0'', SetThreads 4]))
     (\<lambda>s. if s = ''0.0.0.0'' then Some 0 else None) True config_globals_start) = Inr (Some c))"
  using getConfig_null [OF config_reach.start] by blast

end
