(* ===== verification/File_Transfer.thy ===== *)
theory File_Transfer
  imports Cmd_Handle
begin

text \<open>
  The file transfer helpers of the server, \<open>server/fileHandle.c\<close>: \<open>sendFile\<close> sends a file as the
  frame of its name, the frame of its size and its contents, \<open>recvFile\<close> stores one that arrives so.
\<close>

section \<open>The two functions\<close>

text \<open>\<open>sendfile(sockFd, fd, NULL, n)\<close>: one attempt to send up to \<open>n\<close> bytes of the file.\<close>

definition sys_sendfile :: "kernel \<Rightarrow> int \<Rightarrow> int \<Rightarrow> ('z proc_scheme, int) prog" where
  "sys_sendfile K fd n =
     bnd (reads (\<lambda>w. k_content K (ops w) fd)) (\<lambda>content.
     bnd (send1 (take (nat n) content)) (\<lambda>r.
     next_do (log_op (OpSendfile fd r)) (ret r)))"

text \<open>The results of \<open>send\<close> and \<open>sendfile\<close> are ignored.\<close>

definition sendFile :: "kernel \<Rightarrow> string \<Rightarrow> ('z proc_scheme, int) prog" where
  "sendFile K fileName =
     bnd (stack_train K) (\<lambda>train.
     bnd (in_bounds (memcpy (t_data train) fileName (of_nat (length fileName)))) (\<lambda>data.
     next_do (send1 (take (4 + length fileName) (le32 (of_nat (length fileName)) @ data)))
     (bnd (sys_open K fileName [O_RDONLY]) (\<lambda>fd.
      if fd = -1 then halt (Exits 1)
      else
        bnd (reads (\<lambda>w. k_size K (ops w) fd)) (\<lambda>st_size.
        bnd (in_bounds (memcpy data (le64 (word_of_int st_size)) 8)) (\<lambda>data2.
        next_do (send1 (take 12 (le32 8 @ data2)))
        (next_do (sys_sendfile K fd st_size)
        (next_do (log_op (OpClose fd)) (ret 0)))))))))"

text \<open>The file is opened without \<open>O_TRUNC\<close>; \<open>ftruncate\<close> then gives it the size received.\<close>

definition recvFile :: "kernel \<Rightarrow> ('z proc_scheme, int) prog" where
  "recvFile K =
     bnd (stack_train K) (\<lambda>t0.
     bnd (recv_train t0) (\<lambda>t1.
     bnd (in_bounds (memcpy (replicate 128 NUL) (t_data t1) (t_length t1))) (\<lambda>fileName.
     bnd (stack_bytes K 8) (\<lambda>filesize0.
     bnd (recv_train t1) (\<lambda>t2.
     bnd (in_bounds (memcpy filesize0 (t_data t2) (t_length t2))) (\<lambda>fsz.
     let filesize = sint (dec64 fsz) in
     bnd (in_bounds (cstr fileName)) (\<lambda>name.
     store_upload K name [O_RDWR, O_CREAT] filesize)))))))"

section \<open>Sending\<close>

text \<open>What the two sides exchange for one file.\<close>

definition file_bytes :: "string \<Rightarrow> char list \<Rightarrow> char list" where
  "file_bytes name content = frame name @ frame (le64 (of_nat (length content))) @ content"

definition train_junk :: "kernel \<Rightarrow> sysop list \<Rightarrow> train" where
  "train_junk K h = \<lparr>t_length = dec32 (take 4 (fit 1028 (k_stack K h 1028))),
     t_data = drop 4 (fit 1028 (k_stack K h 1028))\<rparr>"

lemma length_train_junk [simp]: "length (t_data (train_junk K h)) = DATA_SIZE"
  by (simp add: train_junk_def)

lemma stack_train_run: "bnd (stack_train K) f w = f (train_junk K (ops w)) w"
  by (simp add: stack_train_def bnd_assoc stack_bytes_run bnd_simps train_junk_def)

lemma send1_all: "plan w = [] \<Longrightarrow> send1 d w = (Inr (int (length d)), w\<lparr>txed := txed w @ d\<rparr>)"
  by (simp add: send1_def)

lemma sendFile_run:
  assumes "plan w = []" "length name < DATA_SIZE"
    and fd: "k_open K (ops w) name [O_RDONLY] = fd" "fd \<noteq> -1"
    and cont: "\<And>h. k_size K h fd = int (length content)" "\<And>h. k_content K h fd = content"
  shows "sendFile K name w = (Inr 0, w\<lparr>txed := txed w @ file_bytes name content,
    ops := ops w @ [OpOpen name [O_RDONLY] fd, OpSendfile fd (int (length content)), OpClose fd]\<rparr>)"
proof -
  let ?t = "train_junk K (ops w)"
  let ?d = "name @ drop (length name) (t_data ?t)"
  have name: "memcpy (t_data ?t) name (of_nat (length name)) = Some ?d"
    using assms(2) memcpy_at [of "of_nat (length name)" "length name" name "t_data ?t"]
    by (simp add: size_t_of_nat_small INT_MAX_def)
  have size: "memcpy ?d (le64 n) 8 = Some (le64 n @ drop 8 ?d)" for n
    using memcpy_at [of 8 8 "le64 n" ?d] size_t_of_nat_small [of 8] assms(2)
    by (simp add: INT_MAX_def)
  have f1: "take (4 + length name) (le32 n @ ?d) = le32 n @ name"
    and f2: "take 12 (le32 m @ le64 k @ x) = le32 m @ le64 k" for n m k x by simp_all
  show ?thesis
    unfolding sendFile_def stack_train_run name bnd_Some f1
    using assms(1) fd cont
    by (simp add: next_do_def bnd_def send1_all run sys_open_def sys_sendfile_def size f2 file_bytes_def
        frame_def del: take_append)
qed

section \<open>Receiving\<close>

lemma recvFile_run:
  assumes pay: "payload (rx w) = file_bytes name content @ rest"
    and len: "length name < 128" "no_nul name" "int (length content) \<le> INT_MAX"
    and fd: "k_open K (ops w) name [O_RDWR, O_CREAT] = fd" "fd \<noteq> -1"
    and map: "k_map K (ops w @ [OpOpen name [O_RDWR, O_CREAT] fd, OpTruncate fd (int (length content))])
        fd (int (length content)) = Some mem"
  obtains s where
    "recvFile K w = (Inr 0, w\<lparr>rx := s, ops := ops w @ upload_ops name [O_RDWR, O_CREAT] fd content\<rparr>)"
    "payload s = rest" "ending s = ending (rx w)"
proof -
  let ?n = "of_nat (length content) :: clong"
  have pay0: "payload (rx w) = frame name @ frame (le64 ?n) @ content @ rest"
    using pay by (simp add: file_bytes_def)
  have fits: "length name \<le> DATA_SIZE" using len(1) by simp
  obtain t1 s1 t2 s2 where
    t: "recv_train (train_junk K (ops w)) w = (Inr t1, w\<lparr>rx := s1\<rparr>)"
      "recv_train t1 (w\<lparr>rx := s1\<rparr>) = (Inr t2, w\<lparr>rx := s2\<rparr>)"
    and s2: "payload s2 = content @ rest" "ending s2 = ending (rx w)"
    and copies: "\<forall>arr. length name \<le> length arr \<and> int (length arr) \<le> INT_MAX \<longrightarrow>
        memcpy arr (t_data t1) (t_length t1) = Some (name @ drop (length name) arr)"
      "\<forall>arr. length arr = 8 \<longrightarrow> memcpy arr (t_data t2) (t_length t2) = Some (le64 ?n)"
    by (rule two_frames [OF pay0 fits, of "train_junk K (ops w)"]) simp_all
  have name: "memcpy (replicate 128 NUL) (t_data t1) (t_length t1)
      = Some (name @ drop (length name) (replicate 128 NUL))"
    using len(1) by (intro copies(1) [rule_format]) (simp_all add: INT_MAX_def)
  have size: "memcpy (fit 8 (k_stack K (ops w) 8)) (t_data t2) (t_length t2) = Some (le64 ?n)"
    by (simp add: copies(2))
  have str: "cstr (name @ drop (length name) (replicate 128 NUL)) = Some name"
    using len(1) cstr_padded [OF len(2), of 128] by simp
  have b: "bnd (recv_train (train_junk K (ops w))) f w = f t1 (w\<lparr>rx := s1\<rparr>)"
    "bnd (recv_train t1) f (w\<lparr>rx := s1\<rparr>) = f t2 (w\<lparr>rx := s2\<rparr>)"
    "bnd (stack_bytes K 8) g (w\<lparr>rx := s1\<rparr>) = g (fit 8 (k_stack K (ops w) 8)) (w\<lparr>rx := s1\<rparr>)"
    for f :: "_ \<Rightarrow> (_, int) prog" and g :: "_ \<Rightarrow> (_, int) prog"
    by (simp_all add: bnd_def t stack_bytes_def run)
  have sz: "sint ?n = int (length content)"
    using len(3) by (simp add: INT_MAX_def sint_of_nat_clong)
  have "recvFile K w = store_upload K name [O_RDWR, O_CREAT] (int (length content)) (w\<lparr>rx := s2\<rparr>)"
    unfolding recvFile_def
    by (simp only: stack_train_run b name bnd_Some size dec64_le64 Let_def sz str)
  moreover obtain s3 where "store_upload K name [O_RDWR, O_CREAT] (int (length content)) (w\<lparr>rx := s2\<rparr>)
      = (Inr 0, w\<lparr>rx := s2, rx := s3, ops := ops (w\<lparr>rx := s2\<rparr>) @ upload_ops name [O_RDWR, O_CREAT] fd content\<rparr>)"
    "payload s3 = rest" "ending s3 = ending s2"
    by (rule store_upload_run [of "w\<lparr>rx := s2\<rparr>" content rest K name _ fd mem])
      (use s2(1) fd map in simp_all)
  ultimately show ?thesis using s2 that by simp
qed

section \<open>Properties\<close>

text \<open>
  C24. Round trip of a file: what \<open>sendFile\<close> transmits, when the socket takes it all, makes
  \<open>recvFile\<close> on the other side, however the bytes are cut up, store exactly the contents of the
  file under its name, with its size, and leave the stream right behind it.
\<close>

theorem file_crosses:
  assumes "plan s = []" "length name < 128" "no_nul name" "int (length content) \<le> INT_MAX"
    and "k_open K1 (ops s) name [O_RDONLY] = fd1" "fd1 \<noteq> -1"
    and "\<And>h. k_size K1 h fd1 = int (length content)" "\<And>h. k_content K1 h fd1 = content"
    and "payload (rx r) = drop (length (txed s)) (txed (snd (sendFile K1 name s))) @ rest"
    and "k_open K2 (ops r) name [O_RDWR, O_CREAT] = fd2" "fd2 \<noteq> -1"
    and "k_map K2 (ops r @ [OpOpen name [O_RDWR, O_CREAT] fd2, OpTruncate fd2 (int (length content))])
        fd2 (int (length content)) = Some mem"
  shows "fst (sendFile K1 name s) = Inr 0 \<and>
    (\<exists>r'. recvFile K2 r = (Inr 0, r') \<and> payload (rx r') = rest \<and>
       ops r' = ops r @ [OpOpen name [O_RDWR, O_CREAT] fd2, OpTruncate fd2 (int (length content)),
         OpMap fd2 (int (length content)), OpStore fd2 content, OpClose fd2])"
proof -
  have "length name < DATA_SIZE" using assms(2) by simp
  note sent = sendFile_run [OF assms(1) this assms(5-8)]
  with assms(9) have pay: "payload (rx r) = file_bytes name content @ rest" by simp
  show ?thesis
    by (rule recvFile_run [OF pay assms(2-4,10-12)]) (auto simp: upload_ops_def sent)
qed

text \<open>A system with the file \<open>/a\<close>, for the example.\<close>

definition file_kernel :: kernel where
  "file_kernel = calm_kernel\<lparr>k_size := \<lambda>h fd. 3, k_content := \<lambda>h fd. ''xyz''\<rparr>"

theorem file_crosses_witness:
  "\<exists>r'. recvFile calm_kernel (server_with (txed (snd (sendFile file_kernel ''/a''
        \<lparr>rx = [], plan = [], txed = [], ops = []\<rparr>))) clientPath_start) = (Inr 0, r') \<and>
    ops r' = [OpOpen ''/a'' [O_RDWR, O_CREAT] 5, OpTruncate 5 3, OpMap 5 3, OpStore 5 ''xyz'', OpClose 5]"
proof -
  have "no_nul ''/a''" by simp
  from file_crosses [OF _ _ this, of "\<lparr>rx = [], plan = [], txed = [], ops = []\<rparr>" "''xyz''" file_kernel 5
      "server_with (txed (snd (sendFile file_kernel ''/a'' \<lparr>rx = [], plan = [], txed = [], ops = []\<rparr>))) clientPath_start"
      "[]" calm_kernel 5 "[]"]
  show ?thesis by (auto simp: file_kernel_def calm_kernel_def INT_MAX_def)
qed

end
