(* ===== verification/Logger.thy ===== *)
theory Logger
  imports C_Text
begin

text \<open>
  The macros of \<open>shared/logger.h\<close>: the checks that end the process, the lines the logging macros
  print, and \<open>SYSLOG\<close>, which logs from a detached grandchild so that the caller never waits for the log.
\<close>

section \<open>Checks\<close>

definition ERROR_CHECK :: "int \<Rightarrow> int \<Rightarrow> ('w, unit) prog" where
  "ERROR_CHECK num expect = (if num = expect then halt (Exits 1) else ret ())"

definition ARGC_CHECK :: "int \<Rightarrow> int \<Rightarrow> ('w, unit) prog" where
  "ARGC_CHECK argc num = (if argc \<noteq> num then halt (Exits 1) else ret ())"

definition LOG_FATAL :: "('w, unit) prog" where
  "LOG_FATAL = halt (Exits 1)"

lemma ERROR_CHECK_run [run]: "next_do (ERROR_CHECK n e) m w = (if n = e then (Inl (Exits 1), w) else m w)"
  by (simp add: ERROR_CHECK_def run)

section \<open>The lines printed\<close>

text \<open>Where a macro is used: \<open>__FILE__\<close>, \<open>__LINE__\<close> and \<open>__func__\<close>.\<close>

record log_site =
  site_file :: string
  site_line :: nat
  site_func :: string

abbreviation ESC :: char where
  "ESC \<equiv> CHR 0x1B"

abbreviation LF :: char where
  "LF \<equiv> CHR 0x0A"

definition LOG_COLOR_RESET :: string where
  "LOG_COLOR_RESET = ESC # ''[0m''"

definition LOG_COLOR_FATAL :: string where
  "LOG_COLOR_FATAL = ESC # ''[1;35m''"

definition LOG_COLOR_ERROR :: string where
  "LOG_COLOR_ERROR = ESC # ''[1;31m''"

definition LOG_COLOR_INFO :: string where
  "LOG_COLOR_INFO = ESC # ''[1;32m''"

definition LOG_COLOR_DEBUG :: string where
  "LOG_COLOR_DEBUG = ESC # ''[1;36m''"

definition site_text :: "log_site \<Rightarrow> string" where
  "site_text at = '' '' @ site_file at @ '':'' @ decimal (site_line at) @ '' '' @ site_func at @ ''() | ''"

text \<open>What goes to \<open>stderr\<close> (errors) or \<open>stdout\<close>; \<open>msg\<close> is the format with its arguments filled in.\<close>

definition LOG_ERROR :: "log_site \<Rightarrow> string \<Rightarrow> string" where
  "LOG_ERROR at msg = LOG_COLOR_ERROR @ ''[ERROR]'' @ LOG_COLOR_RESET @ site_text at @ msg @ [LF]"

definition LOGINFO :: "log_site \<Rightarrow> string \<Rightarrow> string" where
  "LOGINFO at msg = LOG_COLOR_INFO @ ''[INFO]'' @ LOG_COLOR_RESET @ site_text at @ msg @ [LF]"

definition LOG_DEBUG :: "log_site \<Rightarrow> string \<Rightarrow> string" where
  "LOG_DEBUG at msg = LOG_COLOR_DEBUG @ ''[DEBUG]'' @ LOG_COLOR_RESET @ site_text at @ msg @ [LF]"

definition LOG_FATAL_text :: "log_site \<Rightarrow> string \<Rightarrow> string" where
  "LOG_FATAL_text at msg = LOG_COLOR_FATAL @ ''[FATAL]'' @ LOG_COLOR_RESET @ site_text at @ msg @ [LF]"

definition ERROR_CHECK_text :: "log_site \<Rightarrow> string \<Rightarrow> string" where
  "ERROR_CHECK_text at message =
     LOG_COLOR_ERROR @ ''[ERROR]'' @ LOG_COLOR_RESET @ site_text at @ message @ '' '' @ [LF]"

text \<open>A message without line breaks gives one line; the newline that many callers put at its end
  gives an empty line after it. A reader can tell the levels apart by the first characters.\<close>

lemma log_line_breaks:
  assumes "LF \<notin> set (site_file at)" "LF \<notin> set (site_func at)"
  shows "count_list (LOG_ERROR at msg) LF = Suc (count_list msg LF)"
    "count_list (LOGINFO at msg) LF = Suc (count_list msg LF)"
    "count_list (LOG_DEBUG at msg) LF = Suc (count_list msg LF)"
    "count_list (LOG_FATAL_text at msg) LF = Suc (count_list msg LF)"
    "count_list (ERROR_CHECK_text at msg) LF = Suc (count_list msg LF)"
proof -
  have "LF \<notin> set (decimal (site_line at))"
    using decimal_digits [of "site_line at"] by (auto simp: is_digit_def)
  with assms have "count_list (site_text at) LF = 0"
    by (simp add: site_text_def count_list_0_iff)
  then show "count_list (LOG_ERROR at msg) LF = Suc (count_list msg LF)"
    "count_list (LOGINFO at msg) LF = Suc (count_list msg LF)"
    "count_list (LOG_DEBUG at msg) LF = Suc (count_list msg LF)"
    "count_list (LOG_FATAL_text at msg) LF = Suc (count_list msg LF)"
    "count_list (ERROR_CHECK_text at msg) LF = Suc (count_list msg LF)"
    by (simp_all add: LOG_ERROR_def LOGINFO_def LOG_DEBUG_def LOG_FATAL_text_def ERROR_CHECK_text_def
        LOG_COLOR_ERROR_def LOG_COLOR_INFO_def LOG_COLOR_DEBUG_def LOG_COLOR_FATAL_def LOG_COLOR_RESET_def)
qed

lemma log_levels_differ:
  "LOG_ERROR at msg \<noteq> LOGINFO at' msg'" "LOG_ERROR at msg \<noteq> LOG_DEBUG at' msg'"
  "LOGINFO at msg \<noteq> LOG_DEBUG at' msg'"
  by (simp_all add: LOG_ERROR_def LOGINFO_def LOG_DEBUG_def LOG_COLOR_ERROR_def LOG_COLOR_INFO_def
      LOG_COLOR_DEBUG_def)

section \<open>Logging from another process\<close>

datatype log_event =
  LogFork int
| LogSetsid int
| LogWaitpid int
| LogOpen
| LogMessage string
| LogClose
| LogExit int

text \<open>
  What the three processes do: the caller, its child and its grandchild; a process that does not
  exist does nothing. \<open>pid\<close> is what the first \<open>fork\<close> returns to the caller and \<open>pid2\<close> what the
  second one returns to the child, both not 0; \<open>sid\<close> is the result of \<open>setsid\<close>.
\<close>

definition SYSLOG ::
  "int \<Rightarrow> int \<Rightarrow> int \<Rightarrow> string \<Rightarrow> log_event list \<times> log_event list \<times> log_event list"
where
  "SYSLOG pid sid pid2 msg =
     (if pid > 0 then [LogFork pid, LogWaitpid pid]
      else [LogFork pid, LogOpen, LogMessage msg, LogClose],
      if pid \<le> 0 then []
      else if sid < 0 then [LogSetsid sid, LogExit 1]
      else if pid2 < 0 then [LogSetsid sid, LogFork pid2, LogExit 1]
      else [LogSetsid sid, LogFork pid2, LogExit 0],
      if pid \<le> 0 \<or> sid < 0 \<or> pid2 \<le> 0 then []
      else [LogOpen, LogMessage msg, LogClose, LogExit 0])"

text \<open>The message is logged at most once, and lost only where the child cannot detach; only the
  child and the grandchild exit.\<close>

lemma SYSLOG_once:
  assumes "pid \<noteq> 0" "pid2 \<noteq> 0" "SYSLOG pid sid pid2 msg = (caller, child, grandchild)"
  shows "filter (\<lambda>e. \<exists>m. e = LogMessage m) (caller @ child @ grandchild)
      = (if pid < 0 \<or> 0 \<le> sid \<and> 0 < pid2 then [LogMessage msg] else [])"
    "\<forall>n. LogExit n \<notin> set caller"
  using assms by (auto simp: SYSLOG_def split: if_splits)

end
