(* ===== verification/Net_Setup.thy ===== *)
theory Net_Setup
  imports Worker_Pool Build_Config Logger
begin

text \<open>
  Setting up the connections: \<open>server/tcpInit.c\<close>, \<open>epoll.c\<close> of both programs, the start of \<open>main\<close>
  in \<open>server/server.c\<close> up to its event loop, with the fork and the thread pool, and the start of
  \<open>main\<close> in \<open>client/client.c\<close> up to the login. The answers of the system calls are an argument,
  a function of the calls made before and the call; so is what \<open>inet_addr\<close> makes of a string.
\<close>

section \<open>System calls\<close>

datatype epoll_op = EPOLL_CTL_ADD | EPOLL_CTL_DEL

text \<open>\<open>CallReuse\<close> is \<open>setsockopt\<close> with \<open>SO_REUSEADDR\<close>, \<open>CallIgnore\<close> is \<open>signal(SIGCHLD, SIG_IGN)\<close>.\<close>

datatype net_call =
  CallPipe
| CallFork
| CallIgnore
| CallWait
| CallSocket
| CallReuse int
| CallBind int sockaddr_in
| CallListen int int
| CallConnect int sockaddr_in
| CallEpollCreate
| CallEpollCtl int epoll_op int
| CallClose int
| CallWrite int string
| CallAccept int
| CallRead int

type_synonym net_log = "(net_call \<times> int) list"

type_synonym answers = "net_log \<Rightarrow> net_call \<Rightarrow> int"

record boot =
  calls :: net_log

definition sys_call :: "answers \<Rightarrow> net_call \<Rightarrow> ('z boot_scheme, int) prog" where
  "sys_call ans c w = (let r = ans (calls w) c in (Inr r, w\<lparr>calls := calls w @ [(c, r)]\<rparr>))"

definition epollADD :: "answers \<Rightarrow> int \<Rightarrow> int \<Rightarrow> ('z boot_scheme, int) prog" where
  "epollADD ans epollFd fd = sys_call ans (CallEpollCtl epollFd EPOLL_CTL_ADD fd)"

definition epollDEL :: "answers \<Rightarrow> int \<Rightarrow> int \<Rightarrow> ('z boot_scheme, int) prog" where
  "epollDEL ans epollFd fd = sys_call ans (CallEpollCtl epollFd EPOLL_CTL_DEL fd)"

text \<open>The client's copy of the file.\<close>

definition client_epollADD :: "answers \<Rightarrow> int \<Rightarrow> int \<Rightarrow> ('z boot_scheme, int) prog" where
  "client_epollADD ans epollFd fd = sys_call ans (CallEpollCtl epollFd EPOLL_CTL_ADD fd)"

definition client_epollDEL :: "answers \<Rightarrow> int \<Rightarrow> int \<Rightarrow> ('z boot_scheme, int) prog" where
  "client_epollDEL ans epollFd fd = sys_call ans (CallEpollCtl epollFd EPOLL_CTL_DEL fd)"

lemma sys_call_run [run]:
  "bnd (sys_call ans c) f w = f (ans (calls w) c) (w\<lparr>calls := calls w @ [(c, ans (calls w) c)]\<rparr>)"
  "next_do (sys_call ans c) n w = n (w\<lparr>calls := calls w @ [(c, ans (calls w) c)]\<rparr>)"
  by (simp_all add: sys_call_def next_do_def bnd_def Let_def)

section \<open>A listening socket\<close>

definition inet_address :: "int \<Rightarrow> cint \<Rightarrow> sockaddr_in" where
  "inet_address port a = \<lparr>sin_family = AF_INET, sin_port = htons (word_of_int port), s_addr = a\<rparr>"

text \<open>The result of \<open>tcpInit\<close> with what it stores in \<open>*sockFd\<close>.\<close>

definition tcpInit ::
  "answers \<Rightarrow> (string \<Rightarrow> cint) \<Rightarrow> string \<Rightarrow> int \<Rightarrow> ('z boot_scheme, int \<times> int) prog"
where
  "tcpInit ans inet_addr ip port =
     bnd (sys_call ans CallSocket) (\<lambda>sockFd.
     next_do (ERROR_CHECK sockFd (-1))
     (bnd (sys_call ans (CallReuse sockFd)) (\<lambda>r1.
      if r1 = -1 then next_do (sys_call ans (CallClose sockFd)) (ret (-1, sockFd))
      else
        bnd (sys_call ans (CallBind sockFd (inet_address port (inet_addr ip)))) (\<lambda>r2.
        if r2 = -1 then next_do (sys_call ans (CallClose sockFd)) (ret (-1, sockFd))
        else
          bnd (sys_call ans (CallListen sockFd 5)) (\<lambda>r3.
          if r3 = -1 then next_do (sys_call ans (CallClose sockFd)) (ret (-1, sockFd))
          else ret (0, sockFd))))))"

text \<open>\<open>main\<close> of the client up to the connected socket.\<close>

definition client_connect :: "answers \<Rightarrow> (string \<Rightarrow> cint) \<Rightarrow> ('z boot_scheme, int) prog" where
  "client_connect ans inet_addr =
     bnd (sys_call ans CallSocket) (\<lambda>sockfd.
     next_do (ERROR_CHECK sockfd (-1))
     (bnd (sys_call ans (CallConnect sockfd (client_addr inet_addr))) (\<lambda>ret_c.
      next_do (ERROR_CHECK ret_c (-1)) (ret sockfd))))"

lemma serverAddr_inet: "serverAddr inet_addr = inet_address 1234 (inet_addr ''0.0.0.0'')"
  by (simp add: serverAddr_def inet_address_def server_settings zero_addr_def)

section \<open>The server's start\<close>

text \<open>The state of \<open>main\<close>: its variable \<open>threadPool\<close>, split into the array of threads and the rest.\<close>

record server_boot = boot +
  b_arr :: workerArr
  b_pool :: pool

definition init_pool :: "bool \<Rightarrow> int \<Rightarrow> ('z server_boot_scheme, int) prog" where
  "init_pool calloc_ok n w =
     (case threadPoolInit calloc_ok n (b_arr w, b_pool w) of
        (r, (a, p)) \<Rightarrow> (r, w\<lparr>b_arr := a, b_pool := p\<rparr>))"

text \<open>A worker runs for each thread that \<open>pthread_create\<close> could create.\<close>

definition start_workers :: "(nat \<Rightarrow> int \<times> nat) \<Rightarrow> ('z server_boot_scheme, int) prog" where
  "start_workers create w =
     (case makeWorker create (b_arr w) of
        (r, a) \<Rightarrow> (r, w\<lparr>b_arr := a, b_pool := (b_pool w)\<lparr>workers :=
          replicate (length (filter (\<lambda>i. fst (create i) = 0) [0..<nat (workerNum (b_arr w))])) WTop\<rparr>\<rparr>))"

text \<open>The pipe's ends are \<open>exitPipefd\<close>. The parent process waits for the child and ends; the child
  goes on to the event loop with the listening socket and the epoll instance.\<close>

definition server_start ::
  "answers \<Rightarrow> (string \<Rightarrow> cint) \<Rightarrow> bool \<Rightarrow> (nat \<Rightarrow> int \<times> nat) \<Rightarrow> int \<times> int \<Rightarrow>
   ('z server_boot_scheme, int \<times> int) prog"
where
  "server_start ans inet_addr calloc_ok create exitPipefd =
     next_do (sys_call ans CallPipe)
     (bnd (sys_call ans CallFork) (\<lambda>pid.
      next_do (ERROR_CHECK pid (-1))
      (if pid \<noteq> 0 then
         next_do (sys_call ans (CallClose (fst exitPipefd)))
         (next_do (sys_call ans CallIgnore)
         (next_do (sys_call ans CallWait) (halt (Exits 0))))
       else
         next_do (sys_call ans (CallClose (snd exitPipefd)))
         (next_do (init_pool calloc_ok WORKER_THREAD_NUM)
         (next_do (start_workers create)
         (bnd (sys_call ans CallSocket) (\<lambda>sockFd.
          next_do (ERROR_CHECK sockFd (-1))
          (bnd (sys_call ans (CallReuse sockFd)) (\<lambda>ret1.
           next_do (ERROR_CHECK ret1 (-1))
           (bnd (sys_call ans (CallBind sockFd (serverAddr inet_addr))) (\<lambda>ret2.
            next_do (ERROR_CHECK ret2 (-1))
            (bnd (sys_call ans (CallListen sockFd 5)) (\<lambda>ret3.
             next_do (ERROR_CHECK ret3 (-1))
             (bnd (sys_call ans CallEpollCreate) (\<lambda>epFd.
              next_do (epollADD ans epFd sockFd)
              (next_do (epollADD ans epFd (fst exitPipefd))
              (ret (sockFd, epFd))))))))))))))))))"

text \<open>The handler that would ask for a shutdown.\<close>

definition sigchld_handler :: "answers \<Rightarrow> int \<times> int \<Rightarrow> ('z boot_scheme, unit) prog" where
  "sigchld_handler ans exitPipefd =
     next_do (sys_call ans (CallWrite (snd exitPipefd) ''exit'')) (ret ())"

section \<open>Threads\<close>

text \<open>\<open>pthread_create\<close> reports errors by positive numbers, which are not noticed.\<close>

lemma makeWorker_loop_ok:
  "\<forall>i. fst (create i) \<noteq> -1 \<Longrightarrow> fst (makeWorker_loop create i arr) = Inr 0"
  by (induction create i arr rule: makeWorker_loop.induct)
    (subst makeWorker_loop.simps; simp add: Let_def split: prod.splits; metis fst_conv)

lemma makeWorker_ignores_errors: "\<forall>i. fst (create i) \<noteq> -1 \<Longrightarrow> fst (makeWorker create arr) = Inr 0"
  by (simp add: makeWorker_def makeWorker_loop_ok)

text \<open>Only a return value of \<open>-1\<close>, which no \<open>pthread_create\<close> gives, ends the process.\<close>

lemma makeWorker_loop_result:
  "fst (makeWorker_loop create i arr)
     = (if \<exists>j. i \<le> j \<and> int j < workerNum arr \<and> fst (create j) = -1 then Inl (Exits 1) else Inr 0)"
proof (induction create i arr rule: makeWorker_loop.induct)
  case (1 create i arr)
  obtain r tid where c: "create i = (r, tid)" by fastforce
  note step = makeWorker_loop.simps [of create i arr]
  show ?case
  proof (cases "int i < workerNum arr \<and> r \<noteq> -1")
    case True
    then have "(\<exists>j. Suc i \<le> j \<and> int j < workerNum arr \<and> fst (create j) = -1)
        \<longleftrightarrow> (\<exists>j. i \<le> j \<and> int j < workerNum arr \<and> fst (create j) = -1)"
      using c by (metis Suc_leD fst_conv le_antisym not_less_eq_eq)
    with True "1.IH" [OF _ c [symmetric] refl] c show ?thesis by (simp add: step Let_def)
  next
    case False
    with c show ?thesis by (auto simp: step Let_def intro: exI [of _ i])
  qed
qed

lemma makeWorker_loop_sizes:
  "workerNum (snd (makeWorker_loop create i arr)) = workerNum arr \<and>
   length (threadId (snd (makeWorker_loop create i arr))) = length (threadId arr)"
proof (induction create i arr rule: makeWorker_loop.induct)
  case (1 create i arr)
  obtain r tid where c: "create i = (r, tid)" by fastforce
  show ?case
  proof (cases "int i < workerNum arr \<and> r \<noteq> -1")
    case True
    with "1.IH" [OF _ c [symmetric] refl] c show ?thesis
      by (simp add: makeWorker_loop.simps [of create i arr] Let_def)
  next
    case False
    with c show ?thesis by (auto simp: makeWorker_loop.simps [of create i arr] Let_def)
  qed
qed

text \<open>The state in which \<open>main\<close> starts: nothing in the variable \<open>threadPool\<close> is initialised.\<close>

definition boot_start :: "workerArr \<Rightarrow> tqueue \<Rightarrow> int \<Rightarrow> thread_name option \<Rightarrow> server_boot" where
  "boot_start arr q flag m =
     \<lparr>calls = [], b_arr = arr,
      b_pool = \<lparr>ptaskQueue = q\<lparr>heap := \<lambda>a. None\<rparr>, exitFlag = flag, mutex = m, workers = [],
        master = MLoop, accepted = [], served = []\<rparr>\<rparr>"

lemma init_pool_run:
  "b_pool w = b_pool (boot_start arr q flag m) \<Longrightarrow>
   init_pool True WORKER_THREAD_NUM w = (Inr 0, w\<lparr>b_arr := (b_arr w)\<lparr>threadId := replicate 4 0, workerNum := 4\<rparr>,
     b_pool := (pool_start 4)\<lparr>workers := []\<rparr>\<rparr>)"
  by (simp add: init_pool_def threadPoolInit_def tidArrInit_def taskQueueInit_def boot_start_def
      pool_start_def empty_queue_def WORKER_THREAD_NUM_def)

lemma init_pool_no_memory: "\<exists>w'. init_pool False n w = (Inl (Exits 1), w')"
  by (simp add: init_pool_def threadPoolInit_def tidArrInit_def)

abbreviation created :: "(nat \<Rightarrow> int \<times> nat) \<Rightarrow> nat" where
  "created create \<equiv> length (filter (\<lambda>i. fst (create i) = 0) [0..<4])"

lemma start_workers_run:
  assumes "workerNum (b_arr w) = 4" "length (threadId (b_arr w)) = 4"
    and "b_pool w = (pool_start 4)\<lparr>workers := []\<rparr>"
  shows "if \<exists>i < 4. fst (create i) = -1 then fst (start_workers create w) = Inl (Exits 1)
    else \<exists>a. start_workers create w = (Inr 0, w\<lparr>b_arr := a, b_pool := pool_start (created create)\<rparr>) \<and>
      workerNum a = 4 \<and> length (threadId a) = 4"
proof -
  obtain r a where ra: "makeWorker create (b_arr w) = (r, a)" by fastforce
  have "r = (if \<exists>i < 4. fst (create i) = -1 then Inl (Exits 1) else Inr 0)"
    using makeWorker_loop_result [of create 0 "b_arr w"] ra assms(1) by (simp add: makeWorker_def)
  moreover have "workerNum a = 4" "length (threadId a) = 4"
    using makeWorker_loop_sizes [of create 0 "b_arr w"] ra assms(1,2) by (simp_all add: makeWorker_def)
  moreover have "start_workers create w = (r, w\<lparr>b_arr := a, b_pool := pool_start (created create)\<rparr>)"
    using ra assms(1,3) by (simp add: start_workers_def pool_start_def)
  ultimately show ?thesis by (cases "\<exists>i < 4. fst (create i) = -1") auto
qed

lemma tcpInit_run:
  assumes "fd = ans (calls w) CallSocket" "h1 = calls w @ [(CallSocket, fd)]"
    "a = ans h1 (CallReuse fd)" "h2 = h1 @ [(CallReuse fd, a)]"
    "b = ans h2 (CallBind fd (inet_address port (inet_addr ip)))"
    "h3 = h2 @ [(CallBind fd (inet_address port (inet_addr ip)), b)]" "c = ans h3 (CallListen fd 5)"
  shows "tcpInit ans inet_addr ip port w =
     (if fd = -1 then (Inl (Exits 1), w\<lparr>calls := h1\<rparr>)
      else if a = -1 then (Inr (-1, fd), w\<lparr>calls := h2 @ [(CallClose fd, ans h2 (CallClose fd))]\<rparr>)
      else if b = -1 then (Inr (-1, fd), w\<lparr>calls := h3 @ [(CallClose fd, ans h3 (CallClose fd))]\<rparr>)
      else if c = -1 then (Inr (-1, fd), w\<lparr>calls := (h3 @ [(CallListen fd 5, c)]) @
        [(CallClose fd, ans (h3 @ [(CallListen fd 5, c)]) (CallClose fd))]\<rparr>)
      else (Inr (0, fd), w\<lparr>calls := h3 @ [(CallListen fd 5, c)]\<rparr>))"
  by (simp add: tcpInit_def run assms(1,3,5,7) [symmetric] assms(2,4,6) [symmetric] del: append_assoc)

text \<open>The start, when it gets to the loop.\<close>

lemma server_start_result:
  assumes "server_start ans inet_addr calloc_ok create exitPipefd (boot_start arr q flag m) = (Inr (sockFd, epFd), w')"
  shows "calloc_ok \<and> (\<forall>i < 4. fst (create i) \<noteq> -1) \<and> b_pool w' = pool_start (created create) \<and>
    workerNum (b_arr w') = 4 \<and> length (threadId (b_arr w')) = 4 \<and>
    (\<exists>p x a b c y z. -1 \<notin> {sockFd, a, b, c} \<and>
       calls w' = [(CallPipe, p), (CallFork, 0), (CallClose (snd exitPipefd), x), (CallSocket, sockFd),
         (CallReuse sockFd, a), (CallBind sockFd (inet_address 1234 (inet_addr ''0.0.0.0'')), b),
         (CallListen sockFd 5, c), (CallEpollCreate, epFd), (CallEpollCtl epFd EPOLL_CTL_ADD sockFd, y),
         (CallEpollCtl epFd EPOLL_CTL_ADD (fst exitPipefd), z)])"
proof -
  define p where "p = ans [] CallPipe"
  define x where "x = ans [(CallPipe, p), (CallFork, 0)] (CallClose (snd exitPipefd))"
  define w1 where "w1 = (boot_start arr q flag m)\<lparr>calls := [(CallPipe, p), (CallFork, 0), (CallClose (snd exitPipefd), x)]\<rparr>"
  define w2 where "w2 = w1\<lparr>b_arr := (b_arr w1)\<lparr>threadId := replicate 4 0, workerNum := 4\<rparr>,
      b_pool := (pool_start 4)\<lparr>workers := []\<rparr>\<rparr>"
  have c0: "calls (boot_start arr q flag m) = []" by (simp add: boot_start_def)
  have fork: "ans [(CallPipe, p)] CallFork = 0"
    using assms by (auto simp: server_start_def run c0 p_def split: if_splits)
  have ok: "calloc_ok = True"
  proof (rule ccontr)
    assume "calloc_ok \<noteq> True"
    then have no: "calloc_ok = False" by simp
    obtain v where "init_pool False WORKER_THREAD_NUM w1 = (Inl (Exits 1), v)"
      using init_pool_no_memory by blast
    then have "next_do (init_pool False WORKER_THREAD_NUM) n w1 = (Inl (Exits 1), v)"
      for n :: "(server_boot, int \<times> int) prog" by (rule next_do_halt)
    with assms show False
      by (auto simp: server_start_def run c0 p_def [symmetric] fork x_def [symmetric] w1_def [symmetric] no)
  qed
  have i: "init_pool True WORKER_THREAD_NUM w1 = (Inr 0, w2)"
    unfolding w2_def by (rule init_pool_run [of _ arr q flag m]) (simp add: w1_def)
  have n1: "next_do (init_pool True WORKER_THREAD_NUM) n w1 = n w2" for n :: "(server_boot, int \<times> int) prog"
    by (simp add: next_do_def bnd_def i)
  have sizes: "workerNum (b_arr w2) = 4" "length (threadId (b_arr w2)) = 4" "b_pool w2 = (pool_start 4)\<lparr>workers := []\<rparr>"
    by (simp_all add: w2_def)
  have good: "\<not> (\<exists>i < 4. fst (create i) = -1)"
  proof
    assume "\<exists>i < 4. fst (create i) = -1"
    with start_workers_run [OF sizes, of create] obtain v where "start_workers create w2 = (Inl (Exits 1), v)"
      by (cases "start_workers create w2") auto
    then have "next_do (start_workers create) n w2 = (Inl (Exits 1), v)" for n :: "(server_boot, int \<times> int) prog"
      by (rule next_do_halt)
    with assms show False
      by (auto simp: server_start_def run c0 p_def [symmetric] fork x_def [symmetric] w1_def [symmetric] ok n1)
  qed
  with start_workers_run [OF sizes, of create] obtain a where
    s: "start_workers create w2 = (Inr 0, w2\<lparr>b_arr := a, b_pool := pool_start (created create)\<rparr>)"
    and a: "workerNum a = 4" "length (threadId a) = 4" by auto
  have n2: "next_do (start_workers create) n w2 = n (w2\<lparr>b_arr := a, b_pool := pool_start (created create)\<rparr>)"
    for n :: "(server_boot, int \<times> int) prog" by (simp add: next_do_def bnd_def s)
  have "calls w2 = [(CallPipe, p), (CallFork, 0), (CallClose (snd exitPipefd), x)]" by (simp add: w2_def w1_def)
  with assms good show ?thesis
    by (auto simp: server_start_def run c0 p_def [symmetric] fork x_def [symmetric] w1_def [symmetric] ok
        n1 n2 epollADD_def a serverAddr_inet split: if_splits)
qed

lemma server_start_run:
  assumes "server_start ans inet_addr True create exitPipefd (boot_start arr q flag m) = (Inr (sockFd, epFd), w')"
    and "\<forall>i. fst (create i) = 0"
  shows "b_pool w' = pool_start 4 \<and> pool_reach 4 (b_pool w') \<and>
    (\<exists>p x a b c y z. -1 \<notin> {sockFd, a, b, c} \<and>
       calls w' = [(CallPipe, p), (CallFork, 0), (CallClose (snd exitPipefd), x), (CallSocket, sockFd),
         (CallReuse sockFd, a), (CallBind sockFd (inet_address 1234 (inet_addr ''0.0.0.0'')), b),
         (CallListen sockFd 5, c), (CallEpollCreate, epFd), (CallEpollCtl epFd EPOLL_CTL_ADD sockFd, y),
         (CallEpollCtl epFd EPOLL_CTL_ADD (fst exitPipefd), z)])"
proof -
  have "created create = 4" using assms(2) by simp
  with server_start_result [OF assms(1)] pool_init [of 4] show ?thesis by simp
qed

section \<open>Properties\<close>

text \<open>
  \<open>tcpInit\<close> for all answers of the system: without a socket the process ends; otherwise the
  result is 0 with a socket that is bound to the given address and listens, every call having
  succeeded, or -1 with that socket closed by the last call, after the one call that failed.
\<close>

lemma tcpInit_outcomes:
  "case tcpInit ans inet_addr ip port w of (r, w') \<Rightarrow>
     (r = Inl (Exits 1) \<and> calls w' = calls w @ [(CallSocket, -1)]) \<or>
     (\<exists>fd a b c. r = Inr (0, fd) \<and> -1 \<notin> {fd, a, b, c} \<and>
        calls w' = calls w @ [(CallSocket, fd), (CallReuse fd, a),
          (CallBind fd (inet_address port (inet_addr ip)), b), (CallListen fd 5, c)]) \<or>
     (\<exists>fd k steps failed. r = Inr (-1, fd) \<and> fd \<noteq> -1 \<and> -1 \<notin> snd ` set steps \<and> snd failed = -1 \<and>
        calls w' = calls w @ [(CallSocket, fd)] @ steps @ [failed, (CallClose fd, k)])"
proof -
  obtain fd h1 a h2 b h3 c where h1: "h1 = calls w @ [(CallSocket, fd)]" and h2: "h2 = h1 @ [(CallReuse fd, a)]"
    and h3: "h3 = h2 @ [(CallBind fd (inet_address port (inet_addr ip)), b)]"
    and run: "tcpInit ans inet_addr ip port w =
     (if fd = -1 then (Inl (Exits 1), w\<lparr>calls := h1\<rparr>)
      else if a = -1 then (Inr (-1, fd), w\<lparr>calls := h2 @ [(CallClose fd, ans h2 (CallClose fd))]\<rparr>)
      else if b = -1 then (Inr (-1, fd), w\<lparr>calls := h3 @ [(CallClose fd, ans h3 (CallClose fd))]\<rparr>)
      else if c = -1 then (Inr (-1, fd), w\<lparr>calls := (h3 @ [(CallListen fd 5, c)]) @
        [(CallClose fd, ans (h3 @ [(CallListen fd 5, c)]) (CallClose fd))]\<rparr>)
      else (Inr (0, fd), w\<lparr>calls := h3 @ [(CallListen fd 5, c)]\<rparr>))"
    by (rule that [OF refl refl refl tcpInit_run [OF refl refl refl refl refl refl refl]])
  consider "fd = -1" | "fd \<noteq> -1" "a = -1" | "fd \<noteq> -1" "a \<noteq> -1" "b = -1"
    | "fd \<noteq> -1" "a \<noteq> -1" "b \<noteq> -1" "c = -1" | "fd \<noteq> -1" "a \<noteq> -1" "b \<noteq> -1" "c \<noteq> -1" by blast
  then show ?thesis
  proof cases
    case 2
    then have "calls (snd (tcpInit ans inet_addr ip port w)) = calls w @ [(CallSocket, fd)] @ [] @
        [(CallReuse fd, a), (CallClose fd, ans h2 (CallClose fd))]"
      by (simp add: run h2 h1)
    with 2 show ?thesis by (force simp: run)
  next
    case 3
    then have "calls (snd (tcpInit ans inet_addr ip port w)) = calls w @ [(CallSocket, fd)] @ [(CallReuse fd, a)] @
        [(CallBind fd (inet_address port (inet_addr ip)), b), (CallClose fd, ans h3 (CallClose fd))]"
      by (simp add: run h3 h2 h1)
    with 3 show ?thesis by (force simp: run)
  next
    case 4
    then have "calls (snd (tcpInit ans inet_addr ip port w)) = calls w @ [(CallSocket, fd)] @
        [(CallReuse fd, a), (CallBind fd (inet_address port (inet_addr ip)), b)] @
        [(CallListen fd 5, c), (CallClose fd, ans (h3 @ [(CallListen fd 5, c)]) (CallClose fd))]"
      by (simp add: run h3 h2 h1)
    with 4 show ?thesis by (force simp: run)
  qed (simp_all add: run h3 h2 h1)
qed


text \<open>Answers with which everything succeeds in the child process.\<close>

definition calm_answers :: answers where
  "calm_answers h c =
     (case c of CallSocket \<Rightarrow> 3 | CallEpollCreate \<Rightarrow> 4 | _ \<Rightarrow> 0)"


text \<open>
  Nothing in the server's start asks for a shutdown: whatever the system answers, neither the
  parent nor the child writes to the exit pipe before the event loop or instead of it, the parent
  waits for the child and exits. The handler that writes the message is never installed.
\<close>

definition exit_messages :: "'z boot_scheme \<Rightarrow> net_log" where
  "exit_messages w = filter (\<lambda>e. \<exists>fd s. fst e = CallWrite fd s) (calls w)"

lemma keeps_sys_call: "\<forall>fd s. c \<noteq> CallWrite fd s \<Longrightarrow> keeps exit_messages (sys_call ans c)"
  by (simp add: keeps_def sys_call_def exit_messages_def Let_def)

lemma keeps_setup: "keeps exit_messages (init_pool calloc_ok n)" "keeps exit_messages (start_workers create)"
  "keeps exit_messages (ERROR_CHECK x y)"
  by (simp_all add: keeps_def init_pool_def start_workers_def exit_messages_def ERROR_CHECK_def run
      split: prod.splits)

lemma server_start_no_exit_message:
  "exit_messages (snd (server_start ans inet_addr calloc_ok create exitPipefd w)) = exit_messages w"
  unfolding server_start_def epollADD_def
  by (rule keeps_apply) (intro keep keeps_sys_call keeps_setup; simp)

end
