(* ===== verification/Server_Process.thy ===== *)
theory Server_Process
  imports Worker_Pool Client_Handle
begin

text \<open>
  The whole server process: the thread pool of theory \<open>Worker_Pool\<close> whose workers run \<open>handleClient\<close>
  of theory \<open>Client_Handle\<close>. A worker leaves a connection only when \<open>handleClient\<close> returns, and an
  \<open>exit\<close> in any session ends the process with all its threads. \<open>conns fd\<close> are the states in which
  a session on descriptor \<open>fd\<close> may start: what its peer will send and take, and the shared
  variables as other sessions left them.
\<close>

section \<open>The process\<close>

datatype site = Running pool | Ended int

definition may_return ::
  "kernel \<Rightarrow> (string \<Rightarrow> string option) \<Rightarrow> (int \<Rightarrow> server set) \<Rightarrow> int \<Rightarrow> bool"
where
  "may_return K shadow conns fd \<longleftrightarrow>
     (\<exists>w \<in> conns fd. \<exists>ps w'. handleClient K shadow fd ps w = Some (Inr (), w'))"

definition may_exit ::
  "kernel \<Rightarrow> (string \<Rightarrow> string option) \<Rightarrow> (int \<Rightarrow> server set) \<Rightarrow> int \<Rightarrow> int \<Rightarrow> bool"
where
  "may_exit K shadow conns fd n \<longleftrightarrow>
     (\<exists>w \<in> conns fd. \<exists>ps w'. handleClient K shadow fd ps w = Some (Inl (Exits n), w'))"

inductive site_step ::
  "kernel \<Rightarrow> (string \<Rightarrow> string option) \<Rightarrow> (int \<Rightarrow> server set) \<Rightarrow> site \<Rightarrow> site \<Rightarrow> bool"
  for K shadow conns
where
  site_worker: "worker_step s t \<Longrightarrow>
    (\<And>i fd. i < length (workers s) \<Longrightarrow> workers s ! i = WServing fd \<Longrightarrow> workers t ! i \<noteq> WServing fd \<Longrightarrow>
       may_return K shadow conns fd) \<Longrightarrow>
    site_step K shadow conns (Running s) (Running t)"
| site_master: "master_step s t \<Longrightarrow> site_step K shadow conns (Running s) (Running t)"
| site_exit: "i < length (workers s) \<Longrightarrow> workers s ! i = WServing fd \<Longrightarrow> may_exit K shadow conns fd n \<Longrightarrow>
    site_step K shadow conns (Running s) (Ended n)"

inductive site_reach ::
  "kernel \<Rightarrow> (string \<Rightarrow> string option) \<Rightarrow> (int \<Rightarrow> server set) \<Rightarrow> nat \<Rightarrow> site \<Rightarrow> bool"
  for K shadow conns n
where
  site_start: "site_reach K shadow conns n (Running (pool_start n))"
| site_next: "site_reach K shadow conns n x \<Longrightarrow> site_step K shadow conns x y \<Longrightarrow> site_reach K shadow conns n y"

inductive_cases site_step_running: "site_step K shadow conns (Running s) y"
inductive_cases site_step_ended: "site_step K shadow conns (Ended m) y"

text \<open>The process does what its thread pool may do.\<close>

lemma site_step_pool: "site_step K shadow conns (Running s) (Running t) \<Longrightarrow> pool_step s t"
  by (auto elim: site_step_running intro: by_worker by_master)

lemma site_reach_pool: "site_reach K shadow conns n (Running s) \<Longrightarrow> pool_reach n s"
proof -
  have "\<forall>s. x = Running s \<longrightarrow> pool_reach n s" if "site_reach K shadow conns n x" for x
    using that
  proof (induction rule: site_reach.induct)
    case site_start
    then show ?case by (simp add: pool_init)
  next
    case (site_next x y)
    then show ?case
      by (cases x) (auto elim: site_step_ended intro: pool_next site_step_pool)
  qed
  then show "site_reach K shadow conns n (Running s) \<Longrightarrow> pool_reach n s" by blast
qed

section \<open>Idle clients\<close>

text \<open>A client that has connected and sends nothing.\<close>

definition idle :: "(int \<Rightarrow> server set) \<Rightarrow> int \<Rightarrow> bool" where
  "idle conns fd \<longleftrightarrow> (\<forall>w \<in> conns fd. rx w = [])"

lemma recv_train_waits: "rx w = [] \<Longrightarrow> fst (recv_train t w) = Inl Blocks"
  by (simp add: recv_train_def bnd_def recvn_def recvn_loop.simps)

lemma handleClient_waits: "rx w = [] \<Longrightarrow> \<exists>w'. handleClient K shadow fd ps w = Some (Inl Blocks, w')"
proof -
  assume "rx w = []"
  from recv_train_waits [OF this, of zero_train] obtain w1
    where "recv_train zero_train w = (Inl Blocks, w1)" by (cases "recv_train zero_train w") auto
  then have "UserAuthen shadow w = (Inl Blocks, w1)" by (simp add: UserAuthen_def bnd_def)
  then show ?thesis by (simp add: handleClient_def handle_authen_event.simps [of shadow w])
qed

lemma idle_stays: "idle conns fd \<Longrightarrow> \<not> may_return K shadow conns fd \<and> \<not> may_exit K shadow conns fd n"
proof -
  assume "idle conns fd"
  then have "handleClient K shadow fd ps w \<noteq> Some (Inr (), w') \<and>
      handleClient K shadow fd ps w \<noteq> Some (Inl (Exits n), w')" if "w \<in> conns fd" for w ps w'
    using that handleClient_waits [of w K shadow fd ps] by (auto simp: idle_def)
  then show ?thesis by (auto simp: may_return_def may_exit_def)
qed

lemma serving_kept:
  assumes "site_step K shadow conns (Running s) (Running t)" "idle conns fd"
    "i < length (workers s)" "workers s ! i = WServing fd"
  shows "workers t ! i = WServing fd"
  using assms(1)
proof (rule site_step_running)
  fix t' assume "Running t = Running t'" "worker_step s t'"
    "\<And>i fd. i < length (workers s) \<Longrightarrow> workers s ! i = WServing fd \<Longrightarrow> workers t' ! i \<noteq> WServing fd \<Longrightarrow>
       may_return K shadow conns fd"
  with assms(2-4) idle_stays [of conns fd K shadow] show ?thesis by auto
next
  fix t' assume "Running t = Running t'" "master_step s t'"
  with assms(3,4) show ?thesis
    by (auto elim!: master_step.cases simp: nth_list_update wake_def)
qed simp_all

text \<open>With every worker at an idle client nothing leaves the queue.\<close>

lemma all_serving_step:
  assumes "worker_step s t" "\<forall>i < length (workers s). \<exists>fd. workers s ! i = WServing fd \<and> workers t ! i = WServing fd"
  shows "False"
  using assms by (cases rule: worker_step.cases) (auto dest!: spec)

lemma master_keeps_served: "master_step s t \<Longrightarrow> served t = served s"
  by (cases rule: master_step.cases) auto

text \<open>What stays as it is while worker \<open>i\<close> has an idle client.\<close>

lemma idle_worker_stays:
  assumes "(site_step K shadow conns)\<^sup>*\<^sup>* (Running s) (Running t)" "idle conns fd"
    "i < length (workers s)" "workers s ! i = WServing fd"
  shows "i < length (workers t) \<and> workers t ! i = WServing fd"
proof -
  have "\<forall>t. y = Running t \<longrightarrow> i < length (workers t) \<and> workers t ! i = WServing fd"
    if "(site_step K shadow conns)\<^sup>*\<^sup>* (Running s) y" for y
    using that
  proof (induction rule: rtranclp_induct)
    case (step y z)
    show ?case
    proof (cases y)
      case (Running u)
      with step.IH have u: "i < length (workers u)" "workers u ! i = WServing fd" by auto
      from step.hyps(2) Running serving_kept [OF _ assms(2) u, of K shadow]
        workers_length_step [OF site_step_pool, of K shadow conns u] u(1)
      show ?thesis by auto
    qed (use step.hyps(2) site_step_ended in blast)
  qed (use assms(3,4) in simp)
  with assms(1) show ?thesis by blast
qed

lemma idle_step:
  assumes "site_step K shadow conns (Running s) y"
    and "\<forall>i < length (workers s). \<exists>fd. workers s ! i = WServing fd \<and> idle conns fd"
  shows "\<exists>t. y = Running t \<and> workers t = workers s \<and> served t = served s"
proof -
  from assms(1) consider t where "y = Running t" "worker_step s t" | t where "y = Running t" "master_step s t"
    | i fd n where "i < length (workers s)" "workers s ! i = WServing fd" "may_exit K shadow conns fd n"
    by (rule site_step_running) blast+
  then show ?thesis
  proof cases
    case (1 t)
    then have "site_step K shadow conns (Running s) (Running t)" using assms(1) by simp
    with assms(2) have "\<forall>i < length (workers s). \<exists>fd. workers s ! i = WServing fd \<and> workers t ! i = WServing fd"
      using serving_kept by blast
    with 1(2) show ?thesis using all_serving_step by blast
  next
    case (2 t)
    then have step: "site_step K shadow conns (Running s) (Running t)" using assms(1) by simp
    have "workers t = workers s"
    proof (rule nth_equalityI)
      fix i assume "i < length (workers t)"
      then have "i < length (workers s)" using workers_length_step [OF site_step_pool [OF step]] by simp
      then show "workers t ! i = workers s ! i" using assms(2) serving_kept [OF step] by metis
    qed (rule workers_length_step [OF site_step_pool [OF step]])
    with 2 master_keeps_served show ?thesis by blast
  next
    case (3 i fd n)
    then show ?thesis using assms(2) idle_stays by fastforce
  qed
qed

lemma idle_run:
  assumes "(site_step K shadow conns)\<^sup>*\<^sup>* (Running s) y"
    and "\<forall>i < length (workers s). \<exists>fd. workers s ! i = WServing fd \<and> idle conns fd"
  shows "\<exists>t. y = Running t \<and> workers t = workers s \<and> served t = served s"
  using assms(1)
proof (induction rule: rtranclp_induct)
  case (step y z)
  then obtain t where t: "y = Running t" "workers t = workers s" "served t = served s" by blast
  with idle_step [of K shadow conns t z] step.hyps(2) assms(2) show ?case by auto
qed simp

lemma site_reach_run:
  "(site_step K shadow conns)\<^sup>*\<^sup>* x y \<Longrightarrow> site_reach K shadow conns n x \<Longrightarrow> site_reach K shadow conns n y"
  by (induction rule: rtranclp_induct) (auto intro: site_next)

section \<open>A session that ends the process\<close>

lemma serve_session_exits:
  assumes "packet_ok c" "cmdCode c = code_word REQ_PUT" "argFlag c = 1" "NUL \<in> set (p_data c)"
    and "payload (rx w) = enc_packet c @ frame name @ frame (le64 0) @ later" "length name \<le> 256"
    and "\<And>h. cstr (name @ drop (length name) (fit 256 (k_stack K h 256))) \<noteq> None"
    and "\<And>h. 0 \<le> k_epoll_create K h" "\<And>h e d. 0 \<le> k_epoll_add K h e d"
    and "\<And>h q fl. k_open K h q fl \<noteq> -1" "\<forall>h d. k_map K h d 0 = None"
  shows "fst (serve_session K fd [PollReady [fd]] w) = Inl (Exits 1)"
proof -
  let ?e = "k_epoll_create K (ops w)"
  let ?w = "w\<lparr>ops := (ops w @ [OpEpollCreate ?e]) @
    [OpEpollAdd ?e fd (k_epoll_add K (ops w @ [OpEpollCreate ?e]) ?e fd)]\<rparr>"
  from assms(5) have pay: "payload (rx ?w) = enc_packet c @ frame name @ frame (le64 0) @ later" by simp
  have flag: "argFlag c = 1 \<longrightarrow> NUL \<in> set (p_data c)" using assms(4) by simp
  obtain s where ev: "serve_event K fd fd ?w = next_do (cmdParse K c) (ret False) (?w\<lparr>rx := s\<rparr>)"
    and s: "payload s = frame name @ frame (le64 0) @ later"
    by (rule serve_event_packet [OF assms(1) flag pay])
  obtain path where "cstr (name @ drop (length name) (fit 256 (k_stack K (ops (?w\<lparr>rx := s\<rparr>)) 256))) = Some path"
    using assms(7) by blast
  then have "fst (cmdParse K c (?w\<lparr>rx := s\<rparr>)) = Inl (Exits 1)"
    using s assms(10,11) by (intro empty_upload_exits [OF assms(2) _ assms(6)]) simp_all
  then obtain w' where "cmdParse K c (?w\<lparr>rx := s\<rparr>) = (Inl (Exits 1), w')" by (metis prod.collapse)
  then have "serve_event K fd fd ?w = (Inl (Exits 1), w')" unfolding ev by (rule next_do_halt)
  then have "serve_loop K fd [PollReady [fd]] ?w = (Inl (Exits 1), w')" by (simp add: bnd_def)
  then show ?thesis
    using assms(8) [of "ops w"] assms(9) [of "ops w @ [OpEpollCreate ?e]" ?e fd]
    by (simp add: serve_session_def run next_do_halt not_less)
qed

section \<open>Shutting down\<close>

text \<open>The connections some worker has taken and not finished.\<close>

definition attended :: "pool \<Rightarrow> int \<Rightarrow> bool" where
  "attended s fd \<longleftrightarrow> WTaken fd \<in> set (workers s) \<or> WServing fd \<in> set (workers s)"

lemma attended_step:
  assumes "pool_step s t" "exit_inv s" "shutting (master s)" "attended t fd"
  shows "attended s fd"
  using assms(1)
proof cases
  case by_worker
  then show ?thesis
    by cases (use assms(2-4) in \<open>auto simp: attended_def exit_inv_def nth_mem
      dest!: set_update_subset_insert [THEN subsetD] nth_mem [of _ "workers s"]\<close>)
next
  case by_master
  then show ?thesis
    by cases (use assms(2-4) in \<open>auto simp: attended_def wake_def dest!: set_update_subset_insert [THEN subsetD] split: if_splits\<close>)
qed

lemma site_run_pool:
  "(site_step K shadow conns ^^ k) (Running s) (Running t) \<Longrightarrow> (pool_step ^^ k) s t"
proof (induction k arbitrary: t)
  case (Suc k)
  then obtain x where x: "(site_step K shadow conns ^^ k) (Running s) x" "site_step K shadow conns x (Running t)" by auto
  then obtain u where "x = Running u" by (cases x) (auto elim: site_step_ended)
  with x Suc.IH [of u] show ?case by (auto intro: site_step_pool)
qed simp

lemma pool_run_reach: "(pool_step ^^ k) s t \<Longrightarrow> pool_reach n s \<Longrightarrow> pool_reach n t"
  by (induction k arbitrary: t) (auto intro: pool_next)

lemma attended_run:
  "(pool_step ^^ k) s t \<Longrightarrow> exit_inv s \<Longrightarrow> shutting (master s) \<Longrightarrow> attended t fd \<Longrightarrow> attended s fd"
proof (induction k arbitrary: t)
  case (Suc k)
  then obtain u where u: "(pool_step ^^ k) s u" "pool_step u t" by auto
  have "exit_inv u" using u(1) Suc.prems(2) by (induction k arbitrary: u) (auto intro: exit_inv_step)
  moreover have "shutting (master u)" using shutting_run [OF u(1) Suc.prems(2,3)] by simp
  ultimately have "attended u fd" using attended_step [OF u(2)] Suc.prems(4) by blast
  with Suc.IH u(1) Suc.prems(2,3) show ?case by blast
qed simp

lemma site_step_served:
  assumes "pool_step s t" "\<And>fd. attended s fd \<Longrightarrow> may_return K shadow conns fd"
  shows "site_step K shadow conns (Running s) (Running t)"
  using assms(1)
proof cases
  case by_worker
  then show ?thesis
    by (rule site_worker) (metis assms(2) attended_def nth_mem)
qed (rule site_master)

section \<open>A run for the witnesses\<close>

lemma site_quiet:
  assumes "site_reach K shadow conns n (Running s)" "pool_step s t"
    and "\<forall>i < length (workers s). \<forall>fd. workers s ! i \<noteq> WServing fd"
  shows "site_reach K shadow conns n (Running t)"
  using assms(2)
proof cases
  case by_worker
  then have "site_step K shadow conns (Running s) (Running t)"
    using assms(3) by (intro site_worker) blast+
  with assms(1) show ?thesis by (rule site_next)
next
  case by_master
  with assms(1) show ?thesis by (blast intro: site_next site_master)
qed

text \<open>One worker has taken connection 7, all other threads wait.\<close>

definition one_serving :: pool where
  "one_serving =
     \<lparr>ptaskQueue = snd (takeTask one_queued), exitFlag = 0, mutex = None, workers = [WServing 7],
      master = MLoop, accepted = [7], served = [7]\<rparr>"

definition silent_conn :: server where
  "silent_conn = \<lparr>rx = [], plan = [], txed = [], ops = [], clientPath = clientPath_start\<rparr>"

lemma reach_one_serving: "site_reach K shadow conns 1 (Running one_serving)"
proof -
  let ?s = "\<lambda>q m w p acc srv. \<lparr>ptaskQueue = q, exitFlag = 0, mutex = m, workers = [w],
     master = p, accepted = acc, served = srv\<rparr>"
  have take: "takeTask one_queued = (Inr 7, snd (takeTask one_queued))"
  proof -
    have "fst (takeTask one_queued) = Inr 7" by code_simp
    then show ?thesis by (metis prod.collapse)
  qed
  have "site_reach K shadow conns 1 (Running (?s empty_queue None WTop MLoop [] []))"
    using site_start [of K shadow conns 1] by (simp add: pool_start_def)
  from site_quiet [OF this by_master [OF master_step.m_accept [of _ 7]]]
  have "site_reach K shadow conns 1 (Running (?s empty_queue None WTop (MAccepted 7) [] []))" by simp
  from site_quiet [OF this by_master [OF master_step.m_lock [of _ 7]]]
  have "site_reach K shadow conns 1 (Running (?s empty_queue (Some Master) WTop (MPushing 7) [] []))" by simp
  from site_quiet [OF this by_master [OF master_step.m_push [of _ 7 "(1, 0)" 0 one_queued]]]
  have "site_reach K shadow conns 1 (Running (?s one_queued (Some Master) WTop MSignal [7] []))"
    using push_one fresh_one by simp
  from site_quiet [OF this by_master [OF master_step.m_signal_none]]
  have "site_reach K shadow conns 1 (Running (?s one_queued (Some Master) WTop MUnlock [7] []))" by simp
  from site_quiet [OF this by_master [OF master_step.m_unlock]]
  have "site_reach K shadow conns 1 (Running (?s one_queued None WTop MLoop [7] []))" by simp
  from site_quiet [OF this by_worker [OF worker_step.w_lock [of 0]]]
  have "site_reach K shadow conns 1 (Running (?s one_queued (Some (Worker 0)) WHolding MLoop [7] []))" by simp
  from site_quiet [OF this by_worker [OF worker_step.w_take [of 0 _ 7 "snd (takeTask one_queued)"]]]
  have "site_reach K shadow conns 1
      (Running (?s (snd (takeTask one_queued)) (Some (Worker 0)) (WTaken 7) MLoop [7] [7]))"
    using take by (simp add: must_wait_def one_queued_def)
  from site_quiet [OF this by_worker [OF worker_step.w_unlock [of 0 _ 7]]]
  show ?thesis by (simp add: one_serving_def)
qed

section \<open>Properties\<close>

text \<open>
  C19. One client that connects and sends nothing keeps the server from shutting down: from every
  reachable state in which a worker has its connection, whatever else happens, that worker stays
  where it is and the main thread, which joins all workers, never returns.
\<close>

theorem idle_client_blocks_shutdown:
  assumes "site_reach K shadow conns n (Running s)" "i < n" "workers s ! i = WServing fd" "idle conns fd"
    and "(site_step K shadow conns)\<^sup>*\<^sup>* (Running s) (Running t)"
  shows "workers t ! i = WServing fd \<and> master t \<noteq> MDone"
proof -
  have reach: "pool_reach n s" using assms(1) by (rule site_reach_pool)
  then have "length (workers s) = n" using pool_reach_inv by (auto simp: pool_inv_def)
  with idle_worker_stays [OF assms(5,4)] assms(2,3)
  have stays: "i < length (workers t)" "workers t ! i = WServing fd" by auto
  have "pool_reach n t" using site_reach_run [OF assms(5,1)] by (rule site_reach_pool)
  then have "exit_inv t" using pool_reach_inv by (auto simp: pool_inv_def)
  with stays show ?thesis by (auto simp: exit_inv_def)
qed

theorem idle_client_blocks_shutdown_witness:
  "idle (\<lambda>fd. {silent_conn}) 7 \<and> workers one_serving ! 0 = WServing 7 \<and> master one_serving \<noteq> MDone"
  using idle_client_blocks_shutdown [OF reach_one_serving [of calm_kernel Map.empty "\<lambda>fd. {silent_conn}"], of 0 7 one_serving]
  by (simp add: one_serving_def idle_def silent_conn_def)

text \<open>
  C20. As many idle clients as there are workers stop the service: from every reachable state in
  which each worker has the connection of a client that sends nothing, no later connection is ever
  handed to a worker; all of them stay in the queue.
\<close>

theorem idle_clients_starve:
  assumes "site_reach K shadow conns n (Running s)"
    and "\<forall>i < n. \<exists>fd. workers s ! i = WServing fd \<and> idle conns fd"
    and "(site_step K shadow conns)\<^sup>*\<^sup>* (Running s) y"
  shows "\<exists>t. y = Running t \<and> workers t = workers s \<and> accepted t = served s @ contents (ptaskQueue t)"
proof -
  have "pool_reach n s" using assms(1) by (rule site_reach_pool)
  then have "length (workers s) = n" using pool_reach_inv by (auto simp: pool_inv_def)
  with idle_run [OF assms(3)] assms(2) obtain t
    where t: "y = Running t" "workers t = workers s" "served t = served s" by auto
  with site_reach_run [OF assms(3,1)] have "pool_reach n t" by (simp add: site_reach_pool)
  then have "queue_inv t" using pool_reach_inv by (auto simp: pool_inv_def)
  with t show ?thesis by (simp add: queue_inv_def)
qed

theorem idle_clients_starve_witness:
  "idle (\<lambda>fd. {silent_conn}) 7 \<and> (\<exists>t. Running one_serving = Running t \<and> workers t = [WServing 7] \<and>
     accepted t = [7] @ contents (ptaskQueue t))"
  using idle_clients_starve [OF reach_one_serving [of calm_kernel Map.empty "\<lambda>fd. {silent_conn}"], of "Running one_serving"]
  by (simp add: one_serving_def idle_def silent_conn_def)

text \<open>
  C18. The shutdown gets through where the open sessions can return: once the exit flag has been
  broadcast, and if for every connection that some worker still has \<open>handleClient\<close> can return (from one
  of the states in which its session may start, with some results of \<open>epoll_wait\<close>), then in every
  interleaving the process takes at most \<open>6 n + 2\<close> more steps; as long as the main thread has not
  returned some thread can take a step, without any \<open>pthread_cond_wait\<close> returning unasked (it is the
  broadcast that has woken all workers); and when it has returned, all workers have.
\<close>

theorem site_shutdown_completes:
  assumes "site_reach K shadow conns n (Running s)" "shutting (master s)"
    and "\<forall>fd. attended s fd \<longrightarrow> may_return K shadow conns fd"
    and "(site_step K shadow conns ^^ k) (Running s) (Running t)"
  shows "k \<le> 6 * n + 2 \<and> WWaiting \<notin> set (workers t) \<and>
    (if master t = MDone then \<forall>i < n. workers t ! i = WExited
     else \<exists>u. site_step K shadow conns (Running t) (Running u) \<and> \<not> unasked t u)"
proof -
  have reach: "pool_reach n s" using assms(1) by (rule site_reach_pool)
  have run: "(pool_step ^^ k) s t" using assms(4) by (rule site_run_pool)
  have ex: "exit_inv s" using pool_reach_inv [OF reach] by (simp add: pool_inv_def)
  have t: "shutting (master t)" "pool_reach n t"
    using shutting_run [OF run ex assms(2)] pool_run_reach [OF run reach] by simp_all
  have ext: "exit_inv t" using pool_reach_inv [OF t(2)] by (simp add: pool_inv_def)
  have "may_return K shadow conns fd" if "attended t fd" for fd
    using attended_run [OF run ex assms(2) that] assms(3) by blast
  then have step: "pool_step t u \<Longrightarrow> site_step K shadow conns (Running t) (Running u)" for u
    using site_step_served by blast
  have "WWaiting \<notin> set (workers t)" using ext t(1) by (simp add: exit_inv_def)
  with step shutting_asked [OF ext t(1)] shutdown_completes [OF reach assms(2)] shutdown_completes [OF t(2,1)] run
  show ?thesis by auto
qed

text \<open>A client that has gone, to whom nothing can be sent.\<close>

definition gone_conn :: server where
  "gone_conn = \<lparr>rx = [RxEof], plan = [TxFail EOTHER], txed = [], ops = [], clientPath = clientPath_start\<rparr>"

lemma gone_returns: "may_return K Map.empty (\<lambda>fd. {gone_conn}) fd"
proof -
  have "\<exists>v. handle_authen_event Map.empty gone_conn = Some (Inr (-1), v) \<and>
      txed v = txed gone_conn @ concat (replicate (length ([] :: nat list)) (frame ''AUTH_FAIL''))"
    by (rule handle_authen_closed_run [where ps = "[]"]) (simp_all add: gone_conn_def)
  then show ?thesis by (auto simp: may_return_def handleClient_def run)
qed

text \<open>The state \<open>one_serving\<close> after the exit message has come in.\<close>

definition one_left :: pool where
  "one_left = one_serving\<lparr>exitFlag := 1, mutex := Some Master, master := MExitUnlock\<rparr>"

lemma reach_one_left: "site_reach K shadow conns 1 (Running one_left)"
proof -
  let ?s = "one_serving"
  from site_next [OF reach_one_serving site_master [OF master_step.m_exit_event]]
  have "site_reach K shadow conns 1 (Running (?s\<lparr>master := MExit\<rparr>))" by (simp add: one_serving_def)
  from site_next [OF this site_master [OF master_step.m_exit_lock]]
  have "site_reach K shadow conns 1 (Running (?s\<lparr>master := MExitLocked, mutex := Some Master\<rparr>))"
    by (simp add: one_serving_def)
  from site_next [OF this site_master [OF master_step.m_exit_flag]]
  have "site_reach K shadow conns 1 (Running (?s\<lparr>master := MBroadcast, mutex := Some Master, exitFlag := 1\<rparr>))"
    by (simp add: one_serving_def)
  from site_next [OF this site_master [OF master_step.m_broadcast]]
  show ?thesis by (simp add: one_serving_def one_left_def wake_def)
qed

theorem site_shutdown_completes_witness:
  "(\<forall>t. \<not> (site_step calm_kernel Map.empty (\<lambda>fd. {gone_conn}) ^^ 9) (Running one_left) (Running t)) \<and>
   (\<exists>u. site_step calm_kernel Map.empty (\<lambda>fd. {gone_conn}) (Running one_left) (Running u) \<and> \<not> unasked one_left u)"
proof -
  have pre: "shutting (master one_left)" "master one_left \<noteq> MDone"
    "\<forall>fd. attended one_left fd \<longrightarrow> may_return calm_kernel Map.empty (\<lambda>fd. {gone_conn}) fd"
    by (simp_all add: one_left_def gone_returns)
  note all = site_shutdown_completes [OF reach_one_left pre(1,3)]
  have "\<exists>u. site_step calm_kernel Map.empty (\<lambda>fd. {gone_conn}) (Running one_left) (Running u) \<and> \<not> unasked one_left u"
    using all [of 0 one_left] pre(2) by simp
  moreover have "\<not> (site_step calm_kernel Map.empty (\<lambda>fd. {gone_conn}) ^^ 9) (Running one_left) (Running t)" for t
    using all [of 9 t] by auto
  ultimately show ?thesis by blast
qed

text \<open>
  C21. Any user can end the server: when a worker serves a connection on which a correct login is
  followed by the upload of an empty file, in any segmentation, the whole process with all its
  sessions can end with \<open>exit(1)\<close>. (\<open>mmap\<close> fails for length 0, as it is documented to.)
\<close>

theorem empty_upload_ends_server:
  assumes "w \<in> conns fd" "i < length (workers s)" "workers s ! i = WServing fd"
    and "payload (rx w) = frame u @ frame p @ enc_packet c @ frame name @ frame (le64 0) @ later"
    and "sendable (u, p)" "shadow u = Some p" "plan w = []"
    and "path_ok (clientPath w) cur" "length cur + 1 + length u < MAX_PATH_LEN"
    and "packet_ok c" "cmdCode c = code_word REQ_PUT" "argFlag c = 1" "NUL \<in> set (p_data c)" "length name \<le> 256"
    and "\<And>h. cstr (name @ drop (length name) (fit 256 (k_stack K h 256))) \<noteq> None"
    and "\<And>h. 0 \<le> k_epoll_create K h" "\<And>h e d. 0 \<le> k_epoll_add K h e d"
    and "\<And>h q fl. k_open K h q fl \<noteq> -1" "\<forall>h d. k_map K h d 0 = None"
  shows "site_step K shadow conns (Running s) (Ended 1)"
proof -
  have "payload (rx w) = attempts [] @ frame u @ frame p @ enc_packet c @ frame name @ frame (le64 0) @ later"
    using assms(4) by (simp add: attempts_def)
  from handle_authen_attempts [where shadow = shadow and p = p, OF this _ assms(5,6,8,9,7)] obtain w1
    where w1: "handle_authen_event shadow w = Some (Inr 0, w1)"
      "payload (rx w1) = enc_packet c @ frame name @ frame (le64 0) @ later" by auto
  from serve_session_exits [OF assms(10-13) w1(2) assms(14-19), of fd] obtain w2
    where "serve_session K fd [PollReady [fd]] w1 = (Inl (Exits 1), w2)" by (metis prod.collapse)
  then have "handleClient K shadow fd [PollReady [fd]] w = Some (Inl (Exits 1), w2)"
    by (simp add: handleClient_def w1(1))
  with assms(1) have "may_exit K shadow conns fd 1" by (auto simp: may_exit_def)
  with assms(2,3) show ?thesis by (rule site_exit)
qed

text \<open>A client that logs in as \<open>bob\<close> and uploads an empty file \<open>a\<close>.\<close>

definition hostile_conn :: server where
  "hostile_conn = server_with (frame ''bob'' @ frame ''h'' @ enc_packet (path_packet REQ_PUT ''a'') @
     frame ''a'' @ frame (le64 0) @ []) clientPath_start"

theorem empty_upload_ends_server_witness:
  "site_step calm_kernel [''bob'' \<mapsto> ''h''] (\<lambda>fd. {hostile_conn}) (Running one_serving) (Ended 1)"
proof -
  have data: "p_data (path_packet REQ_PUT ''a'') = ''a'' @ NUL # replicate 1022 NUL"
    by (simp add: path_packet_def fit_def flip: replicate_Suc)
  have name: "cstr (''a'' @ drop (length ''a'') (fit 256 (k_stack calm_kernel h 256))) \<noteq> None" for h
    using cstr_terminated [of "''a''" "replicate 254 NUL"]
    by (simp add: fit_def calm_kernel_def flip: replicate_Suc)
  show ?thesis
    by (rule empty_upload_ends_server [where w = hostile_conn and i = 0 and fd = 7 and u = "''bob''" and p = "''h''"
          and c = "path_packet REQ_PUT ''a''" and name = "''a''" and cur = home_prefix and later = "[]"])
      (use name in \<open>simp_all add: hostile_conn_def one_serving_def sendable_def clientPath_start_ok data,
        simp_all add: home_prefix_def calm_kernel_def path_packet_def packet_ok_def\<close>)
qed

end
