(* ===== verification/Shared_Sessions.thy ===== *)
theory Shared_Sessions
  imports Client_Handle
begin

text \<open>
  Several sessions of the server at once. Each has its own socket; they share the global
  \<open>clientPath\<close> and the file system, whose answers depend on the calls of all of them. A turn of a
  session is one login attempt, the set-up of its epoll instance or one return of \<open>epoll_wait\<close>; the
  turns of the sessions interleave in any order. Next to the state of the code runs a history of the
  attempts and the calls of all sessions, in which the properties say what came before what.
\<close>

section \<open>Turns\<close>

text \<open>Where a session is: before its login, turned away, logged in, waiting on its epoll instance,
  closed.\<close>

datatype phase = LoggingIn | Refused | LoggedIn | Serving int | Left

definition login_turn :: "(string \<Rightarrow> string option) \<Rightarrow> int \<Rightarrow> (server, phase) prog" where
  "login_turn shadow clientFd =
     bnd (UserAuthen shadow) (\<lambda>authRet.
     if authRet = AUTH_RESULT_OK then ret LoggedIn
     else if authRet = AUTH_RESULT_FAIL then ret LoggingIn
     else if authRet = AUTH_RESULT_USER_QUERY_FAIL then ret LoggingIn
     else next_do (log_op (OpClose clientFd)) (ret Refused))"

definition enter_turn :: "kernel \<Rightarrow> int \<Rightarrow> (server, phase) prog" where
  "enter_turn K clientFd =
     bnd (reads (\<lambda>w. k_epoll_create K (ops w))) (\<lambda>epfd.
     next_do (log_op (OpEpollCreate epfd))
     (if epfd < 0 then next_do (log_op (OpClose clientFd)) (ret Left)
      else
        bnd (reads (\<lambda>w. k_epoll_add K (ops w) epfd clientFd)) (\<lambda>added.
        next_do (log_op (OpEpollAdd epfd clientFd added))
        (if added < 0 then next_do (log_op (OpClose epfd)) (next_do (log_op (OpClose clientFd)) (ret Left))
         else ret (Serving epfd)))))"

definition leave_turn :: "int \<Rightarrow> int \<Rightarrow> (server, phase) prog" where
  "leave_turn clientFd epfd = next_do (log_op (OpClose epfd)) (next_do (log_op (OpClose clientFd)) (ret Left))"

text \<open>A session that is over has no turn.\<close>

fun session_turn ::
  "kernel \<Rightarrow> (string \<Rightarrow> string option) \<Rightarrow> int \<Rightarrow> phase \<Rightarrow> poll \<Rightarrow> (server, phase) prog"
where
  "session_turn K shadow fd LoggingIn p = login_turn shadow fd"
| "session_turn K shadow fd LoggedIn p = enter_turn K fd"
| "session_turn K shadow fd (Serving e) (PollFail EINTR) = ret (Serving e)"
| "session_turn K shadow fd (Serving e) (PollFail EOTHER) = leave_turn fd e"
| "session_turn K shadow fd (Serving e) (PollReady es) =
     bnd (serve_ready K fd es) (\<lambda>shouldClose. if shouldClose then leave_turn fd e else ret (Serving e))"
| "session_turn K shadow fd Refused p = halt Blocks"
| "session_turn K shadow fd Left p = halt Blocks"

text \<open>\<open>handleClient\<close> is its session's turns, one after the other, until the session is over; \<open>None\<close>
  is a list of results that ends too early.\<close>

fun solo_turns ::
  "kernel \<Rightarrow> (string \<Rightarrow> string option) \<Rightarrow> int \<Rightarrow> phase \<Rightarrow> poll list \<Rightarrow> server \<Rightarrow> ((stop + unit) \<times> server) option"
where
  "solo_turns K shadow fd Refused ps w = Some (Inr (), w)"
| "solo_turns K shadow fd Left ps w = Some (Inr (), w)"
| "solo_turns K shadow fd ph [] w = None"
| "solo_turns K shadow fd ph (p # ps) w =
     (case session_turn K shadow fd ph p w of
        (Inl e, v) \<Rightarrow> Some (Inl e, v)
      | (Inr ph', v) \<Rightarrow> solo_turns K shadow fd ph' ps v)"

lemma solo_over [simp]:
  "solo_turns K shadow fd Left ps w = Some (Inr (), w)" "solo_turns K shadow fd Refused ps w = Some (Inr (), w)"
  by simp_all

lemma solo_step:
  "ph \<noteq> Left \<Longrightarrow> ph \<noteq> Refused \<Longrightarrow> solo_turns K shadow fd ph (p # ps) w =
     (case session_turn K shadow fd ph p w of
        (Inl e, v) \<Rightarrow> Some (Inl e, v)
      | (Inr ph', v) \<Rightarrow> solo_turns K shadow fd ph' ps v)"
  by (cases ph) simp_all

lemma solo_serving:
  assumes "serve_loop K fd ps w = (r, v)" "r \<noteq> Inl Blocks"
  shows "solo_turns K shadow fd (Serving e) ps w = Some (case r of
      Inl x \<Rightarrow> (Inl x, v) | Inr _ \<Rightarrow> (Inr (), v\<lparr>ops := ops v @ [OpClose e, OpClose fd]\<rparr>))"
  using assms
proof (induction K fd ps arbitrary: w rule: serve_loop.induct)
  case (4 K fd es ps)
  obtain t u where su: "serve_ready K fd es w = (t, u)" by fastforce
  show ?case
  proof (cases "t = Inr False")
    case True
    with "4.prems" su have "serve_loop K fd ps u = (r, v)" by (simp add: bnd_def run)
    with "4.IH" [of False u] "4.prems"(2) True su show ?thesis by (simp add: bnd_def run)
  next
    case False
    with "4.prems" su show ?thesis by (auto simp: bnd_def leave_turn_def run split: sum.splits)
  qed
qed (auto simp: run leave_turn_def)

lemma solo_login:
  assumes "handle_authen_event shadow w = Some (x, v)"
  shows "\<exists>n. \<forall>rest. solo_turns K shadow fd LoggingIn (replicate n (PollReady []) @ rest) w
    = (case x of Inl e \<Rightarrow> Some (Inl e, v)
       | Inr r \<Rightarrow> if r = 0 then solo_turns K shadow fd LoggedIn rest v
           else Some (Inr (), v\<lparr>ops := ops v @ [OpClose fd]\<rparr>))"
proof -
  let ?Q = "\<lambda>sh w q. \<exists>n. \<forall>rest. solo_turns K sh fd LoggingIn (replicate n (PollReady []) @ rest) w
    = (case fst q of Inl e \<Rightarrow> Some (Inl e, snd q)
       | Inr r \<Rightarrow> if r = 0 then solo_turns K sh fd LoggedIn rest (snd q)
           else Some (Inr (), (snd q)\<lparr>ops := ops (snd q) @ [OpClose fd]\<rparr>))"
  have "?Q shadow w (x, v)"
  proof (rule handle_authen_event.raw_induct [where P = ?Q, OF _ assms])
    fix f :: "(string \<Rightarrow> string option) \<Rightarrow> server \<Rightarrow> ((stop + int) \<times> server) option"
      and sh w and q :: "(stop + int) \<times> server"
    assume IH: "\<And>sh w q. f sh w = Some q \<Longrightarrow> ?Q sh w q" and eq: "authen_round f sh w = Some q"
    obtain t u where tu: "UserAuthen sh w = (t, u)" by fastforce
    show "?Q sh w q"
    proof (cases "t = Inr (-1) \<or> t = Inr 1")
      case True
      with eq tu have "f sh u = Some q" by auto
      from IH [OF this] obtain n where n: "\<forall>rest. solo_turns K sh fd LoggingIn (replicate n (PollReady []) @ rest) u
        = (case fst q of Inl e \<Rightarrow> Some (Inl e, snd q)
           | Inr r \<Rightarrow> if r = 0 then solo_turns K sh fd LoggedIn rest (snd q)
               else Some (Inr (), (snd q)\<lparr>ops := ops (snd q) @ [OpClose fd]\<rparr>))" ..
      with True tu show ?thesis
        by (intro exI [of _ "Suc n"]) (auto simp: login_turn_def bnd_def run)
    next
      case False
      then have "q = (case t of Inl e \<Rightarrow> Inl e | Inr r \<Rightarrow> Inr (if r = 0 then 0 else -1), u)"
        using eq unfolding tu Let_def fst_conv snd_conv by (auto split: sum.splits if_splits)
      with False tu show ?thesis
        by (intro exI [of _ "Suc 0"]) (auto simp: login_turn_def bnd_def run split: sum.splits)
    qed
  qed
  then show ?thesis unfolding fst_conv snd_conv .
qed

lemma handleClient_turns:
  assumes "handleClient K shadow fd ps w = Some (r, v)" "r \<noteq> Inl Blocks"
  shows "\<exists>n. solo_turns K shadow fd LoggingIn (replicate n (PollReady []) @ ps) w = Some (r, v)"
proof -
  from assms(1) obtain x u where xu: "handle_authen_event shadow w = Some (x, u)"
    by (cases "handle_authen_event shadow w") (auto simp: handleClient_def)
  from solo_login [OF xu, of K fd] obtain n where n:
    "\<And>rest. solo_turns K shadow fd LoggingIn (replicate n (PollReady []) @ rest) w
      = (case x of Inl e \<Rightarrow> Some (Inl e, u)
         | Inr r \<Rightarrow> if r = 0 then solo_turns K shadow fd LoggedIn rest u
             else Some (Inr (), u\<lparr>ops := ops u @ [OpClose fd]\<rparr>))" by blast
  show ?thesis
  proof (cases "x = Inr 0")
    case False
    with n assms(1) xu show ?thesis
      by (intro exI [of _ n]) (auto simp: handleClient_def run split: sum.splits if_splits)
  next
    case True
    let ?e = "k_epoll_create K (ops u)"
    let ?a = "k_epoll_add K (ops u @ [OpEpollCreate ?e]) ?e fd"
    let ?u = "u\<lparr>ops := ops u @ [OpEpollCreate ?e, OpEpollAdd ?e fd ?a]\<rparr>"
    have sess: "serve_session K fd ps u = (r, v)" using True assms(1) xu by (simp add: handleClient_def)
    have "solo_turns K shadow fd LoggedIn (PollReady [] # ps) u = Some (r, v)"
    proof (cases "?e < 0 \<or> ?a < 0")
      case True
      with sess show ?thesis by (auto simp: enter_turn_def serve_session_def bnd_def run split: if_splits)
    next
      case False
      obtain t z where tz: "serve_loop K fd ps ?u = (t, z)" by fastforce
      with False sess have "(r, v) = (case t of Inl x \<Rightarrow> (Inl x, z)
          | Inr _ \<Rightarrow> (Inr (), z\<lparr>ops := ops z @ [OpClose ?e, OpClose fd]\<rparr>))"
        by (auto simp: serve_session_def next_do_def bnd_def run split: sum.splits)
      moreover from this assms(2) have "t \<noteq> Inl Blocks" by auto
      ultimately show ?thesis
        using solo_serving [OF tz, of shadow ?e] False by (simp add: enter_turn_def bnd_def run)
    qed
    moreover have "replicate n (PollReady []) @ PollReady [] # ps = replicate (Suc n) (PollReady []) @ ps"
      by (simp add: replicate_app_Cons_same)
    ultimately show ?thesis
      using n [of "PollReady [] # ps"] True by (intro exI [of _ "Suc n"]) (simp only: sum.case if_True simp_thms)
  qed
qed

section \<open>Sessions side by side\<close>

text \<open>What one session has for itself: its socket, and (for the statements only) the calls it made.\<close>

record session =
  s_phase :: phase
  s_fd :: int
  s_rx :: "rx_event list"
  s_plan :: "tx_event list"
  s_txed :: "char list"
  s_calls :: "sysop list"

definition new_session :: "int \<Rightarrow> rx_event list \<Rightarrow> tx_event list \<Rightarrow> session" where
  "new_session fd r p = \<lparr>s_phase = LoggingIn, s_fd = fd, s_rx = r, s_plan = p, s_txed = [], s_calls = []\<rparr>"

text \<open>What they share: \<open>clientPath\<close> and the calls the system has seen; for the statements only, \<open>sh_hist\<close>
  is the whole history, the attempts to log in with what was received and the calls, each with the
  number of its session.\<close>

datatype event = Tried nat string string | Called nat sysop

record shared =
  sh_path :: "char list"
  sh_log :: "sysop list"
  sh_sessions :: "session list"
  sh_hist :: "event list"

definition shared_start :: shared where
  "shared_start = \<lparr>sh_path = clientPath_start, sh_log = [], sh_sessions = [], sh_hist = []\<rparr>"

text \<open>The process as a session sees it in its turn, and the state after the turn.\<close>

definition turn_state :: "shared \<Rightarrow> session \<Rightarrow> server" where
  "turn_state w s = \<lparr>rx = s_rx s, plan = s_plan s, txed = s_txed s, ops = sh_log w, clientPath = sh_path w\<rparr>"

definition after_turn :: "shared \<Rightarrow> session \<Rightarrow> phase \<Rightarrow> server \<Rightarrow> session" where
  "after_turn w s ph v = s\<lparr>s_phase := ph, s_rx := rx v, s_plan := plan v, s_txed := txed v,
     s_calls := s_calls s @ drop (length (sh_log w)) (ops v)\<rparr>"

definition turn_events :: "shared \<Rightarrow> nat \<Rightarrow> server \<Rightarrow> event list" where
  "turn_events w i v =
     (if s_phase (sh_sessions w ! i) = LoggingIn then
        (case credentials (s_rx (sh_sessions w ! i)) of
           (Inr (u, p), _) \<Rightarrow> [Tried i u p]
         | (Inl _, _) \<Rightarrow> [])
      else []) @ map (Called i) (drop (length (sh_log w)) (ops v))"

definition put_turn :: "nat \<Rightarrow> phase \<Rightarrow> server \<Rightarrow> shared \<Rightarrow> shared" where
  "put_turn i ph v w = \<lparr>sh_path = clientPath v, sh_log = ops v,
     sh_sessions = (sh_sessions w)[i := after_turn w (sh_sessions w ! i) ph v],
     sh_hist = sh_hist w @ turn_events w i v\<rparr>"

text \<open>A connection comes in; a session has a turn; a turn ends the process (\<open>None\<close>).\<close>

inductive shared_step ::
  "kernel \<Rightarrow> (string \<Rightarrow> string option) \<Rightarrow> shared option \<Rightarrow> shared option \<Rightarrow> bool"
  for K shadow
where
  connects: "shared_step K shadow (Some w) (Some (w\<lparr>sh_sessions := sh_sessions w @ [new_session fd r p]\<rparr>))"
| turns: "i < length (sh_sessions w) \<Longrightarrow> s = sh_sessions w ! i \<Longrightarrow>
    session_turn K shadow (s_fd s) (s_phase s) poll (turn_state w s) = (Inr ph, v) \<Longrightarrow>
    shared_step K shadow (Some w) (Some (put_turn i ph v w))"
| ends: "i < length (sh_sessions w) \<Longrightarrow> s = sh_sessions w ! i \<Longrightarrow>
    session_turn K shadow (s_fd s) (s_phase s) poll (turn_state w s) = (Inl e, v) \<Longrightarrow> e \<noteq> Blocks \<Longrightarrow>
    shared_step K shadow (Some w) None"

inductive shared_reach :: "kernel \<Rightarrow> (string \<Rightarrow> string option) \<Rightarrow> shared option \<Rightarrow> bool" for K shadow where
  shared_init: "shared_reach K shadow (Some shared_start)"
| shared_next: "shared_reach K shadow x \<Longrightarrow> shared_step K shadow x y \<Longrightarrow> shared_reach K shadow y"

inductive_cases shared_step_up: "shared_step K shadow (Some w) (Some u)"
inductive_cases shared_step_down: "shared_step K shadow None y"

text \<open>Invariants of the reachable states.\<close>

lemma shared_invariant [consumes 1, case_names start connect turn]:
  assumes "shared_reach K shadow (Some w)"
    and "P shared_start"
    and "\<And>w fd r p. shared_reach K shadow (Some w) \<Longrightarrow> P w \<Longrightarrow>
      P (w\<lparr>sh_sessions := sh_sessions w @ [new_session fd r p]\<rparr>)"
    and "\<And>w i s poll ph v. shared_reach K shadow (Some w) \<Longrightarrow> P w \<Longrightarrow> i < length (sh_sessions w) \<Longrightarrow>
      s = sh_sessions w ! i \<Longrightarrow>
      session_turn K shadow (s_fd s) (s_phase s) poll (turn_state w s) = (Inr ph, v) \<Longrightarrow> P (put_turn i ph v w)"
  shows "P w"
  using assms(1)
proof (induction "Some w" arbitrary: w rule: shared_reach.induct)
  case (shared_next x)
  from shared_next.hyps(3) obtain u where x: "x = Some u" by (cases x) (auto elim: shared_step_down)
  note reach = shared_next.hyps(1) [unfolded x] and P = shared_next.hyps(2) [OF x]
  from shared_next.hyps(3) show ?case
    unfolding x
  proof (cases rule: shared_step_up [consumes 1, case_names comes turn])
    case comes
    with assms(3) [OF reach P] show ?thesis by blast
  next
    case (turn i poll ph v)
    with assms(4) [OF reach P turn(2) refl turn(3)] show ?thesis by simp
  qed
qed (rule assms(2))

section \<open>What a turn does\<close>

text \<open>Programs that only append calls that satisfy \<open>P\<close> and keep \<open>clientPath\<close>, when that is \<open>base\<close>.\<close>

definition works_in :: "string \<Rightarrow> (sysop \<Rightarrow> bool) \<Rightarrow> (server, 'a) prog \<Rightarrow> bool" where
  "works_in base P m \<longleftrightarrow> (\<forall>w. path_ok (clientPath w) base \<longrightarrow>
     clientPath (snd (m w)) = clientPath w \<and> (\<exists>new. ops (snd (m w)) = ops w @ new \<and> list_all P new))"

named_theorems working "programs that work in a directory"

lemma works_in_logs: "keeps clientPath m \<Longrightarrow> logs P m \<Longrightarrow> works_in base P m"
  by (simp add: works_in_def keeps_def logs_def)

lemma works_in_bnd [working]:
  assumes "works_in base P m" "\<And>x. works_in base P (k x)"
  shows "works_in base P (bnd m k)"
  unfolding works_in_def
proof (intro allI impI)
  fix w :: server assume w: "path_ok (clientPath w) base"
  obtain r w1 where m: "m w = (r, w1)" by fastforce
  from assms(1) w m obtain n1 where n1: "clientPath w1 = clientPath w" "ops w1 = ops w @ n1" "list_all P n1"
    unfolding works_in_def by (metis snd_conv)
  show "clientPath (snd (bnd m k w)) = clientPath w \<and>
      (\<exists>new. ops (snd (bnd m k w)) = ops w @ new \<and> list_all P new)"
  proof (cases r)
    case (Inr x)
    from assms(2) [of x] n1(1) w obtain n2 where "clientPath (snd (k x w1)) = clientPath w1"
      "ops (snd (k x w1)) = ops w1 @ n2" "list_all P n2" unfolding works_in_def by metis
    with n1 m Inr show ?thesis by (simp add: bnd_def)
  qed (use n1 m in \<open>simp add: bnd_def\<close>)
qed

lemma works_in_next [working]: "works_in base P m \<Longrightarrow> works_in base P n \<Longrightarrow> works_in base P (next_do m n)"
  by (simp add: next_do_def works_in_bnd)

lemma works_in_basic [working]:
  "works_in base P (ret x)" "works_in base P (halt e)" "works_in base P (in_bounds r)" "works_in base P (reads g)"
  by (intro works_in_logs keep logging)+

lemma works_in_log [working]: "P e \<Longrightarrow> works_in base P (log_op e)"
  by (simp add: works_in_def run)

lemma works_in_if [working]: "works_in base P m \<Longrightarrow> works_in base P n \<Longrightarrow> works_in base P (if c then m else n)"
  "(\<And>y z. works_in base P (d y z)) \<Longrightarrow> works_in base P (case p of (y, z) \<Rightarrow> d y z)"
  by (simp_all split: prod.splits)

text \<open>Directories are created below \<open>base\<close>.\<close>

definition mkdir_below :: "string \<Rightarrow> sysop \<Rightarrow> bool" where
  "mkdir_below base e \<longleftrightarrow> (\<forall>p r. e = OpMkdir p r \<longrightarrow> (\<exists>arg. no_nul arg \<and> p = base @ ''/'' @ arg))"

lemma mkdir_below_other [simp]:
  "mkdir_below b (OpOpen p fl r)" "mkdir_below b (OpOpenAt a r)" "mkdir_below b (OpTruncate fd n)"
  "mkdir_below b (OpMap fd n)" "mkdir_below b (OpStore fd bs)" "mkdir_below b (OpUnlink p r)"
  "mkdir_below b (OpOpendir p)" "mkdir_below b (OpClosedir p)" "mkdir_below b (OpPrint p)"
  "mkdir_below b (OpEpollCreate e)" "mkdir_below b (OpEpollAdd e fd r)" "mkdir_below b (OpClose fd)"
  by (simp_all add: mkdir_below_def)

lemma works_in_transfer [working]:
  "works_in base P (recvn buf n)" "works_in base P (sendn d)" "works_in base P (send1 d)"
  "works_in base P (stack_bytes K j)"
  by (intro works_in_logs keep keeps_transfer keeps_sys logging)+

lemma works_in_bounds:
  "(\<And>x. r = Some x \<Longrightarrow> works_in base P (k x)) \<Longrightarrow> works_in base P (bnd (in_bounds r) k)"
  by (cases r) (auto simp: works_in_def bnd_simps)

lemma works_in_path:
  assumes "\<And>arr. path_ok arr base \<Longrightarrow> works_in base P (k arr)"
  shows "works_in base P (bnd (reads clientPath) k)"
  using assms by (auto simp: works_in_def run)

lemma works_in_signal [working]: "works_in base P (sendSignal m st)"
  unfolding sendSignal_def by (intro works_in_logs keep keeps_transfer logging)+

lemma works_in_makeDir: "works_in base (mkdir_below base) (makeDir K cmd)"
  unfolding makeDir_def
proof (intro works_in_path works_in_bounds)
  fix arr b arg
  assume "path_ok arr base" "cstr arr = Some b" and arg: "cstr (p_data cmd) = Some arg"
  then have b: "b = base" "no_nul base" "no_nul arg"
    by (auto simp: path_ok_def dest: cstr_no_nul)
  let ?full = "b @ ''/'' @ arg"
  have full: "cstr (snprintf (replicate MAX_PATH_LEN NUL) ?full) = Some ?full" if "length ?full < MAX_PATH_LEN"
    using that b snprintf_sized [of "replicate MAX_PATH_LEN NUL" MAX_PATH_LEN ?full] by simp
  have "mkdir_below base (OpMkdir ?full r)" for r
    using b by (auto simp: mkdir_below_def)
  then show "works_in base (mkdir_below base) (let full = ?full; written = length full in
     if MAX_PATH_LEN \<le> written then ret (-1)
     else
       bnd (in_bounds (cstr (snprintf (replicate MAX_PATH_LEN NUL) full))) (\<lambda>fullPath.
       bnd (sys_mkdir K fullPath) (\<lambda>result.
       if result = -1 then
         next_do (sendSignal (Some ''Failed to create directory'') CMD_FAILURE) (ret (-1))
       else
         next_do (sendSignal (Some ''Directory created successfully'') CMD_SUCCESS) (ret result))))"
    unfolding Let_def sys_mkdir_def
    by (cases "MAX_PATH_LEN \<le> length ?full")
      (simp_all only: full bnd_Some if_True if_False not_le, auto intro!: working)
qed

lemma logs_other:
  "logs (mkdir_below base) (changeDir None)" "logs (mkdir_below base) (listDir K cmd)"
  "logs (mkdir_below base) (removeFile K cmd)" "logs (mkdir_below base) (PutFile K cmd)"
  "logs (mkdir_below base) (GetFile K cmd)" "logs (mkdir_below base) (printWorkingDir K cmd)"
  unfolding changeDir_def listDir_def printWorkingDir_def removeFile_def PutFile_def store_upload_def
    GetFile_def recv_train_def sys_open_def sys_map_def sys_unlink_def
  by (intro logging; simp)+

lemma works_in_cmdParse: "works_in base (mkdir_below base) (cmdParse K cmd)"
proof (cases "cmdCode cmd = code_word REQ_MKDIR")
  case True
  then show ?thesis by (simp add: cmdParse_def working works_in_makeDir)
next
  case False
  then have "logs (mkdir_below base) (cmdParse K cmd)"
    unfolding cmdParse_def by (auto intro!: logging logs_other)
  then show ?thesis by (intro works_in_logs cmdParse_clientPath)
qed

lemma works_in_serve_ready: "works_in base (mkdir_below base) (serve_ready K fd es)"
  by (induction K fd es rule: serve_ready.induct)
    (auto simp: serve_event_def recvCmd_def Let_def intro!: working works_in_cmdParse)

text \<open>A turn after the login.\<close>

lemma works_in_turn:
  "ph \<noteq> LoggingIn \<Longrightarrow> works_in base (mkdir_below base) (session_turn K shadow fd ph p)"
  by (cases "(K, shadow, fd, ph, p)" rule: session_turn.cases)
    (auto simp: enter_turn_def leave_turn_def intro!: working works_in_serve_ready)

text \<open>A turn before the login: one attempt.\<close>

abbreviation passed :: "phase \<Rightarrow> bool" where
  "passed ph \<equiv> ph \<noteq> LoggingIn \<and> ph \<noteq> Refused"

lemma login_turn_result:
  assumes "login_turn shadow fd w = (Inr ph, v)"
  shows "ops v = ops w @ (if ph = Refused then [OpClose fd] else [])"
    "ph = LoggingIn \<or> ph = Refused \<or> ph = LoggedIn"
    "(\<exists>u p. credentials (rx w) = (Inr (u, p), rx v) \<and> shadow u \<noteq> Some p \<and>
       clientPath v = clientPath w \<and> \<not> passed ph) \<or>
     (\<exists>u p cur. credentials (rx w) = (Inr (u, p), rx v) \<and> no_nul u \<and> shadow u = Some p \<and>
       cstr (clientPath w) = Some cur \<and> ph \<noteq> LoggingIn \<and>
       (if length cur + 1 + length u < MAX_PATH_LEN then append_user (clientPath w) cur u = Some (clientPath v)
        else clientPath v = clientPath w \<and> \<not> passed ph))"
proof -
  from assms obtain r x where rx: "UserAuthen shadow w = (Inr r, x)"
    and next_ph: "(if r = AUTH_RESULT_OK then ret LoggedIn
     else if r = AUTH_RESULT_FAIL then ret LoggingIn
     else if r = AUTH_RESULT_USER_QUERY_FAIL then ret LoggingIn
     else next_do (log_op (OpClose fd)) (ret Refused)) x = (Inr ph, v)"
    by (auto simp: login_turn_def run_iffs)
  have "ops x = ops w"
    using keeps_apply [OF keeps_ops_authen, of shadow w] rx by simp
  with next_ph show "ops v = ops w @ (if ph = Refused then [OpClose fd] else [])"
    by (auto simp: run split: if_splits)
  from next_ph show "ph = LoggingIn \<or> ph = Refused \<or> ph = LoggedIn"
    by (auto simp: run split: if_splits)
  from next_ph have v: "clientPath v = clientPath x" "rx v = rx x" "r \<noteq> 0 \<longrightarrow> \<not> passed ph"
    "r \<noteq> -1 \<and> r \<noteq> 1 \<longrightarrow> ph \<noteq> LoggingIn"
    by (auto simp: run split: if_splits)
  from rx show "(\<exists>u p. credentials (rx w) = (Inr (u, p), rx v) \<and> shadow u \<noteq> Some p \<and>
       clientPath v = clientPath w \<and> \<not> passed ph) \<or>
     (\<exists>u p cur. credentials (rx w) = (Inr (u, p), rx v) \<and> no_nul u \<and> shadow u = Some p \<and>
       cstr (clientPath w) = Some cur \<and> ph \<noteq> LoggingIn \<and>
       (if length cur + 1 + length u < MAX_PATH_LEN then append_user (clientPath w) cur u = Some (clientPath v)
        else clientPath v = clientPath w \<and> \<not> passed ph))"
  proof (cases rule: UserAuthen_outcome)
    case (1 u p)
    then show ?thesis unfolding v(1,2) using v(3) by blast
  next
    case (2 u p cur)
    then show ?thesis unfolding v(1,2) using v(3,4)
      by (intro disjI2 exI [of _ u] exI [of _ p] exI [of _ cur]) (simp split: if_splits)
  qed
qed

lemma session_turn_phase:
  assumes "session_turn K shadow fd ph p w = (Inr ph', v)" "ph \<noteq> LoggingIn"
  shows "passed ph" "passed ph'"
  using assms
  by (cases "(K, shadow, fd, ph, p)" rule: session_turn.cases;
      auto simp: enter_turn_def leave_turn_def run run_iffs split: if_splits)+

section \<open>Histories\<close>

text \<open>The directory of the sessions after a history: the name of a user is added for each attempt with
  the password of the user's entry, if there is room for it, and for nothing else.\<close>

fun dir_step :: "(string \<Rightarrow> string option) \<Rightarrow> string \<Rightarrow> event \<Rightarrow> string" where
  "dir_step shadow cur (Tried i u p) =
     (if shadow u = Some p \<and> length cur + 1 + length u < MAX_PATH_LEN then login_path cur u else cur)"
| "dir_step shadow cur (Called i e) = cur"

definition dir_after :: "(string \<Rightarrow> string option) \<Rightarrow> event list \<Rightarrow> string" where
  "dir_after shadow h = foldl (dir_step shadow) home_prefix h"

text \<open>The attempts and the calls of one session, and all calls.\<close>

fun tries :: "nat \<Rightarrow> event list \<Rightarrow> (string \<times> string) list" where
  "tries i [] = []"
| "tries i (Tried j u p # h) = (if j = i then (u, p) # tries i h else tries i h)"
| "tries i (Called j e # h) = tries i h"

fun calls_by :: "nat \<Rightarrow> event list \<Rightarrow> sysop list" where
  "calls_by i [] = []"
| "calls_by i (Tried j u p # h) = calls_by i h"
| "calls_by i (Called j e # h) = (if j = i then e # calls_by i h else calls_by i h)"

fun all_calls :: "event list \<Rightarrow> sysop list" where
  "all_calls [] = []"
| "all_calls (Tried j u p # h) = all_calls h"
| "all_calls (Called j e # h) = e # all_calls h"

fun who :: "event \<Rightarrow> nat" where
  "who (Tried i u p) = i"
| "who (Called i e) = i"

lemma history_append [simp]:
  "tries i (h @ g) = tries i h @ tries i g" "calls_by i (h @ g) = calls_by i h @ calls_by i g"
  "all_calls (h @ g) = all_calls h @ all_calls g"
  "dir_after shadow (h @ g) = foldl (dir_step shadow) (dir_after shadow h) g"
proof -
  show "tries i (h @ g) = tries i h @ tries i g" by (induction i h rule: tries.induct) simp_all
  show "calls_by i (h @ g) = calls_by i h @ calls_by i g" by (induction i h rule: calls_by.induct) simp_all
  show "all_calls (h @ g) = all_calls h @ all_calls g" by (induction h rule: all_calls.induct) simp_all
qed (simp add: dir_after_def)

lemma history_calls [simp]:
  "tries i (map (Called j) es) = []" "calls_by i (map (Called j) es) = (if j = i then es else [])"
  "all_calls (map (Called j) es) = es" "foldl (dir_step shadow) cur (map (Called j) es) = cur"
proof -
  show "calls_by i (map (Called j) es) = (if j = i then es else [])" by (induction es) auto
qed (induction es; simp)+

lemma history_other: "\<forall>x \<in> set g. who x \<noteq> i \<Longrightarrow> tries i g = [] \<and> calls_by i g = []"
  by (induction i g rule: tries.induct) simp_all

lemma all_calls_set: "e \<in> set (all_calls h) \<Longrightarrow> \<exists>k < length h. \<exists>i. h ! k = Called i e"
  by (induction h rule: all_calls.induct) (force simp: nth_Cons split: nat.splits)+

text \<open>A history in which every call fits what came before it.\<close>

definition each_call :: "(event list \<Rightarrow> nat \<Rightarrow> sysop \<Rightarrow> bool) \<Rightarrow> event list \<Rightarrow> bool" where
  "each_call P h \<longleftrightarrow> (\<forall>k < length h. \<forall>i e. h ! k = Called i e \<longrightarrow> P (take k h) i e)"

lemma each_call_append:
  "each_call P h \<Longrightarrow> each_call (\<lambda>pre. P (h @ pre)) g \<Longrightarrow> each_call P (h @ g)"
  by (auto simp: each_call_def nth_append)

lemma each_call_mono:
  "each_call P h \<Longrightarrow> (\<And>pre i e. Called i e \<in> set h \<Longrightarrow> P pre i e \<Longrightarrow> Q pre i e) \<Longrightarrow> each_call Q h"
  by (auto simp: each_call_def) (metis nth_mem)

lemma each_call_map: "each_call P (map (Called i) es) \<longleftrightarrow> (\<forall>k < length es. P (map (Called i) (take k es)) i (es ! k))"
  by (auto simp: each_call_def take_map)

text \<open>A session is let in by its last attempt, the only one with the password of an entry.\<close>

definition mismatch :: "(string \<Rightarrow> string option) \<Rightarrow> string \<times> string \<Rightarrow> bool" where
  "mismatch shadow c \<longleftrightarrow> shadow (fst c) \<noteq> Some (snd c)"

definition let_in :: "(string \<Rightarrow> string option) \<Rightarrow> nat \<Rightarrow> event list \<Rightarrow> bool" where
  "let_in shadow i h \<longleftrightarrow> (\<exists>pre u p post. h = pre @ Tried i u p # post \<and> shadow u = Some p \<and>
     length (dir_after shadow pre) + 1 + length u < MAX_PATH_LEN \<and>
     list_all (mismatch shadow) (tries i pre) \<and> tries i post = [])"

lemma let_in_more: "let_in shadow i h \<Longrightarrow> tries i g = [] \<Longrightarrow> let_in shadow i (h @ g)"
  by (fastforce simp: let_in_def)

lemma let_in_earlier: "let_in shadow i (take k h) \<Longrightarrow> \<exists>l u p. l < k \<and> h ! l = Tried i u p \<and> shadow u = Some p"
proof -
  assume "let_in shadow i (take k h)"
  then obtain pre u p post where h: "take k h = pre @ Tried i u p # post" "shadow u = Some p"
    by (auto simp: let_in_def)
  then have "length pre < length (take k h)" "take k h ! length pre = Tried i u p" by (simp_all add: nth_append)
  with h(2) show ?thesis by auto
qed

definition login_ok :: "(string \<Rightarrow> string option) \<Rightarrow> nat \<Rightarrow> phase \<Rightarrow> event list \<Rightarrow> bool" where
  "login_ok shadow i ph h \<longleftrightarrow>
     (ph = LoggingIn \<longrightarrow> list_all (mismatch shadow) (tries i h)) \<and>
     (passed ph \<longrightarrow> let_in shadow i h) \<and>
     (ph = Refused \<longrightarrow> tries i h \<noteq> [] \<and> list_all (mismatch shadow) (butlast (tries i h)))"

lemma login_ok_more: "login_ok shadow i ph h \<Longrightarrow> tries i g = [] \<Longrightarrow> login_ok shadow i ph (h @ g)"
  by (simp add: login_ok_def let_in_more)

section \<open>The shared directory\<close>

abbreviation login_dir :: "string list \<Rightarrow> string" where
  "login_dir us \<equiv> foldl login_path home_prefix us"

text \<open>Who may make a call: a session that has been let in, or one turned away that closes its connection.\<close>

definition call_ok :: "(string \<Rightarrow> string option) \<Rightarrow> session list \<Rightarrow> event list \<Rightarrow> nat \<Rightarrow> sysop \<Rightarrow> bool" where
  "call_ok shadow ss pre i e \<longleftrightarrow> mkdir_below (dir_after shadow pre) e \<and>
     (let_in shadow i pre \<or> s_phase (ss ! i) = Refused \<and> e = OpClose (s_fd (ss ! i)))"

definition shared_ok :: "(string \<Rightarrow> string option) \<Rightarrow> shared \<Rightarrow> bool" where
  "shared_ok shadow w \<longleftrightarrow>
     path_ok (sh_path w) (dir_after shadow (sh_hist w)) \<and>
     sh_log w = all_calls (sh_hist w) \<and> (\<forall>x \<in> set (sh_hist w). who x < length (sh_sessions w)) \<and>
     (\<forall>i < length (sh_sessions w). login_ok shadow i (s_phase (sh_sessions w ! i)) (sh_hist w) \<and>
        s_calls (sh_sessions w ! i) = calls_by i (sh_hist w)) \<and>
     each_call (call_ok shadow (sh_sessions w)) (sh_hist w)"

lemma shared_ok_start: "shared_ok shadow shared_start"
  by (simp add: shared_ok_def shared_start_def clientPath_start_ok dir_after_def each_call_def)

lemma shared_ok_connect:
  assumes "shared_ok shadow w"
  shows "shared_ok shadow (w\<lparr>sh_sessions := sh_sessions w @ [new_session fd r p]\<rparr>)"
proof -
  let ?n = "length (sh_sessions w)"
  have new: "tries ?n (sh_hist w) = [] \<and> calls_by ?n (sh_hist w) = []"
    using assms by (intro history_other) (auto simp: shared_ok_def)
  have "each_call (call_ok shadow (sh_sessions w @ [new_session fd r p])) (sh_hist w)"
    by (rule each_call_mono [of "call_ok shadow (sh_sessions w)"])
      (use assms in \<open>auto simp: shared_ok_def call_ok_def nth_append\<close>)
  with assms new show ?thesis
    by (auto simp: shared_ok_def nth_append login_ok_def new_session_def less_Suc_eq)
qed

text \<open>What a turn has to show: its events are its session's.\<close>

lemma shared_ok_turn:
  assumes ok: "shared_ok shadow w" and i: "i < length (sh_sessions w)"
    and turn: "s_phase (sh_sessions w ! i) \<noteq> Refused" "ops v = sh_log w @ new" "g = turn_events w i v"
      "\<forall>x \<in> set g. who x = i" "all_calls g = new" "calls_by i g = new"
    and path: "path_ok (clientPath v) (dir_after shadow (sh_hist w @ g))"
    and login: "login_ok shadow i ph (sh_hist w @ g)"
    and calls: "each_call (\<lambda>pre. call_ok shadow ((sh_sessions w)[i := after_turn w (sh_sessions w ! i) ph v])
      (sh_hist w @ pre)) g"
  shows "shared_ok shadow (put_turn i ph v w)"
proof -
  let ?ss = "(sh_sessions w)[i := after_turn w (sh_sessions w ! i) ph v]"
  have other: "tries j g = [] \<and> calls_by j g = []" if "j \<noteq> i" for j
    using turn(4) that by (intro history_other) auto
  have sess: "login_ok shadow j (s_phase (?ss ! j)) (sh_hist w @ g) \<and> s_calls (?ss ! j) = calls_by j (sh_hist w @ g)"
    if "j < length (sh_sessions w)" for j
    using ok i that login other [of j] turn(2,6)
    by (cases "j = i") (auto simp: shared_ok_def after_turn_def login_ok_more)
  have "call_ok shadow ?ss pre j e" if "call_ok shadow (sh_sessions w) pre j e" for pre j e
    using that turn(1) by (cases "j = i") (auto simp: call_ok_def)
  then have "each_call (call_ok shadow ?ss) (sh_hist w)"
    using ok each_call_mono [of "call_ok shadow (sh_sessions w)"] by (simp add: shared_ok_def)
  with calls have "each_call (call_ok shadow ?ss) (sh_hist w @ g)" by (rule each_call_append [rotated])
  with sess path ok turn i show ?thesis
    by (auto simp: shared_ok_def put_turn_def)
qed

lemma shared_ok_login:
  assumes ok: "shared_ok shadow w" and i: "i < length (sh_sessions w)" and s: "s = sh_sessions w ! i"
    and ph: "s_phase s = LoggingIn" and turn: "login_turn shadow (s_fd s) (turn_state w s) = (Inr ph, v)"
  shows "shared_ok shadow (put_turn i ph v w)"
proof -
  note login = login_turn_result [OF turn]
  let ?h = "sh_hist w" and ?new = "if ph = Refused then [OpClose (s_fd s)] else []"
  have new: "ops v = sh_log w @ ?new" using login(1) by (simp add: turn_state_def)
  have path: "path_ok (sh_path w) (dir_after shadow ?h)" and bad: "list_all (mismatch shadow) (tries i ?h)"
    using ok i ph s by (auto simp: shared_ok_def login_ok_def)
  from login(3) obtain u p where up: "credentials (s_rx s) = (Inr (u, p), rx v)"
    by (auto simp: turn_state_def)
  let ?g = "Tried i u p # map (Called i) ?new"
  have g: "?g = turn_events w i v"
    using up ph s new by (simp add: turn_events_def)
  have "path_ok (clientPath v) (dir_after shadow (?h @ ?g)) \<and> login_ok shadow i ph (?h @ ?g)"
    using login(3)
  proof (elim disjE exE conjE)
    fix u' p' assume "credentials (rx (turn_state w s)) = (Inr (u', p'), rx v)" "shadow u' \<noteq> Some p'"
      "clientPath v = clientPath (turn_state w s)" "\<not> passed ph"
    with up path bad show ?thesis
      by (auto simp: turn_state_def login_ok_def mismatch_def butlast_append)
  next
    fix u' p' cur assume c: "credentials (rx (turn_state w s)) = (Inr (u', p'), rx v)" "no_nul u'" "shadow u' = Some p'"
      "cstr (clientPath (turn_state w s)) = Some cur" "ph \<noteq> LoggingIn"
      and fits: "if length cur + 1 + length u' < MAX_PATH_LEN
        then append_user (clientPath (turn_state w s)) cur u' = Some (clientPath v)
        else clientPath v = clientPath (turn_state w s) \<and> \<not> passed ph"
    have cur: "cur = dir_after shadow ?h" and u: "u' = u" "p' = p"
      using c path up by (simp_all add: turn_state_def path_ok_def)
    have "let_in shadow i (?h @ ?g)" if "length cur + 1 + length u < MAX_PATH_LEN"
      unfolding let_in_def
      by (rule exI [of _ ?h], rule exI [of _ u], rule exI [of _ p], rule exI [of _ "map (Called i) ?new"])
        (use that c bad in \<open>simp add: cur u\<close>)
    moreover have "path_ok (clientPath v) (dir_after shadow (?h @ ?g))"
    proof (cases "length cur + 1 + length u < MAX_PATH_LEN")
      case True
      with append_user_ok [OF path, of u] fits c show ?thesis by (auto simp: turn_state_def cur u)
    next
      case False
      with fits path show ?thesis by (auto simp: turn_state_def cur u)
    qed
    ultimately show ?thesis
      using c fits bad by (auto simp: login_ok_def u butlast_append split: if_splits)
  qed
  moreover have "each_call (\<lambda>pre. call_ok shadow ((sh_sessions w)[i := after_turn w (sh_sessions w ! i) ph v]) (?h @ pre)) ?g"
    using i s by (auto simp: each_call_def call_ok_def nth_Cons after_turn_def split: nat.splits)
  ultimately show ?thesis
    using ph s by (intro shared_ok_turn [OF ok i _ new g]) auto
qed

lemma shared_ok_serve:
  assumes ok: "shared_ok shadow w" and i: "i < length (sh_sessions w)" and s: "s = sh_sessions w ! i"
    and ph: "s_phase s \<noteq> LoggingIn"
    and turn: "session_turn K shadow (s_fd s) (s_phase s) poll (turn_state w s) = (Inr ph, v)"
  shows "shared_ok shadow (put_turn i ph v w)"
proof -
  let ?base = "dir_after shadow (sh_hist w)"
  have path: "path_ok (clientPath (turn_state w s)) ?base"
    using ok by (simp add: shared_ok_def turn_state_def)
  have "clientPath (snd (Inr ph :: stop + phase, v)) = clientPath (turn_state w s) \<and>
      (\<exists>new. ops (snd (Inr ph :: stop + phase, v)) = ops (turn_state w s) @ new \<and>
        list_all (mkdir_below ?base) new)"
    using works_in_turn [OF ph, of ?base K shadow "s_fd s" poll] path
    unfolding works_in_def turn [symmetric] by blast
  then obtain new where v: "clientPath v = sh_path w" "ops v = sh_log w @ new"
    "list_all (mkdir_below ?base) new" by (auto simp: turn_state_def)
  note phases = session_turn_phase [OF turn ph]
  let ?g = "map (Called i) new"
  have g: "?g = turn_events w i v" using ph s v(2) by (simp add: turn_events_def)
  have inside: "let_in shadow i (sh_hist w)"
    using ok i s phases(1) by (auto simp: shared_ok_def login_ok_def)
  then have "each_call (\<lambda>pre. call_ok shadow ((sh_sessions w)[i := after_turn w (sh_sessions w ! i) ph v]) (sh_hist w @ pre)) ?g"
    using v(3) by (auto simp: each_call_map call_ok_def list_all_length let_in_more)
  moreover have "login_ok shadow i ph (sh_hist w @ ?g)"
    using phases(2) let_in_more [OF inside, of ?g] by (simp add: login_ok_def)
  ultimately show ?thesis
    using phases(1) s path v(1) by (intro shared_ok_turn [OF ok i _ v(2) g]) (auto simp: turn_state_def)
qed

lemma shared_reach_ok: "shared_reach K shadow (Some w) \<Longrightarrow> shared_ok shadow w"
proof (induction rule: shared_invariant)
  case (turn w i s poll ph v)
  show ?case
  proof (cases "s_phase s = LoggingIn")
    case True
    with turn shared_ok_login [of shadow w i s ph v] show ?thesis by simp
  next
    case False
    from shared_ok_serve [OF turn(5,2,3) False turn(4)] show ?thesis .
  qed
qed (simp_all add: shared_ok_start shared_ok_connect)

lemma shared_reach_path: "shared_reach K shadow (Some w) \<Longrightarrow> \<exists>base. path_ok (sh_path w) base"
  using shared_reach_ok unfolding shared_ok_def by blast

section \<open>Sessions that are over\<close>

abbreviation over :: "phase \<Rightarrow> bool" where
  "over ph \<equiv> ph = Left \<or> ph = Refused"

text \<open>The last turn of a session ends with the close of its connection.\<close>

lemma turn_closes:
  assumes "session_turn K shadow fd ph p w = (Inr ph', v)" "over ph'" "path_ok (clientPath w) base"
  shows "\<exists>new. ops v = ops w @ new @ [OpClose fd]"
proof (cases "(K, shadow, fd, ph, p)" rule: session_turn.cases)
  case 1
  with assms(1,2) login_turn_result(1,2) [of shadow fd w ph' v] show ?thesis by auto
next
  case (5 K' sh d e es)
  from assms(1) 5 obtain c u where cu: "serve_ready K fd es w = (Inr c, u)"
    "(if c then leave_turn fd e else ret (Serving e)) u = (Inr ph', v)" by (auto simp: run_iffs)
  from works_in_serve_ready [of base K fd es] assms(3) cu(1) obtain new where "ops u = ops w @ new"
    unfolding works_in_def by (metis snd_conv)
  with cu(2) assms(2) show ?thesis by (auto simp: leave_turn_def run split: if_splits)
qed (use assms(1,2) in \<open>auto simp: enter_turn_def leave_turn_def run split: if_splits\<close>)

definition closes_ok :: "shared \<Rightarrow> bool" where
  "closes_ok w \<longleftrightarrow> (\<forall>s \<in> set (sh_sessions w). over (s_phase s) \<longrightarrow>
     s_calls s \<noteq> [] \<and> last (s_calls s) = OpClose (s_fd s))"

lemma closes_ok_turn:
  assumes "closes_ok w" "i < length (sh_sessions w)" "s = sh_sessions w ! i" "path_ok (sh_path w) base"
    and turn: "session_turn K shadow (s_fd s) (s_phase s) poll (turn_state w s) = (Inr ph, v)"
  shows "closes_ok (put_turn i ph v w)"
proof -
  have "s_calls (after_turn w s ph v) \<noteq> [] \<and> last (s_calls (after_turn w s ph v)) = OpClose (s_fd s)" if "over ph"
    using turn_closes [OF turn that, of base] assms(4) by (auto simp: turn_state_def after_turn_def)
  moreover have "s_phase (after_turn w s ph v) = ph" "s_fd (after_turn w s ph v) = s_fd s"
    by (simp_all add: after_turn_def)
  ultimately show ?thesis
    using assms(1,3) by (auto simp: closes_ok_def put_turn_def dest!: set_update_subset_insert [THEN subsetD])
qed

lemma shared_reach_closes: "shared_reach K shadow (Some w) \<Longrightarrow> closes_ok w"
proof (induction rule: shared_invariant)
  case (turn w i s poll ph v)
  with shared_reach_path [OF turn(1)] closes_ok_turn [OF turn(5,2,3) _ turn(4)] show ?case by blast
qed (auto simp: closes_ok_def shared_start_def new_session_def)

section \<open>Runs\<close>

lemma reach_connect:
  "shared_reach K shadow (Some w) \<Longrightarrow> shared_reach K shadow (Some (w\<lparr>sh_sessions := sh_sessions w @ [new_session fd r p]\<rparr>))"
  by (rule shared_next [OF _ connects])

lemma reach_turn:
  "shared_reach K shadow (Some w) \<Longrightarrow> i < length (sh_sessions w) \<Longrightarrow> sh_sessions w ! i = s \<Longrightarrow>
   session_turn K shadow (s_fd s) (s_phase s) poll (turn_state w s) = (Inr ph, v) \<Longrightarrow>
   shared_reach K shadow (Some (put_turn i ph v w))"
  by (rule shared_next [OF _ turns]) simp_all

text \<open>A turn in which a session logs in.\<close>

lemma reach_login:
  assumes "shared_reach K shadow (Some w)" "i < length (sh_sessions w)" "sh_sessions w ! i = s"
    "s_phase s = LoggingIn" "payload (s_rx s) = frame u @ frame p @ rest" "s_plan s = []"
    "sendable (u, p)" "shadow u = Some p" "path_ok (sh_path w) cur" "length cur + 1 + length u < MAX_PATH_LEN"
  shows "\<exists>v. shared_reach K shadow (Some (put_turn i LoggedIn v w)) \<and> payload (rx v) = rest \<and> plan v = [] \<and>
    ops v = sh_log w \<and> path_ok (clientPath v) (login_path cur u)"
proof -
  have "\<exists>v. UserAuthen shadow (turn_state w s) = (Inr 0, v) \<and> payload (rx v) = rest \<and> plan v = [] \<and>
      ending (rx v) = ending (rx (turn_state w s)) \<and>
      txed v = txed (turn_state w s) @ frame ''AUTH_RESULT_OK'' \<and> path_ok (clientPath v) (login_path cur u)"
    by (rule UserAuthen_accepts [where p = p]) (use assms in \<open>simp_all add: turn_state_def sendable_def\<close>)
  then obtain v where v: "UserAuthen shadow (turn_state w s) = (Inr 0, v)" "payload (rx v) = rest" "plan v = []"
    "path_ok (clientPath v) (login_path cur u)" by blast
  have "ops v = sh_log w"
    using keeps_apply [OF keeps_ops_authen, of shadow "turn_state w s"] v(1) by (simp add: turn_state_def)
  moreover have "session_turn K shadow (s_fd s) (s_phase s) (PollReady []) (turn_state w s) = (Inr LoggedIn, v)"
    using assms(4) v(1) by (simp add: login_turn_def bnd_def run)
  from reach_turn [OF assms(1-3) this] have "shared_reach K shadow (Some (put_turn i LoggedIn v w))" .
  ultimately show ?thesis using v by blast
qed

text \<open>The turn after it, and one in which it serves a \<open>mkdir\<close>.\<close>

lemma reach_enter:
  assumes "shared_reach K shadow (Some w)" "i < length (sh_sessions w)" "sh_sessions w ! i = s"
    "s_phase s = LoggedIn" "k_epoll_create K (sh_log w) = e" "0 \<le> e"
    "k_epoll_add K (sh_log w @ [OpEpollCreate e]) e (s_fd s) = a" "0 \<le> a"
  shows "shared_reach K shadow (Some (put_turn i (Serving e)
    ((turn_state w s)\<lparr>ops := sh_log w @ [OpEpollCreate e, OpEpollAdd e (s_fd s) a]\<rparr>) w))"
  using assms(4-8)
  by (intro reach_turn [OF assms(1-3), of "PollReady []"]) (simp add: enter_turn_def run turn_state_def)

lemma reach_mkdir:
  assumes "shared_reach K shadow (Some w)" "i < length (sh_sessions w)" "sh_sessions w ! i = s"
    "s_phase s = Serving e" "payload (s_rx s) = enc_packet cmd @ later" "s_plan s = []"
    "packet_ok cmd" "cmdCode cmd = code_word REQ_MKDIR" "cstr (p_data cmd) = Some d"
    "path_ok (sh_path w) base" "length base + 1 + length d < MAX_PATH_LEN"
    "k_mkdir K (sh_log w) (base @ ''/'' @ d) = r"
  shows "\<exists>f. shared_reach K shadow (Some (put_turn i (Serving e) f w)) \<and>
    ops f = sh_log w @ [OpMkdir (base @ ''/'' @ d) r]"
proof -
  have "payload (rx (turn_state w s)) = enc_packet cmd @ later" "flowing (plan (turn_state w s))"
    "path_ok (clientPath (turn_state w s)) base" using assms(5,6,10) by (simp_all add: turn_state_def flowing_def)
  then obtain f where f: "serve_event K (s_fd s) (s_fd s) (turn_state w s) = (Inr False, f)"
    "ops f = sh_log w @ [OpMkdir (base @ ''/'' @ d) r]"
    by (rule mkdir_served [OF assms(7-9) _ _ _ assms(11), of "turn_state w s" later K "s_fd s"])
      (use assms(12) in \<open>auto simp: turn_state_def\<close>)
  then have "session_turn K shadow (s_fd s) (s_phase s) (PollReady [s_fd s]) (turn_state w s) = (Inr (Serving e), f)"
    by (simp add: assms(4) bnd_def run)
  from reach_turn [OF assms(1-3) this] f(2) show ?thesis by blast
qed

text \<open>A user logs in, a second one logs in, and the first one asks for a directory.\<close>

lemma two_users_reach:
  assumes a: "payload ra = frame u @ frame p @ enc_packet cmd @ later" and b: "payload rb = frame v @ frame q @ t"
    and users: "sendable (u, p)" "sendable (v, q)" "shadow u = Some p" "shadow v = Some q"
    and cmd: "packet_ok cmd" "cmdCode cmd = code_word REQ_MKDIR" "cstr (p_data cmd) = Some d"
    and len: "length home_prefix + length u + length v + length d + 3 < MAX_PATH_LEN"
  shows "\<exists>w. shared_reach calm_kernel shadow (Some w) \<and> length (sh_sessions w) = 2 \<and>
    sh_log w = [OpEpollCreate 4, OpEpollAdd 4 7 0, OpMkdir (login_dir [u, v] @ ''/'' @ d) 0]"
proof -
  let ?w1 = "shared_start\<lparr>sh_sessions := [new_session 7 ra []]\<rparr>"
  let ?s1 = "new_session 7 ra []"
  have "shared_reach calm_kernel shadow (Some ?w1)"
    using reach_connect [OF shared_init, of calm_kernel shadow 7 ra "[]"] by (simp add: shared_start_def)
  then have "\<exists>x. shared_reach calm_kernel shadow (Some (put_turn 0 LoggedIn x ?w1)) \<and>
      payload (rx x) = enc_packet cmd @ later \<and> plan x = [] \<and> ops x = sh_log ?w1 \<and>
      path_ok (clientPath x) (login_path home_prefix u)"
    by (rule reach_login [where s = ?s1 and p = p])
      (use a users len in \<open>simp_all add: new_session_def shared_start_def clientPath_start_ok\<close>)
  then obtain x where x: "shared_reach calm_kernel shadow (Some (put_turn 0 LoggedIn x ?w1))"
    "payload (rx x) = enc_packet cmd @ later" "plan x = []" "ops x = []"
    "path_ok (clientPath x) (login_path home_prefix u)" by (auto simp: shared_start_def)
  let ?s2 = "after_turn ?w1 ?s1 LoggedIn x"
  let ?w2 = "\<lparr>sh_path = clientPath x, sh_log = [], sh_sessions = [?s2, new_session 8 rb []],
      sh_hist = turn_events ?w1 0 x\<rparr>"
  have "shared_reach calm_kernel shadow (Some ?w2)"
    using reach_connect [OF x(1), of 8 rb "[]"] x(4) by (simp add: put_turn_def shared_start_def)
  then have "\<exists>y. shared_reach calm_kernel shadow (Some (put_turn 1 LoggedIn y ?w2)) \<and>
      payload (rx y) = t \<and> plan y = [] \<and> ops y = sh_log ?w2 \<and>
      path_ok (clientPath y) (login_path (login_path home_prefix u) v)"
    by (rule reach_login [where s = "new_session 8 rb []" and p = q])
      (use b users len x in \<open>simp_all add: new_session_def login_path_def\<close>)
  then obtain y where y: "shared_reach calm_kernel shadow (Some (put_turn 1 LoggedIn y ?w2))"
    "ops y = []" "path_ok (clientPath y) (login_dir [u, v])" by auto
  let ?w3 = "put_turn 1 LoggedIn y ?w2"
  let ?z = "(turn_state ?w3 ?s2)\<lparr>ops := sh_log ?w3 @ [OpEpollCreate 4, OpEpollAdd 4 (s_fd ?s2) 0]\<rparr>"
  let ?w4 = "put_turn 0 (Serving 4) ?z ?w3"
  have w4: "shared_reach calm_kernel shadow (Some ?w4)"
    by (rule reach_enter [OF y(1)]) (simp_all add: put_turn_def after_turn_def calm_kernel_def)
  have "\<exists>f. shared_reach calm_kernel shadow (Some (put_turn 0 (Serving 4) f ?w4)) \<and>
      ops f = sh_log ?w4 @ [OpMkdir (login_dir [u, v] @ ''/'' @ d) 0]"
    by (rule reach_mkdir [OF w4 _ refl _ _ _ cmd])
      (use x(2,3) y len in \<open>simp_all add: put_turn_def after_turn_def turn_state_def calm_kernel_def login_path_def\<close>)
  then show ?thesis
    using y(2) by (auto simp: put_turn_def after_turn_def new_session_def)
qed

lemma bob_and_ann:
  "\<exists>w. shared_reach calm_kernel [''bob'' \<mapsto> ''h'', ''ann'' \<mapsto> ''k''] (Some w) \<and> length (sh_sessions w) = 2 \<and>
    sh_log w = [OpEpollCreate 4, OpEpollAdd 4 7 0, OpMkdir (login_dir [''bob'', ''ann''] @ ''/'' @ ''docs'') 0]"
proof -
  have data: "fit DATA_SIZE ''docs'' = ''docs'' @ NUL # replicate 1019 NUL"
    by (simp add: fit_def flip: replicate_Suc)
  then have "cstr (p_data (path_packet REQ_MKDIR ''docs'')) = Some ''docs''"
    using cstr_terminated [of "''docs''" "replicate 1019 NUL"] by (simp add: path_packet_def)
  then show ?thesis
    by (rule two_users_reach [where u = "''bob''" and p = "''h''" and v = "''ann''" and q = "''k''" and later = "[]"
          and t = "[]" and cmd = "path_packet REQ_MKDIR ''docs''"
          and ra = "cut 9 (frame ''bob'' @ frame ''h'' @ enc_packet (path_packet REQ_MKDIR ''docs'') @ [])"
          and rb = "cut 3 (frame ''ann'' @ frame ''k'' @ [])", rotated -2])
      (simp_all add: sendable_def path_packet_def packet_ok_def home_prefix_def)
qed

section \<open>Properties\<close>

text \<open>
  C5. One directory for all: however many clients connect and however the turns of their sessions
  interleave, \<open>clientPath\<close> is at every moment the server's directory extended by one name for each
  attempt, by any session, that came with the password of the named user's shadow entry, in the order of
  these attempts and as long as there was room, and by nothing else. A session past its login has been
  let in by exactly one such attempt, its last one; one that has not logged in has made none. Each
  directory that a session has asked for is \<open>clientPath\<close> as it was when it asked, a slash and an
  argument (in which \<open>..\<close> is not looked for), and the session had been let in before.
\<close>

theorem shared_directory:
  assumes "shared_reach K shadow (Some w)"
  shows "path_ok (sh_path w) (dir_after shadow (sh_hist w)) \<and>
    (\<forall>i < length (sh_sessions w).
       (passed (s_phase (sh_sessions w ! i)) \<longrightarrow> let_in shadow i (sh_hist w)) \<and>
       (s_phase (sh_sessions w ! i) = LoggingIn \<longrightarrow> list_all (mismatch shadow) (tries i (sh_hist w)))) \<and>
    (\<forall>k < length (sh_hist w). \<forall>i p r. sh_hist w ! k = Called i (OpMkdir p r) \<longrightarrow>
       let_in shadow i (take k (sh_hist w)) \<and>
       (\<exists>arg. no_nul arg \<and> p = dir_after shadow (take k (sh_hist w)) @ ''/'' @ arg))"
  using shared_reach_ok [OF assms]
  by (auto simp: shared_ok_def login_ok_def each_call_def call_ok_def mkdir_below_def)

theorem shared_directory_witness:
  "\<exists>w k i. shared_reach calm_kernel [''bob'' \<mapsto> ''h'', ''ann'' \<mapsto> ''k''] (Some w) \<and>
    sh_hist w ! k = Called i (OpMkdir (home_prefix @ ''/bob/ann/docs'') 0) \<and>
    let_in [''bob'' \<mapsto> ''h'', ''ann'' \<mapsto> ''k''] i (take k (sh_hist w)) \<and>
    (\<exists>arg. home_prefix @ ''/bob/ann/docs''
       = dir_after [''bob'' \<mapsto> ''h'', ''ann'' \<mapsto> ''k''] (take k (sh_hist w)) @ ''/'' @ arg)"
proof -
  obtain w where w: "shared_reach calm_kernel [''bob'' \<mapsto> ''h'', ''ann'' \<mapsto> ''k''] (Some w)"
    "sh_log w = [OpEpollCreate 4, OpEpollAdd 4 7 0, OpMkdir (login_dir [''bob'', ''ann''] @ ''/'' @ ''docs'') 0]"
    using bob_and_ann by blast
  have home: "login_dir [''bob'', ''ann''] @ ''/'' @ ''docs'' = home_prefix @ ''/bob/ann/docs''"
    by (simp add: login_path_def home_prefix_def)
  have "sh_log w = all_calls (sh_hist w)" using shared_reach_ok [OF w(1)] by (simp add: shared_ok_def)
  with w(2) have "OpMkdir (home_prefix @ ''/bob/ann/docs'') 0 \<in> set (all_calls (sh_hist w))"
    unfolding home by simp
  then obtain k i where k: "k < length (sh_hist w)" "sh_hist w ! k = Called i (OpMkdir (home_prefix @ ''/bob/ann/docs'') 0)"
    using all_calls_set by blast
  with shared_directory [OF w(1)] w(1) show ?thesis by blast
qed

text \<open>
  C8. No lasting call without a login. The history's calls are exactly the lasting system calls the
  sessions made (those of \<open>sysop\<close>: on files, directories, mappings, the epoll instance and the connection;
  not \<open>recv\<close> and \<open>send\<close>, the look-up of the shadow entry, or calls of the main thread), in order and each
  by its session. Before each of them its session had received a user's name with the password of that
  user's shadow entry; the only exception is the \<open>close\<close> of its own connection by a session that was
  turned away.
\<close>

theorem calls_need_login:
  assumes "shared_reach K shadow (Some w)"
  shows "sh_log w = all_calls (sh_hist w) \<and>
    (\<forall>i < length (sh_sessions w). s_calls (sh_sessions w ! i) = calls_by i (sh_hist w)) \<and>
    (\<forall>k < length (sh_hist w). \<forall>i e. sh_hist w ! k = Called i e \<longrightarrow> i < length (sh_sessions w) \<and>
       ((\<exists>l u p. l < k \<and> sh_hist w ! l = Tried i u p \<and> shadow u = Some p) \<or>
        s_phase (sh_sessions w ! i) = Refused \<and> e = OpClose (s_fd (sh_sessions w ! i))))"
proof -
  have ok: "shared_ok shadow w" by (rule shared_reach_ok [OF assms])
  have "i < length (sh_sessions w) \<and>
      ((\<exists>l u p. l < k \<and> sh_hist w ! l = Tried i u p \<and> shadow u = Some p) \<or>
        s_phase (sh_sessions w ! i) = Refused \<and> e = OpClose (s_fd (sh_sessions w ! i)))"
    if "k < length (sh_hist w)" "sh_hist w ! k = Called i e" for k i e
  proof
    show "i < length (sh_sessions w)" using ok that by (metis nth_mem shared_ok_def who.simps(2))
    from ok that have "call_ok shadow (sh_sessions w) (take k (sh_hist w)) i e"
      by (simp add: shared_ok_def each_call_def)
    then show "(\<exists>l u p. l < k \<and> sh_hist w ! l = Tried i u p \<and> shadow u = Some p) \<or>
        s_phase (sh_sessions w ! i) = Refused \<and> e = OpClose (s_fd (sh_sessions w ! i))"
      using let_in_earlier [of shadow i k "sh_hist w"] unfolding call_ok_def by blast
  qed
  with ok show ?thesis unfolding shared_ok_def by blast
qed

theorem calls_need_login_witness:
  "\<exists>w k i. shared_reach calm_kernel [''bob'' \<mapsto> ''h'', ''ann'' \<mapsto> ''k''] (Some w) \<and>
    sh_hist w ! k = Called i (OpMkdir (home_prefix @ ''/bob/ann/docs'') 0) \<and>
    (\<exists>l u p. l < k \<and> sh_hist w ! l = Tried i u p \<and> [''bob'' \<mapsto> ''h'', ''ann'' \<mapsto> ''k''] u = Some p)"
proof -
  obtain w where w: "shared_reach calm_kernel [''bob'' \<mapsto> ''h'', ''ann'' \<mapsto> ''k''] (Some w)"
    "sh_log w = [OpEpollCreate 4, OpEpollAdd 4 7 0, OpMkdir (login_dir [''bob'', ''ann''] @ ''/'' @ ''docs'') 0]"
    using bob_and_ann by blast
  have home: "login_dir [''bob'', ''ann''] @ ''/'' @ ''docs'' = home_prefix @ ''/bob/ann/docs''"
    by (simp add: login_path_def home_prefix_def)
  have "sh_log w = all_calls (sh_hist w)" using shared_reach_ok [OF w(1)] by (simp add: shared_ok_def)
  with w(2) have "OpMkdir (home_prefix @ ''/bob/ann/docs'') 0 \<in> set (all_calls (sh_hist w))"
    unfolding home by simp
  then obtain k i where k: "k < length (sh_hist w)" "sh_hist w ! k = Called i (OpMkdir (home_prefix @ ''/bob/ann/docs'') 0)"
    using all_calls_set by blast
  with calls_need_login [OF w(1)] w(1) show ?thesis by blast
qed

text \<open>
  The turns are \<open>handleClient\<close>: whenever \<open>handleClient\<close> returns or ends the process, for any client,
  file system and results of \<open>epoll_wait\<close>, it does so with the result and the state of the turns of one
  session, taken one after the other with nothing in between; \<open>handleClient_turns\<close> above. An example:
\<close>

lemma handleClient_turns_example:
  "\<exists>n v. solo_turns calm_kernel Map.empty 7 LoggingIn (replicate n (PollReady []) @ [])
      \<lparr>rx = [RxEof], plan = [TxFail EOTHER], txed = [], ops = [], clientPath = clientPath_start\<rparr> = Some (Inr (), v)"
proof -
  let ?w = "\<lparr>rx = [RxEof], plan = [TxFail EOTHER], txed = [], ops = [], clientPath = clientPath_start\<rparr>"
  have "\<exists>v. handle_authen_event Map.empty ?w = Some (Inr (-1), v) \<and>
      txed v = txed ?w @ concat (replicate (length ([] :: nat list)) (frame ''AUTH_FAIL''))"
    by (rule handle_authen_closed_run [where ps = "[]"]) simp_all
  then obtain v where "handle_authen_event Map.empty ?w = Some (Inr (-1), v)" by blast
  then have "handleClient calm_kernel Map.empty 7 [] ?w = Some (Inr (), v\<lparr>ops := ops v @ [OpClose 7]\<rparr>)"
    by (simp add: handleClient_def run)
  from handleClient_turns [OF this] show ?thesis by auto
qed

end
