(* ===== verification/Simulation.thy ===== *)
theory Simulation
  imports Main
begin

text \<open>
  The contract between a detailed step relation and an abstract one: under an invariant, every
  detailed step leaves the abstract state alone or is an abstract step. Then every run is an abstract
  run. Contracts compose.
\<close>

locale simulation =
  fixes step :: "'s \<Rightarrow> 's \<Rightarrow> bool" and astep :: "'a \<Rightarrow> 'a \<Rightarrow> bool"
    and abs_of :: "'s \<Rightarrow> 'a" and inv :: "'s \<Rightarrow> bool"
  assumes step_inv: "inv s \<Longrightarrow> step s t \<Longrightarrow> inv t"
    and step_abs: "inv s \<Longrightarrow> step s t \<Longrightarrow> abs_of t = abs_of s \<or> astep (abs_of s) (abs_of t)"
begin

lemma steps_inv: "step\<^sup>*\<^sup>* s t \<Longrightarrow> inv s \<Longrightarrow> inv t"
  by (induction rule: rtranclp_induct) (auto intro: step_inv)

lemma steps_abs: "step\<^sup>*\<^sup>* s t \<Longrightarrow> inv s \<Longrightarrow> astep\<^sup>*\<^sup>* (abs_of s) (abs_of t)"
proof (induction rule: rtranclp_induct)
  case (step t u)
  then have "inv t" using steps_inv by blast
  with step_abs step show ?case by (metis rtranclp.rtrancl_into_rtrancl)
qed simp

end

locale simulation_chain =
  low: simulation step mstep f inv + high: simulation mstep astep g minv
  for step :: "'s \<Rightarrow> 's \<Rightarrow> bool" and mstep :: "'m \<Rightarrow> 'm \<Rightarrow> bool" and astep :: "'a \<Rightarrow> 'a \<Rightarrow> bool"
    and f :: "'s \<Rightarrow> 'm" and g :: "'m \<Rightarrow> 'a" and inv :: "'s \<Rightarrow> bool" and minv :: "'m \<Rightarrow> bool" +
  assumes inv_minv: "inv s \<Longrightarrow> minv (f s)"

sublocale simulation_chain \<subseteq> chain: simulation step astep "\<lambda>s. g (f s)" inv
proof
  fix s t assume s: "inv s" and st: "step s t"
  from low.step_inv [OF s st] show "inv t" .
  from low.step_abs [OF s st] high.step_abs [OF inv_minv [OF s]]
  show "g (f t) = g (f s) \<or> astep (g (f s)) (g (f t))" by fastforce
qed

end
