(* ===== verification/Dispatcher.thy ===== *)
theory Dispatcher
  imports Worker_Pool Simulation "HOL-Library.Multiset"
begin

text \<open>
  What the thread pool of theory \<open>Worker_Pool\<close> is for, without threads, locks, signals or a linked
  list: a dispatcher with one line of waiting connections and room for \<open>n\<close> connections in service. The
  pool implements it, step by step.
\<close>

section \<open>The dispatcher\<close>

record dispatch =
  d_waiting :: "int list"
  d_busy :: "int multiset"
  d_stopped :: bool

definition dispatch_start :: dispatch where
  "dispatch_start = \<lparr>d_waiting = [], d_busy = {#}, d_stopped = False\<rparr>"

text \<open>A connection joins the line; the first one in the line goes into service where there is room; a
  connection has been served; the dispatcher stops, and from then on nobody joins or leaves the line.\<close>

inductive dispatch_step :: "nat \<Rightarrow> dispatch \<Rightarrow> dispatch \<Rightarrow> bool" for n where
  arrive: "\<not> d_stopped d \<Longrightarrow> dispatch_step n d (d\<lparr>d_waiting := d_waiting d @ [fd]\<rparr>)"
| start: "\<not> d_stopped d \<Longrightarrow> d_waiting d = fd # fds \<Longrightarrow> size (d_busy d) < n \<Longrightarrow>
    dispatch_step n d (d\<lparr>d_waiting := fds, d_busy := add_mset fd (d_busy d)\<rparr>)"
| finish: "fd \<in># d_busy d \<Longrightarrow> dispatch_step n d (d\<lparr>d_busy := d_busy d - {#fd#}\<rparr>)"
| stop: "\<not> d_stopped d \<Longrightarrow> dispatch_step n d (d\<lparr>d_stopped := True\<rparr>)"

inductive dispatch_reach :: "nat \<Rightarrow> dispatch \<Rightarrow> bool" for n where
  dispatch_init: "dispatch_reach n dispatch_start"
| dispatch_next: "dispatch_reach n d \<Longrightarrow> dispatch_step n d e \<Longrightarrow> dispatch_reach n e"

text \<open>A stopped dispatcher only finishes what is in service.\<close>

lemma dispatch_stopped:
  "dispatch_step n d e \<Longrightarrow> d_stopped d \<Longrightarrow> d_stopped e \<and> d_waiting e = d_waiting d \<and> d_busy e \<subseteq># d_busy d"
  by (induction rule: dispatch_step.induct) simp_all

lemma dispatch_room: "dispatch_reach n d \<Longrightarrow> size (d_busy d) \<le> n"
proof (induction rule: dispatch_reach.induct)
  case (dispatch_next d e)
  from dispatch_next.hyps(2) dispatch_next.IH show ?case
    by cases (auto dest: size_Diff1_le [THEN order_trans])
qed (simp add: dispatch_start_def)

section \<open>The pool as a dispatcher\<close>

text \<open>The connection a worker has taken and not finished.\<close>

fun busy_with :: "worker_pc \<Rightarrow> int multiset" where
  "busy_with (WTaken fd) = {#fd#}"
| "busy_with (WServing fd) = {#fd#}"
| "busy_with _ = {#}"

definition dispatch_of :: "pool \<Rightarrow> dispatch" where
  "dispatch_of s = \<lparr>d_waiting = contents (ptaskQueue s),
     d_busy = sum_list (map busy_with (workers s)), d_stopped = (exitFlag s = 1)\<rparr>"

lemma busy_update:
  "i < length ws \<Longrightarrow> busy_with (ws ! i) = {#} \<Longrightarrow>
   sum_list (map busy_with (ws[i := w])) = sum_list (map busy_with ws) + busy_with w"
  using sum_list_map_update [of i ws busy_with w] by simp

lemma busy_done:
  assumes "i < length ws" "busy_with (ws ! i) = {#fd#}" "busy_with w = {#}"
  shows "fd \<in># sum_list (map busy_with ws) \<and>
    sum_list (map busy_with (ws[i := w])) = sum_list (map busy_with ws) - {#fd#}"
proof -
  have "sum_list (map busy_with ws) = add_mset fd (sum_list (map busy_with (ws[i := w])))"
    using sum_list_map_update [OF assms(1), of busy_with w] assms(2,3) by simp
  then show ?thesis by (metis add_mset_remove_trivial union_single_eq_member)
qed

lemma busy_le: "size (sum_list (map busy_with ws)) \<le> length ws"
proof (induction ws)
  case (Cons w ws)
  then show ?case by (cases w) simp_all
qed simp

text \<open>A worker without a connection is room for one.\<close>

lemma busy_room:
  assumes "i < length ws" "busy_with (ws ! i) = {#}"
  shows "size (sum_list (map busy_with ws)) < length ws"
  using busy_le [of "ws[i := WServing 0]"] busy_update [OF assms, of "WServing 0"] by simp

lemma busy_wake: "busy_with (wake w) = busy_with w"
  by (simp add: wake_def)

lemma worker_step_dispatch:
  assumes "worker_step s t" "queue_inv s" "exit_inv s"
  shows "dispatch_of t = dispatch_of s \<or> dispatch_step (length (workers s)) (dispatch_of s) (dispatch_of t)"
  using assms
proof (induction rule: worker_step.induct)
  case (w_take i s fd q)
  then have flag: "exitFlag s = 0" using exit_flag_cases by blast
  with w_take have "contents (ptaskQueue s) = fd # contents q"
    using takeTask_ok [of "ptaskQueue s" fd q] by (simp add: queue_inv_def must_wait_def)
  with w_take flag start [of "dispatch_of s" fd "contents q" "length (workers s)"]
    busy_room [of i "workers s"] busy_update [of i "workers s" "WTaken fd"]
  show ?case by (simp add: dispatch_of_def)
next
  case (w_unlock i s fd)
  with sum_list_map_update [of i "workers s" busy_with "WServing fd"] show ?case by (simp add: dispatch_of_def)
next
  case (w_done i s fd)
  with busy_done [of i "workers s" fd WTop] finish [of fd "dispatch_of s"] show ?case by (simp add: dispatch_of_def)
qed (simp_all add: dispatch_of_def busy_update)

lemma master_step_dispatch:
  assumes "master_step s t" "queue_inv s" "exit_inv s"
  shows "dispatch_of t = dispatch_of s \<or> dispatch_step (length (workers s)) (dispatch_of s) (dispatch_of t)"
  using assms
proof (induction rule: master_step.induct)
  case (m_push s fd c r q)
  then have "contents q = contents (ptaskQueue s) @ [fd]" "exitFlag s = 0"
    using push_node_ok [of "ptaskQueue s" c fd r q] by (auto simp: queue_inv_def exit_inv_def)
  with arrive [of "dispatch_of s" "length (workers s)" fd] show ?case by (simp add: dispatch_of_def)
next
  case (m_exit_flag s)
  then have "exitFlag s = 0" by (simp add: exit_inv_def)
  with stop [of "dispatch_of s" "length (workers s)"] show ?case by (simp add: dispatch_of_def)
qed (simp_all add: dispatch_of_def busy_update busy_wake comp_def)

lemma pool_step_dispatch:
  assumes "pool_inv n s" "pool_step s t"
  shows "dispatch_of t = dispatch_of s \<or> dispatch_step n (dispatch_of s) (dispatch_of t)"
  using assms(2,1)
  by cases (auto simp: pool_inv_def dest: worker_step_dispatch master_step_dispatch)

interpretation pool_sim: simulation pool_step "dispatch_step n" dispatch_of "pool_inv n" for n
  by unfold_locales (auto intro: pool_inv_step dest: pool_step_dispatch)

lemma pool_reach_dispatch: "pool_reach n s \<Longrightarrow> dispatch_reach n (dispatch_of s)"
proof (induction rule: pool_reach.induct)
  case pool_init
  have "dispatch_of (pool_start n) = dispatch_start"
  proof -
    have "sum_list (replicate n {#}) = {#}" by (induction n) simp_all
    then show ?thesis
      by (simp add: dispatch_of_def pool_start_def dispatch_start_def contents_def addrs_def empty_queue_def)
  qed
  then show ?case by (simp add: dispatch_init)
next
  case (pool_next s t)
  with pool_step_dispatch [OF pool_reach_inv] show ?case by (metis dispatch_next)
qed

lemma stopped_line:
  "pool_reach n s \<Longrightarrow> exitFlag s = 1 \<Longrightarrow> pool_step s t \<Longrightarrow>
   exitFlag t = 1 \<and> contents (ptaskQueue t) = contents (ptaskQueue s)"
  using pool_step_dispatch [OF pool_reach_inv, of n s t] dispatch_stopped [of n "dispatch_of s" "dispatch_of t"]
  by (auto simp: dispatch_of_def)

section \<open>Starting a service\<close>

lemma nobody_gone:
  assumes "pool_reach n s" "exitFlag s = 0"
  shows "WLeaving \<notin> set (workers s) \<and> WExited \<notin> set (workers s)"
proof -
  have "exitFlag s = 0 \<longrightarrow> WLeaving \<notin> set (workers s) \<and> WExited \<notin> set (workers s)"
    using assms(1)
  proof (induction rule: pool_reach.induct)
    case (pool_next s t)
    from pool_next.hyps(2) show ?case
    proof cases
      case by_worker
      then show ?thesis
        by cases (use pool_next.IH in \<open>auto dest!: set_update_subset_insert [THEN subsetD] dest: nth_mem\<close>)
    next
      case by_master
      then show ?thesis
        by cases (use pool_next.IH in \<open>auto simp: wake_def dest!: set_update_subset_insert [THEN subsetD]\<close>)
    qed
  qed (simp add: pool_start_def)
  with assms(2) show ?thesis by simp
qed

text \<open>A worker at the head of the wait loop takes the oldest connection; one that is on its way gets
  there when the mutex is free.\<close>

lemma holder_takes:
  assumes "queue_inv s" "exitFlag s = 0" "contents (ptaskQueue s) = fd # fds"
    "j < length (workers s)" "workers s ! j = WHolding"
  shows "\<exists>q. worker_step s (s\<lparr>workers := (workers s)[j := WTaken fd], ptaskQueue := q, served := served s @ [fd]\<rparr>)"
proof -
  have "\<not> must_wait s" using must_wait_iff [OF assms(1)] assms(3) by simp
  moreover obtain q where "takeTask (ptaskQueue s) = (Inr fd, q)"
    using tq.take_law [of "ptaskQueue s" fd fds] assms(1,3) by (fastforce simp: queue_inv_def takeTask_def)
  ultimately show ?thesis using w_take [of j s fd q] assms(2,4,5) by auto
qed

lemma heading_takes:
  assumes "queue_inv s" "exitFlag s = 0" "contents (ptaskQueue s) = fd # fds"
    "j < length (workers s)" "workers s ! j = WTop \<or> workers s ! j = WWoken" "mutex s = None"
  shows "\<exists>t. (worker_step ^^ 2) s t \<and> served t = served s @ [fd] \<and> workers t = (workers s)[j := WTaken fd]"
proof -
  let ?u = "s\<lparr>workers := (workers s)[j := WHolding], mutex := Some (Worker j)\<rparr>"
  let ?t = "\<lambda>q. ?u\<lparr>workers := (workers ?u)[j := WTaken fd], ptaskQueue := q, served := served ?u @ [fd]\<rparr>"
  have "worker_step s ?u" using assms(4-6) w_lock w_relock by blast
  moreover have "queue_inv ?u" "exitFlag ?u = 0" "contents (ptaskQueue ?u) = fd # fds"
    "j < length (workers ?u)" "workers ?u ! j = WHolding" using assms by (simp_all add: queue_inv_def)
  from holder_takes [OF this] obtain q where "worker_step ?u (?t q)" ..
  ultimately have "(worker_step ^^ 2) s (?t q)" by (auto simp: numeral_2_eq_2)
  moreover have "served (?t q) = served s @ [fd]" "workers (?t q) = (workers s)[j := WTaken fd]" by simp_all
  ultimately show ?thesis by blast
qed

lemma heading_exists:
  assumes "pool_reach n s" "exitFlag s = 0" "contents (ptaskQueue s) \<noteq> []" "master s \<noteq> MSignal"
    "i < n" "busy_with (workers s ! i) = {#}"
  obtains j where "j < n" "heading (workers s ! j)"
proof (cases "workers s ! i = WWaiting")
  case True
  from pool_reach_inv [OF assms(1)] assms(2-5) True have "filter heading (workers s) \<noteq> []"
    using nth_mem [of i "workers s"] by (auto simp: pool_inv_def wakeup_inv_def)
  with that pool_reach_inv [OF assms(1)] show ?thesis
    by (auto simp: pool_inv_def filter_empty_conv in_set_conv_nth)
next
  case False
  have "workers s ! i \<in> set (workers s)" using pool_reach_inv [OF assms(1)] assms(5) by (simp add: pool_inv_def)
  with False assms(6) nobody_gone [OF assms(1,2)] have "heading (workers s ! i)"
    by (cases "workers s ! i") auto
  with that assms(5) show ?thesis by blast
qed

text \<open>Who may hold the mutex when the main thread does not and nobody leaves.\<close>

lemma mutex_held:
  assumes "pool_reach n s" "exitFlag s = 0" "\<not> master_holds (master s)"
  obtains "mutex s = None"
  | l where "mutex s = Some (Worker l)" "l < n" "workers s ! l = WHolding"
  | l x where "mutex s = Some (Worker l)" "l < n" "workers s ! l = WTaken x"
proof (cases "mutex s")
  case (Some h)
  from pool_reach_inv [OF assms(1)] have inv: "length (workers s) = n" "lock_inv s" by (simp_all add: pool_inv_def)
  with Some assms(3) obtain l where l: "h = Worker l" "l < n" "worker_holds (workers s ! l)"
    by (cases h) (auto simp: lock_inv_def)
  moreover have "workers s ! l \<noteq> WLeaving"
    using nobody_gone [OF assms(1,2)] l(2) inv(1) by (metis nth_mem)
  ultimately show ?thesis using that Some by (cases "workers s ! l") auto
qed (use that in blast)

lemma service_starts:
  assumes "pool_reach n s" "master s = MLoop" "contents (ptaskQueue s) = fd # fds"
    "i < n" "busy_with (workers s ! i) = {#}"
  shows "\<exists>k t j. k \<le> 3 \<and> (worker_step ^^ k) s t \<and> served t = served s @ [fd] \<and> j < n \<and>
    workers s ! j \<noteq> WWaiting \<and> workers t ! j = WTaken fd \<and>
    (\<forall>l < n. workers s ! l = WWaiting \<longrightarrow> workers t ! l = WWaiting)"
proof -
  from pool_reach_inv [OF assms(1)] have inv: "length (workers s) = n" "lock_inv s" "queue_inv s" "exit_inv s"
    by (simp_all add: pool_inv_def)
  have flag: "exitFlag s = 0" using inv(4) assms(2) by (simp add: exit_inv_def)
  obtain j where j: "j < n" "heading (workers s ! j)"
    by (rule heading_exists [OF assms(1) flag _ _ assms(4,5)]) (simp_all add: assms(2,3))
  have out: "\<not> master_holds (master s)" using assms(2) by simp
  show ?thesis
  proof (cases rule: mutex_held [OF assms(1) flag out])
    case 1
    with j inv(1,2) have "workers s ! j = WTop \<or> workers s ! j = WWoken"
      by (cases "workers s ! j") (auto simp: lock_inv_def)
    with heading_takes [OF inv(3) flag assms(3) _ _ 1, of j] j inv(1) obtain t where
      "(worker_step ^^ 2) s t" "served t = served s @ [fd]" "workers t = (workers s)[j := WTaken fd]" by auto
    with j inv(1) show ?thesis by (intro exI [of _ 2] exI [of _ t] exI [of _ j]) (auto simp: nth_list_update)
  next
    case (2 l)
    from holder_takes [OF inv(3) flag assms(3), of l] 2 inv(1) obtain q where
      "worker_step s (s\<lparr>workers := (workers s)[l := WTaken fd], ptaskQueue := q, served := served s @ [fd]\<rparr>)" by auto
    with 2 inv(1) show ?thesis by (intro exI [of _ 1] exI conjI) (auto simp: nth_list_update)
  next
    case (3 l x)
    let ?u = "s\<lparr>workers := (workers s)[l := WServing x], mutex := None\<rparr>"
    have u: "worker_step s ?u" using 3 inv(1) by (intro w_unlock) simp_all
    have "workers s ! j = WTop \<or> workers s ! j = WWoken" "j \<noteq> l"
      using j inv(1,2) 3 by (cases "workers s ! j"; auto simp: lock_inv_def)+
    with heading_takes [of ?u fd fds j] inv(1,3) flag assms(3) j obtain t where
      t: "(worker_step ^^ 2) ?u t" "served t = served s @ [fd]" "workers t = (workers s)[l := WServing x, j := WTaken fd]"
      by (auto simp: queue_inv_def)
    from relpowp_Suc_I2 [of worker_step, OF u t(1)] have "(worker_step ^^ 3) s t" by (simp add: numeral_3_eq_3 numeral_2_eq_2)
    with t j 3 inv(1) show ?thesis by (intro exI [of _ 3] exI [of _ t] exI [of _ j]) (auto simp: nth_list_update)
  qed
qed

section \<open>Properties\<close>

text \<open>
  C3. The pool implements the dispatcher: read through \<open>dispatch_of\<close>, which forgets the threads, the
  mutex, the signals and the list's nodes, every reachable state is a state of the dispatcher with room
  for \<open>n\<close> connections, every step of any thread leaves that state alone or is one of its steps (join the
  line, start the first one in the line, finish one, stop), and so every run of the pool is one of its runs.
\<close>

theorem pool_refines_dispatcher:
  assumes "pool_reach n s"
  shows "dispatch_reach n (dispatch_of s) \<and> size (d_busy (dispatch_of s)) \<le> n \<and>
    (\<forall>t. pool_step s t \<longrightarrow> dispatch_of t = dispatch_of s \<or> dispatch_step n (dispatch_of s) (dispatch_of t)) \<and>
    (\<forall>t. pool_step\<^sup>*\<^sup>* s t \<longrightarrow> (dispatch_step n)\<^sup>*\<^sup>* (dispatch_of s) (dispatch_of t))"
  using pool_reach_dispatch [OF assms] dispatch_room pool_sim.step_abs [OF pool_reach_inv [OF assms]]
    pool_sim.steps_abs [OF _ pool_reach_inv [OF assms]] by blast

theorem pool_refines_dispatcher_witness:
  "dispatch_reach 1 \<lparr>d_waiting = [7], d_busy = {#}, d_stopped = False\<rparr>"
  using pool_refines_dispatcher [OF reach_holding]
  by (simp add: dispatch_of_def contents_def addrs_def one_queued_def fd_at_def)

text \<open>
  C12. Room means service: when the main thread is back in its \<open>epoll_wait\<close>, a connection is queued and
  some worker has none, then the workers can take the oldest connection in at most three steps, with no
  help from the main thread, and without any worker's \<open>pthread_cond_wait\<close> returning unasked.
\<close>

theorem waiting_can_start:
  assumes "pool_reach n s" "master s = MLoop" "contents (ptaskQueue s) = fd # fds"
    "i < n" "busy_with (workers s ! i) = {#}"
  shows "\<exists>k t j. k \<le> 3 \<and> (worker_step ^^ k) s t \<and> served t = served s @ [fd] \<and> j < n \<and>
    workers s ! j \<noteq> WWaiting \<and> workers t ! j = WTaken fd \<and>
    (\<forall>l < n. workers s ! l = WWaiting \<longrightarrow> workers t ! l = WWaiting)"
  using service_starts [OF assms] .

theorem waiting_can_start_witness:
  "\<exists>k t. k \<le> 3 \<and> (worker_step ^^ k) \<lparr>ptaskQueue = one_queued, exitFlag = 0, mutex = Some (Worker 0),
     workers = [WHolding], master = MLoop, accepted = [7], served = []\<rparr> t \<and> served t = [7]"
proof -
  have "contents one_queued = [7]"
    by (simp add: contents_def addrs_def one_queued_def fd_at_def)
  with waiting_can_start [OF reach_holding, of 7 "[]" 0] show ?thesis by auto
qed

end
