(* ===== verification/Server_Main.thy ===== *)
theory Server_Main
  imports Net_Setup Dispatcher
begin

text \<open>
  The server process as a whole: \<open>main\<close> of \<open>server/server.c\<close> with its system calls, from the event
  loop to its end, next to the workers. The pool's part of each step is that of theory
  \<open>Worker_Pool\<close>; here the calls of \<open>accept\<close>, \<open>epoll_ctl\<close>, \<open>read\<close> and \<open>close\<close> are added.
\<close>

section \<open>The main thread\<close>

definition set_master :: "master_pc \<Rightarrow> ('z server_boot_scheme, unit) prog" where
  "set_master m = update (\<lambda>w. w\<lparr>b_pool := (b_pool w)\<lparr>master := m\<rparr>\<rparr>)"

text \<open>The listening socket is ready: accept and register the connection, which the next steps queue.\<close>

definition accept_client :: "answers \<Rightarrow> int \<Rightarrow> int \<Rightarrow> ('z server_boot_scheme, unit) prog" where
  "accept_client ans sockFd epFd =
     bnd (sys_call ans (CallAccept sockFd)) (\<lambda>clientFd.
     if clientFd < 0 then ret ()
     else next_do (epollADD ans epFd clientFd) (set_master (MAccepted clientFd)))"

text \<open>The exit pipe is ready.\<close>

definition read_exit_message :: "answers \<Rightarrow> int \<Rightarrow> ('z server_boot_scheme, unit) prog" where
  "read_exit_message ans exitFd = next_do (sys_call ans (CallRead exitFd)) (set_master MExit)"

text \<open>After the workers have been joined.\<close>

definition finish_main :: "answers \<Rightarrow> int \<Rightarrow> int \<Rightarrow> int \<Rightarrow> ('z server_boot_scheme, unit) prog" where
  "finish_main ans sockFd exitFd epFd =
     next_do (sys_call ans (CallClose sockFd))
     (next_do (sys_call ans (CallClose exitFd))
     (next_do (sys_call ans (CallClose epFd)) (set_master MDone)))"

text \<open>A step of the process. The descriptors of the clients are registered too, and nothing is done
  when one of them is ready.\<close>

inductive main_step :: "answers \<Rightarrow> int \<Rightarrow> int \<Rightarrow> int \<Rightarrow> server_boot \<Rightarrow> server_boot \<Rightarrow> bool"
  for ans sockFd exitFd epFd
where
  listener_ready: "master (b_pool w) = MLoop \<Longrightarrow> accept_client ans sockFd epFd w = (Inr (), v) \<Longrightarrow>
    main_step ans sockFd exitFd epFd w v"
| pipe_ready: "master (b_pool w) = MLoop \<Longrightarrow> read_exit_message ans exitFd w = (Inr (), v) \<Longrightarrow>
    main_step ans sockFd exitFd epFd w v"
| client_ready: "master (b_pool w) = MLoop \<Longrightarrow> main_step ans sockFd exitFd epFd w w"
| goes_on: "master (b_pool w) \<noteq> MLoop \<Longrightarrow> master_step (b_pool w) p \<Longrightarrow> master p \<noteq> MDone \<Longrightarrow>
    main_step ans sockFd exitFd epFd w (w\<lparr>b_pool := p\<rparr>)"
| all_joined: "master (b_pool w) = MJoin j \<Longrightarrow> length (workers (b_pool w)) \<le> j \<Longrightarrow>
    finish_main ans sockFd exitFd epFd w = (Inr (), v) \<Longrightarrow> main_step ans sockFd exitFd epFd w v"
| worker_turn: "worker_step (b_pool w) p \<Longrightarrow> main_step ans sockFd exitFd epFd w (w\<lparr>b_pool := p\<rparr>)"

section \<open>Its calls\<close>

lemma set_master_run [run]: "set_master m w = (Inr (), w\<lparr>b_pool := (b_pool w)\<lparr>master := m\<rparr>\<rparr>)"
  by (simp add: set_master_def run)

text \<open>The connections that \<open>accept\<close> has returned, in order.\<close>

definition clients :: "net_log \<Rightarrow> int list" where
  "clients h = map snd (filter (\<lambda>(c, r). (\<exists>fd. c = CallAccept fd) \<and> 0 \<le> r) h)"

text \<open>The one the main thread has accepted and not queued yet.\<close>

fun pending :: "master_pc \<Rightarrow> int list" where
  "pending (MAccepted fd) = [fd]"
| "pending (MPushing fd) = [fd]"
| "pending _ = []"

definition closed_down :: "int \<Rightarrow> int \<Rightarrow> int \<Rightarrow> net_log \<Rightarrow> bool" where
  "closed_down sockFd exitFd epFd h \<longleftrightarrow>
     (\<exists>pre a b c. h = pre @ [(CallClose sockFd, a), (CallClose exitFd, b), (CallClose epFd, c)])"

text \<open>Each connection is given to \<open>epoll_ctl\<close> by the next call after its \<open>accept\<close>; the code does not look
  at the result.\<close>

definition offered :: "int \<Rightarrow> net_log \<Rightarrow> bool" where
  "offered epFd h \<longleftrightarrow> (\<forall>k < length h. \<forall>fd c. h ! k = (CallAccept fd, c) \<longrightarrow> 0 \<le> c \<longrightarrow>
     Suc k < length h \<and> fst (h ! Suc k) = CallEpollCtl epFd EPOLL_CTL_ADD c)"

lemma offered_more:
  assumes "offered epFd h" "offered epFd g"
  shows "offered epFd (h @ g)"
  unfolding offered_def
proof (intro allI impI)
  fix k fd c assume k: "k < length (h @ g)" "(h @ g) ! k = (CallAccept fd, c)" "0 \<le> c"
  show "Suc k < length (h @ g) \<and> fst ((h @ g) ! Suc k) = CallEpollCtl epFd EPOLL_CTL_ADD c"
  proof (cases "k < length h")
    case True
    with k assms(1) have "Suc k < length h" "fst (h ! Suc k) = CallEpollCtl epFd EPOLL_CTL_ADD c"
      by (auto simp: offered_def nth_append)
    then show ?thesis by (simp add: nth_append)
  next
    case False
    with k have "k - length h < length g" "g ! (k - length h) = (CallAccept fd, c)" by (auto simp: nth_append)
    with assms(2) k(3) have "Suc (k - length h) < length g" "fst (g ! Suc (k - length h)) = CallEpollCtl epFd EPOLL_CTL_ADD c"
      by (auto simp: offered_def)
    with False show ?thesis by (simp add: nth_append Suc_diff_le)
  qed
qed

lemma offered_calls:
  "\<forall>x \<in> set g. \<forall>fd c. x = (CallAccept fd, c) \<longrightarrow> c < 0 \<Longrightarrow> offered epFd g"
  "offered epFd [(CallAccept fd, c), (CallEpollCtl epFd EPOLL_CTL_ADD c, r)]"
  by (fastforce simp: offered_def dest: nth_mem) (auto simp: offered_def less_Suc_eq)

definition main_ok :: "int \<Rightarrow> int \<Rightarrow> int \<Rightarrow> server_boot \<Rightarrow> bool" where
  "main_ok sockFd exitFd epFd w \<longleftrightarrow>
     clients (calls w) = accepted (b_pool w) @ pending (master (b_pool w)) \<and>
     offered epFd (calls w) \<and> (master (b_pool w) = MDone \<longrightarrow> closed_down sockFd exitFd epFd (calls w))"

lemma clients_append [simp]: "clients (h @ g) = clients h @ clients g"
  by (simp add: clients_def)

lemma clients_simps [simp]:
  "clients [] = []" "clients ((CallEpollCtl e op fd, r) # h) = clients h"
  "clients ((CallRead fd, r) # h) = clients h" "clients ((CallClose fd, r) # h) = clients h"
  "clients ((CallAccept fd, r) # h) = (if 0 \<le> r then [r] else []) @ clients h"
  by (simp_all add: clients_def)

text \<open>A master step keeps the connections accepted: queued, or still in its hands.\<close>

lemma master_step_accounts:
  "master_step p q \<Longrightarrow> master p \<noteq> MLoop \<Longrightarrow> accepted q @ pending (master q) = accepted p @ pending (master p)"
  by (induction rule: master_step.induct) auto

lemma worker_step_accounts:
  "worker_step p q \<Longrightarrow> accepted q = accepted p \<and> master q = master p"
  by (induction rule: worker_step.induct) auto

lemma main_step_pool:
  assumes "main_step ans sockFd exitFd epFd w v"
  shows "b_pool v = b_pool w \<or> pool_step (b_pool w) (b_pool v)"
  using assms
proof cases
  case listener_ready
  then show ?thesis
    by (auto simp: accept_client_def epollADD_def run intro!: by_master m_accept split: if_splits)
next
  case pipe_ready
  then show ?thesis by (auto simp: read_exit_message_def run intro!: by_master m_exit_event)
next
  case (all_joined j)
  then show ?thesis by (auto simp: finish_main_def run intro!: by_master m_done)
qed (auto intro: by_master by_worker)

lemma main_step_ok:
  assumes "main_step ans sockFd exitFd epFd w v" "main_ok sockFd exitFd epFd w"
  shows "main_ok sockFd exitFd epFd v"
  using assms(1)
proof cases
  case listener_ready
  show ?thesis
  proof (cases "ans (calls w) (CallAccept sockFd) < 0")
    case True
    with listener_ready assms(2) show ?thesis
      by (auto simp: accept_client_def epollADD_def main_ok_def run intro!: offered_more [OF _ offered_calls(1)])
  next
    case False
    with listener_ready assms(2) show ?thesis
      by (auto simp: accept_client_def epollADD_def main_ok_def run intro!: offered_more offered_calls(2))
  qed
next
  case pipe_ready
  with assms(2) show ?thesis
    by (auto simp: read_exit_message_def main_ok_def run intro!: offered_more [OF _ offered_calls(1)])
next
  case (goes_on p)
  with assms(2) master_step_accounts [of "b_pool w" p] show ?thesis by (auto simp: main_ok_def)
next
  case (all_joined j)
  with assms(2) show ?thesis by (auto simp: finish_main_def main_ok_def closed_down_def run intro!: offered_more [OF _ offered_calls(1)])
next
  case (worker_turn p)
  with assms(2) worker_step_accounts [of "b_pool w" p] show ?thesis by (auto simp: main_ok_def)
qed (use assms(2) in simp)

text \<open>The process implements the pool, and with it the dispatcher.\<close>

interpretation main_sim: simulation_chain "main_step ans sockFd exitFd epFd" pool_step "dispatch_step n"
  b_pool dispatch_of "\<lambda>w. main_ok sockFd exitFd epFd w \<and> pool_inv n (b_pool w)" "pool_inv n"
  for ans sockFd exitFd epFd n
  by unfold_locales (auto dest: main_step_pool main_step_ok intro: pool_inv_step)

section \<open>Runs of the process\<close>

text \<open>The states of the child process from its start on.\<close>

inductive main_reach ::
  "answers \<Rightarrow> (string \<Rightarrow> cint) \<Rightarrow> (nat \<Rightarrow> int \<times> nat) \<Rightarrow> int \<times> int \<Rightarrow> server_boot \<Rightarrow> int \<Rightarrow> int \<Rightarrow> server_boot \<Rightarrow> bool"
  for ans inet_addr create exitPipefd w0 sockFd epFd
where
  main_init: "server_start ans inet_addr True create exitPipefd w0 = (Inr (sockFd, epFd), w) \<Longrightarrow>
    main_reach ans inet_addr create exitPipefd w0 sockFd epFd w"
| main_next: "main_reach ans inet_addr create exitPipefd w0 sockFd epFd w \<Longrightarrow>
    main_step ans sockFd (fst exitPipefd) epFd w v \<Longrightarrow>
    main_reach ans inet_addr create exitPipefd w0 sockFd epFd v"

lemma main_reach_ok:
  assumes "main_reach ans inet_addr create exitPipefd (boot_start arr q flag m) sockFd epFd w"
    "\<forall>i. fst (create i) = 0"
  shows "pool_reach 4 (b_pool w) \<and> main_ok sockFd (fst exitPipefd) epFd w"
  using assms(1)
proof (induction rule: main_reach.induct)
  case (main_init w)
  note start = server_start_run [OF main_init assms(2)]
  then have "clients (calls w) = []" by (auto simp: clients_def)
  moreover have "offered epFd (calls w)" using start by (intro offered_calls) auto
  moreover have "accepted (b_pool w) = []" "master (b_pool w) = MLoop"
    using start by (simp_all add: pool_start_def)
  ultimately show ?case using start pool_init [of 4] by (simp add: main_ok_def)
next
  case (main_next w v)
  then show ?case using main_step_pool [OF main_next.hyps(2)] main_step_ok [OF main_next.hyps(2)]
    by (auto intro: pool_next)
qed

section \<open>Properties\<close>

text \<open>
  C11. The server accounts for its connections: from its start on, if the four threads could be created,
  whatever the system answers to all other calls and however the threads interleave, the connections
  that \<open>accept\<close> has returned are, in order, those handed to the workers, those in the queue and the one
  the main thread is about to queue; the next call after each such \<open>accept\<close> was the \<open>epoll_ctl\<close> that is
  to register the connection (its result is not looked at); the main thread ends only after all workers have returned, with the
  listening socket, the exit pipe and the epoll instance closed by its last calls; and every run of
  the process from here on is, read through \<open>dispatch_of\<close>, one of the dispatcher with four places.
\<close>

theorem server_accounts:
  assumes "main_reach ans inet_addr create exitPipefd (boot_start arr q flag m) sockFd epFd w"
    "\<forall>i. fst (create i) = 0"
  shows "clients (calls w) = served (b_pool w) @ contents (ptaskQueue (b_pool w)) @ pending (master (b_pool w)) \<and>
    (\<forall>k < length (calls w). \<forall>fd c. calls w ! k = (CallAccept fd, c) \<longrightarrow> 0 \<le> c \<longrightarrow>
       Suc k < length (calls w) \<and> fst (calls w ! Suc k) = CallEpollCtl epFd EPOLL_CTL_ADD c) \<and>
    (master (b_pool w) = MDone \<longrightarrow> (\<forall>i < 4. workers (b_pool w) ! i = WExited) \<and>
       (\<exists>pre a b c. calls w = pre @ [(CallClose sockFd, a), (CallClose (fst exitPipefd), b), (CallClose epFd, c)])) \<and>
    (\<forall>v. (main_step ans sockFd (fst exitPipefd) epFd)\<^sup>*\<^sup>* w v \<longrightarrow>
       (dispatch_step 4)\<^sup>*\<^sup>* (dispatch_of (b_pool w)) (dispatch_of (b_pool v)))"
proof -
  from main_reach_ok [OF assms] have ok: "main_ok sockFd (fst exitPipefd) epFd w \<and> pool_inv 4 (b_pool w)"
    by (auto dest: pool_reach_inv)
  note runs = main_sim.chain.steps_abs [OF _ ok, of ans]
  from ok show ?thesis
    by (intro conjI allI impI runs)
      (auto simp: main_ok_def pool_inv_def queue_inv_def exit_inv_def closed_down_def offered_def)
qed

text \<open>Answers with which connection 9 comes in.\<close>

definition busy_answers :: answers where
  "busy_answers h c = (case c of CallAccept fd \<Rightarrow> 9 | _ \<Rightarrow> calm_answers h c)"

theorem server_accounts_witness:
  "\<exists>w. main_reach busy_answers (\<lambda>s. 0) (\<lambda>i. (0, i + 100)) (7, 8)
      (boot_start \<lparr>threadId = [], workerNum = 0\<rparr> empty_queue 5 (Some Master)) 3 4 w \<and>
    clients (calls w) = [9] \<and>
    served (b_pool w) @ contents (ptaskQueue (b_pool w)) @ pending (master (b_pool w)) = [9]"
proof -
  let ?r = "server_start busy_answers (\<lambda>s. 0) True (\<lambda>i. (0, i + 100)) (7, 8)
      (boot_start \<lparr>threadId = [], workerNum = 0\<rparr> empty_queue 5 (Some Master))"
  have "fst ?r = Inr (3, 4)" by code_simp
  then have r: "?r = (Inr (3, 4), snd ?r)" by (metis prod.collapse)
  have loop: "b_pool (snd ?r) = pool_start 4" "clients (calls (snd ?r)) = []"
    using server_start_run [OF r] by (auto simp: clients_def)
  let ?v = "snd (accept_client busy_answers 3 4 (snd ?r))"
  have acc: "accept_client busy_answers 3 4 (snd ?r) = (Inr (), ?v)" "clients (calls ?v) = [9]"
    using loop(2) by (simp_all add: accept_client_def epollADD_def busy_answers_def run)
  have "main_reach busy_answers (\<lambda>s. 0) (\<lambda>i. (0, i + 100)) (7, 8)
      (boot_start \<lparr>threadId = [], workerNum = 0\<rparr> empty_queue 5 (Some Master)) 3 4 ?v"
    using main_next [OF main_init [OF r] listener_ready [OF _ acc(1)]] loop(1) by (simp add: pool_start_def)
  with server_accounts [OF this] acc(2) show ?thesis by auto
qed

end
