(* ===== verification/Server_System.thy ===== *)
theory Server_System
  imports Shared_Sessions Server_Main
begin

text \<open>
  The server put together: the process of theory \<open>Server_Main\<close> (main thread, queue, workers and their
  system calls) with the sessions of theory \<open>Shared_Sessions\<close> as what its workers do. A worker that
  gets to \<open>handleClient\<close> opens a session on its connection, the turns of the open sessions interleave
  with each other and with all other threads, and a worker goes back to the queue when its session is
  over.
\<close>

section \<open>Steps\<close>

text \<open>\<open>y_current\<close> is the number of the session each worker has opened last.\<close>

record system =
  y_boot :: server_boot
  y_shared :: shared
  y_current :: "nat list"

abbreviation y_workers :: "system \<Rightarrow> worker_pc list" where
  "y_workers y \<equiv> workers (b_pool (y_boot y))"

abbreviation y_sessions :: "system \<Rightarrow> session list" where
  "y_sessions y \<equiv> sh_sessions (y_shared y)"

text \<open>What a worker's step does to the pool.\<close>

definition set_worker :: "nat \<Rightarrow> worker_pc \<Rightarrow> thread_name option \<Rightarrow> server_boot \<Rightarrow> server_boot" where
  "set_worker i pc m b =
     b\<lparr>b_pool := (b_pool b)\<lparr>workers := (workers (b_pool b))[i := pc], mutex := m\<rparr>\<rparr>"

fun serves :: "worker_pc \<Rightarrow> bool" where
  "serves (WServing fd) = True"
| "serves _ = False"

text \<open>No worker enters or leaves \<open>handleClient\<close>.\<close>

definition same_service :: "worker_pc list \<Rightarrow> worker_pc list \<Rightarrow> bool" where
  "same_service ws vs \<longleftrightarrow> length vs = length ws \<and>
     (\<forall>i < length ws. serves (ws ! i) \<or> serves (vs ! i) \<longrightarrow> vs ! i = ws ! i)"

inductive system_step ::
  "answers \<Rightarrow> kernel \<Rightarrow> (string \<Rightarrow> string option) \<Rightarrow> int \<Rightarrow> int \<Rightarrow> int \<Rightarrow> system option \<Rightarrow> system option \<Rightarrow> bool"
  for ans K shadow sockFd exitFd epFd
where
  sys_other: "main_step ans sockFd exitFd epFd (y_boot y) b \<Longrightarrow>
    same_service (y_workers y) (workers (b_pool b)) \<Longrightarrow>
    system_step ans K shadow sockFd exitFd epFd (Some y) (Some (y\<lparr>y_boot := b\<rparr>))"
| sys_begin: "i < length (y_workers y) \<Longrightarrow> y_workers y ! i = WTaken fd \<Longrightarrow>
    system_step ans K shadow sockFd exitFd epFd (Some y)
      (Some \<lparr>y_boot = set_worker i (WServing fd) None (y_boot y),
         y_shared = (y_shared y)\<lparr>sh_sessions := y_sessions y @ [new_session fd r p]\<rparr>,
         y_current = (y_current y)[i := length (y_sessions y)]\<rparr>)"
| sys_turn: "i < length (y_workers y) \<Longrightarrow> y_workers y ! i = WServing fd \<Longrightarrow> j = y_current y ! i \<Longrightarrow>
    s = y_sessions y ! j \<Longrightarrow>
    session_turn K shadow fd (s_phase s) poll (turn_state (y_shared y) s) = (Inr ph, v) \<Longrightarrow>
    system_step ans K shadow sockFd exitFd epFd (Some y) (Some (y\<lparr>y_shared := put_turn j ph v (y_shared y)\<rparr>))"
| sys_end: "i < length (y_workers y) \<Longrightarrow> y_workers y ! i = WServing fd \<Longrightarrow>
    over (s_phase (y_sessions y ! (y_current y ! i))) \<Longrightarrow>
    system_step ans K shadow sockFd exitFd epFd (Some y)
      (Some (y\<lparr>y_boot := set_worker i WTop (mutex (b_pool (y_boot y))) (y_boot y)\<rparr>))"
| sys_dies: "i < length (y_workers y) \<Longrightarrow> y_workers y ! i = WServing fd \<Longrightarrow>
    s = y_sessions y ! (y_current y ! i) \<Longrightarrow>
    session_turn K shadow fd (s_phase s) poll (turn_state (y_shared y) s) = (Inl e, v) \<Longrightarrow> e \<noteq> Blocks \<Longrightarrow>
    system_step ans K shadow sockFd exitFd epFd (Some y) None"

text \<open>From the start of the process on.\<close>

inductive system_reach ::
  "answers \<Rightarrow> (string \<Rightarrow> cint) \<Rightarrow> (nat \<Rightarrow> int \<times> nat) \<Rightarrow> int \<times> int \<Rightarrow> server_boot \<Rightarrow> kernel \<Rightarrow>
   (string \<Rightarrow> string option) \<Rightarrow> int \<Rightarrow> int \<Rightarrow> system option \<Rightarrow> bool"
  for ans inet_addr create exitPipefd w0 K shadow sockFd epFd
where
  sys_init: "server_start ans inet_addr True create exitPipefd w0 = (Inr (sockFd, epFd), b) \<Longrightarrow>
    system_reach ans inet_addr create exitPipefd w0 K shadow sockFd epFd
      (Some \<lparr>y_boot = b, y_shared = shared_start, y_current = replicate (length (workers (b_pool b))) 0\<rparr>)"
| sys_next: "system_reach ans inet_addr create exitPipefd w0 K shadow sockFd epFd x \<Longrightarrow>
    system_step ans K shadow sockFd (fst exitPipefd) epFd x z \<Longrightarrow>
    system_reach ans inet_addr create exitPipefd w0 K shadow sockFd epFd z"

inductive_cases system_step_up: "system_step ans K shadow sockFd exitFd epFd (Some y) (Some z)"
inductive_cases system_step_down: "system_step ans K shadow sockFd exitFd epFd None z"

section \<open>Its parts\<close>

text \<open>Who works for whom: a worker in \<open>handleClient\<close> has a session on its connection that no other
  worker has, and a session that is not over is served by a worker.\<close>

definition linked :: "system \<Rightarrow> bool" where
  "linked y \<longleftrightarrow> length (y_current y) = length (y_workers y) \<and>
     (\<forall>i < length (y_workers y). serves (y_workers y ! i) \<longrightarrow> y_current y ! i < length (y_sessions y) \<and>
        y_workers y ! i = WServing (s_fd (y_sessions y ! (y_current y ! i)))) \<and>
     (\<forall>i < length (y_workers y). \<forall>k < length (y_workers y). serves (y_workers y ! i) \<longrightarrow>
        serves (y_workers y ! k) \<longrightarrow> y_current y ! i = y_current y ! k \<longrightarrow> i = k) \<and>
     (\<forall>j < length (y_sessions y). over (s_phase (y_sessions y ! j)) \<or>
        (\<exists>i < length (y_workers y). serves (y_workers y ! i) \<and> y_current y ! i = j))"

lemma serves_iff: "serves w \<longleftrightarrow> (\<exists>fd. w = WServing fd)"
  by (cases w) simp_all

lemma linked_other:
  assumes "linked y" "same_service (y_workers y) (workers (b_pool b))"
  shows "linked (y\<lparr>y_boot := b\<rparr>)"
proof -
  have eq: "\<And>i. i < length (y_workers y) \<Longrightarrow> serves (workers (b_pool b) ! i) = serves (y_workers y ! i)"
    "\<And>i. i < length (y_workers y) \<Longrightarrow> serves (y_workers y ! i) \<Longrightarrow> workers (b_pool b) ! i = y_workers y ! i"
    using assms(2) unfolding same_service_def by metis+
  then show ?thesis using assms unfolding linked_def same_service_def by simp metis
qed

lemma set_worker_pool [simp]:
  "workers (b_pool (set_worker i pc m b)) = (workers (b_pool b))[i := pc]" "served (b_pool (set_worker i pc m b)) = served (b_pool b)"
  by (simp_all add: set_worker_def)

lemma linked_begin:
  assumes "linked y" "i < length (y_workers y)" "y_workers y ! i = WTaken fd"
  shows "linked \<lparr>y_boot = set_worker i (WServing fd) None (y_boot y),
    y_shared = (y_shared y)\<lparr>sh_sessions := y_sessions y @ [new_session fd r p]\<rparr>,
    y_current = (y_current y)[i := length (y_sessions y)]\<rparr>"
proof -
  let ?ws = "(y_workers y)[i := WServing fd]" and ?ss = "y_sessions y @ [new_session fd r p]"
    and ?c = "(y_current y)[i := length (y_sessions y)]"
  have len: "length (y_current y) = length (y_workers y)" using assms(1) by (simp add: linked_def)
  have old: "y_current y ! k < length (y_sessions y)" "y_workers y ! k = WServing (s_fd (y_sessions y ! (y_current y ! k)))"
    if "k < length (y_workers y)" "serves (y_workers y ! k)" for k
    using assms(1) that by (auto simp: linked_def)
  have here: "?ws ! i = WServing fd" "?c ! i = length (y_sessions y)" using assms(2) len by simp_all
  have serv: "?c ! k < length ?ss \<and> ?ws ! k = WServing (s_fd (?ss ! (?c ! k)))"
    if "k < length (y_workers y)" "serves (?ws ! k)" for k
    using that old [of k] here by (cases "k = i") (auto simp: new_session_def nth_append)
  have inj: "k = l" if "k < length (y_workers y)" "l < length (y_workers y)" "serves (?ws ! k)" "serves (?ws ! l)"
    "?c ! k = ?c ! l" for k l
    using that old(1) [of k] old(1) [of l] here assms(1)
    by (cases "k = i"; cases "l = i") (auto simp: linked_def)
  have "over (s_phase (?ss ! j)) \<or> (\<exists>k < length (y_workers y). serves (?ws ! k) \<and> ?c ! k = j)"
    if j: "j < length ?ss" for j
  proof (cases "j = length (y_sessions y) \<or> over (s_phase (?ss ! j))")
    case True
    with here assms(2) show ?thesis by auto
  next
    case False
    with j have "j < length (y_sessions y)" "\<not> over (s_phase (y_sessions y ! j))" by (auto simp: nth_append)
    with assms(1) obtain k where k: "k < length (y_workers y)" "serves (y_workers y ! k)" "y_current y ! k = j"
      unfolding linked_def by blast
    then have "k \<noteq> i" using assms(3) by auto
    with k show ?thesis by (intro disjI2 exI [of _ k]) simp
  qed
  with serv inj len show ?thesis by (simp add: linked_def)
qed

lemma linked_turn:
  assumes "linked y" "i < length (y_workers y)" "y_workers y ! i = WServing fd" "j = y_current y ! i"
  shows "linked (y\<lparr>y_shared := put_turn j ph v (y_shared y)\<rparr>)"
proof -
  have j: "j < length (y_sessions y)" using assms by (simp add: linked_def)
  let ?ss = "(y_sessions y)[j := after_turn (y_shared y) (y_sessions y ! j) ph v]"
  have fd: "s_fd (?ss ! k) = s_fd (y_sessions y ! k)" for k
    using j by (cases "k = j") (auto simp: after_turn_def)
  have ph: "s_phase (?ss ! k) = s_phase (y_sessions y ! k)" if "k \<noteq> j" for k using that by simp
  have "over (s_phase (?ss ! k)) \<or> (\<exists>i < length (y_workers y). serves (y_workers y ! i) \<and> y_current y ! i = k)"
    if "k < length (y_sessions y)" for k
    using assms that ph [of k] by (cases "k = j") (auto simp: linked_def)
  then show ?thesis using assms(1) fd unfolding linked_def by (simp add: put_turn_def)
qed

lemma linked_end:
  assumes "linked y" "i < length (y_workers y)" "y_workers y ! i = WServing fd"
    "over (s_phase (y_sessions y ! (y_current y ! i)))"
  shows "linked (y\<lparr>y_boot := set_worker i WTop m (y_boot y)\<rparr>)"
  using assms unfolding linked_def
  by (auto simp: nth_list_update split: if_splits)

text \<open>The connection a worker has taken and not begun to serve; the mutex lets only one worker have one.\<close>

fun took :: "worker_pc \<Rightarrow> int list" where
  "took (WTaken fd) = [fd]"
| "took _ = []"

abbreviation taken :: "worker_pc list \<Rightarrow> int list" where
  "taken ws \<equiv> concat (map took ws)"

lemma taken_update: "took w = took (ws ! i) \<Longrightarrow> taken (ws[i := w]) = taken ws"
proof (induction ws arbitrary: i)
  case (Cons x ws)
  then show ?case by (cases i) auto
qed simp

lemma taken_one:
  assumes "i < length ws" "\<forall>k < length ws. k \<noteq> i \<longrightarrow> took (ws ! k) = []"
  shows "taken ws = took (ws ! i)"
proof -
  have "taken (take i ws) = []" "taken (drop (Suc i) ws) = []"
    using assms by (auto simp: in_set_conv_nth)
  then show ?thesis
    using id_take_nth_drop [OF assms(1)] by (metis append_Nil append_Nil2 concat.simps(2) concat_append list.map(2) map_append)
qed

text \<open>Only the worker that holds the mutex.\<close>

lemma took_others:
  assumes "lock_inv s" "i < length (workers s)" "worker_holds (workers s ! i)" "k < length (workers s)" "k \<noteq> i"
  shows "took (workers s ! k) = []"
proof -
  have "\<not> worker_holds (workers s ! k)" using assms by (auto simp: lock_inv_def)
  then show ?thesis by (cases "workers s ! k") simp_all
qed

lemma taken_holder:
  assumes "lock_inv s" "i < length (workers s)" "worker_holds (workers s ! i)"
  shows "taken ((workers s)[i := w]) = took w"
  using taken_one [of i "(workers s)[i := w]"] took_others [OF assms] assms(2) by simp

lemma taken_now:
  "lock_inv s \<Longrightarrow> i < length (workers s) \<Longrightarrow> worker_holds (workers s ! i) \<Longrightarrow> taken (workers s) = took (workers s ! i)"
  using taken_holder [of s i "workers s ! i"] unfolding list_update_id .

lemma took_wake: "took (wake w) = took w"
  by (simp add: wake_def)

lemma pool_step_taken:
  assumes "pool_step s t" "lock_inv s" "same_service (workers s) (workers t)"
    "served s = fds @ taken (workers s)"
  shows "served t = fds @ taken (workers t)"
  using assms(1)
proof cases
  case by_worker
  then show ?thesis
  proof cases
    case (w_take i fd q)
    have "taken (workers s) = took (workers s ! i)"
      by (rule taken_now [OF assms(2)]) (use w_take in simp_all)
    then have "taken (workers s) = []" unfolding w_take(3) took.simps .
    moreover have "taken ((workers s)[i := WTaken fd]) = [fd]"
      using taken_holder [OF assms(2), of i "WTaken fd"] w_take by simp
    ultimately show ?thesis using w_take assms(4) by simp
  next
    case (w_unlock i fd)
    with assms(3) have False by (auto simp: same_service_def)
    then show ?thesis ..
  next
    case (w_done i fd)
    with assms(3) have False by (auto simp: same_service_def)
    then show ?thesis ..
  qed (use assms(4) in \<open>simp_all add: taken_update\<close>)
next
  case by_master
  then show ?thesis by cases (use assms(4) in \<open>simp_all add: taken_update took_wake comp_def\<close>)
qed

section \<open>All of it\<close>

definition system_ok :: "kernel \<Rightarrow> (string \<Rightarrow> string option) \<Rightarrow> system \<Rightarrow> bool" where
  "system_ok K shadow y \<longleftrightarrow> shared_reach K shadow (Some (y_shared y)) \<and> linked y \<and>
     served (b_pool (y_boot y)) = map s_fd (y_sessions y) @ taken (y_workers y)"

lemma taken_start: "taken (replicate n WTop) = []"
  by (induction n) simp_all

lemma system_ok_start:
  assumes "b_pool b = pool_start n"
  shows "system_ok K shadow \<lparr>y_boot = b, y_shared = shared_start, y_current = replicate (length (workers (b_pool b))) 0\<rparr>"
  using assms shared_init taken_start [of n]
  by (simp add: system_ok_def linked_def shared_start_def pool_start_def)

lemma system_ok_step:
  assumes "system_step ans K shadow sockFd exitFd epFd (Some y) (Some z)" "system_ok K shadow y"
    "lock_inv (b_pool (y_boot y))"
  shows "system_ok K shadow z \<and> (y_boot z = y_boot y \<or> main_step ans sockFd exitFd epFd (y_boot y) (y_boot z))"
  using assms(1)
proof (cases rule: system_step_up [consumes 1, case_names other begins turn ends])
  case (other b)
  from main_step_pool [OF other(2)] have "served (b_pool b) = map s_fd (y_sessions y) @ taken (workers (b_pool b))"
  proof
    assume "pool_step (b_pool (y_boot y)) (b_pool b)"
    from pool_step_taken [OF this assms(3) other(3)] assms(2) show ?thesis by (simp add: system_ok_def)
  qed (use assms(2) in \<open>simp add: system_ok_def\<close>)
  with other assms(2) linked_other [OF _ other(3)] show ?thesis by (simp add: system_ok_def)
next
  case (begins i fd r p)
  let ?b = "set_worker i (WServing fd) None (y_boot y)"
  have "main_step ans sockFd exitFd epFd (y_boot y) ?b"
    unfolding set_worker_def using begins(2,3) by (intro worker_turn w_unlock) simp_all
  moreover have "taken (y_workers y) = [fd]" "taken (workers (b_pool ?b)) = []"
  proof -
    have h: "worker_holds (y_workers y ! i)" using begins(3) by simp
    show "taken (y_workers y) = [fd]" using taken_now [OF assms(3) begins(2) h] unfolding begins(3) took.simps .
    show "taken (workers (b_pool ?b)) = []"
      using taken_holder [OF assms(3) begins(2) h, of "WServing fd"] unfolding set_worker_pool took.simps .
  qed
  ultimately show ?thesis
    using begins assms(2) linked_begin [OF _ begins(2,3), of r p] shared_next [OF _ connects]
    by (simp add: system_ok_def new_session_def)
next
  case (turn i fd poll ph v)
  let ?j = "y_current y ! i"
  have j: "?j < length (y_sessions y)" "s_fd (y_sessions y ! ?j) = fd"
    using assms(2) turn(2,3) by (auto simp: system_ok_def linked_def)
  have "shared_reach K shadow (Some (put_turn ?j ph v (y_shared y)))"
    using assms(2) turn(4) j by (intro reach_turn [OF _ j(1) refl]) (simp_all add: system_ok_def)
  moreover have "map s_fd (sh_sessions (put_turn ?j ph v (y_shared y))) = map s_fd (y_sessions y)"
    using j(1) by (simp add: put_turn_def after_turn_def map_update list_update_same_conv)
  ultimately show ?thesis
    using turn(1) assms(2) linked_turn [OF _ turn(2,3) refl] by (simp add: system_ok_def)
next
  case (ends i fd)
  let ?b = "set_worker i WTop (mutex (b_pool (y_boot y))) (y_boot y)"
  have "b_pool ?b = (b_pool (y_boot y))\<lparr>workers := (y_workers y)[i := WTop]\<rparr>" by (simp add: set_worker_def)
  then have "?b = (y_boot y)\<lparr>b_pool := (b_pool (y_boot y))\<lparr>workers := (y_workers y)[i := WTop]\<rparr>\<rparr>"
    by (simp add: set_worker_def)
  then have "main_step ans sockFd exitFd epFd (y_boot y) ?b"
    using ends(2,3) by (metis worker_turn w_done)
  then show ?thesis
    using ends assms(2) linked_end [OF _ ends(2-4)] by (simp add: system_ok_def taken_update)
qed

lemma system_reach_ok:
  assumes "system_reach ans inet_addr create exitPipefd (boot_start arr q flag m) K shadow sockFd epFd (Some y)"
    "\<forall>i. fst (create i) = 0"
  shows "system_ok K shadow y \<and>
    main_reach ans inet_addr create exitPipefd (boot_start arr q flag m) sockFd epFd (y_boot y)"
  using assms(1)
proof (induction "Some y" arbitrary: y rule: system_reach.induct)
  case (sys_init b)
  from server_start_run [OF sys_init.hyps assms(2)] have "b_pool b = pool_start 4" by blast
  from system_ok_start [OF this] main_init [OF sys_init.hyps] show ?case unfolding system.select_convs by (rule conjI)
next
  case (sys_next x)
  from sys_next.hyps(3) obtain z where x: "x = Some z" by (cases x) (auto elim: system_step_down)
  note IH = sys_next.hyps(2) [OF x]
  then have "lock_inv (b_pool (y_boot z))"
    using main_reach_ok [OF _ assms(2)] pool_reach_inv unfolding pool_inv_def by blast
  from system_ok_step [OF sys_next.hyps(3) [unfolded x] _ this] IH show ?case by (auto intro: main_next)
qed

lemma taken_le:
  assumes "lock_inv s"
  shows "length (taken (workers s)) \<le> 1"
proof (cases "\<exists>i < length (workers s). worker_holds (workers s ! i)")
  case True
  then obtain i where i: "taken (workers s) = took (workers s ! i)" using taken_now [OF assms] by blast
  have "length (took w) \<le> 1" for w by (cases w) simp_all
  then show ?thesis unfolding i .
next
  case False
  have "took w = []" if "\<not> worker_holds w" for w using that by (cases w) simp_all
  with False have "taken (workers s) = []" by (auto simp: in_set_conv_nth)
  then show ?thesis by (simp only: list.size)
qed

lemma linked_open:
  assumes "linked y"
  shows "length (filter (\<lambda>s. \<not> over (s_phase s)) (y_sessions y)) \<le> length (y_workers y)"
proof -
  let ?J = "{j. j < length (y_sessions y) \<and> \<not> over (s_phase (y_sessions y ! j))}"
  have "?J \<subseteq> (\<lambda>i. y_current y ! i) ` {..<length (y_workers y)}"
    using assms by (auto simp: linked_def)
  then have "card ?J \<le> card {..<length (y_workers y)}" by (rule surj_card_le [OF finite_lessThan])
  then show ?thesis by (simp add: length_filter_conv_card)
qed

lemma linked_ended:
  assumes "linked y" "\<forall>i < length (y_workers y). y_workers y ! i = WExited" "s \<in> set (y_sessions y)"
  shows "over (s_phase s)"
  using assms unfolding linked_def by (metis in_set_conv_nth serves.simps(8))

section \<open>A run for the witness\<close>

text \<open>Connection 9 comes in, is queued and taken, and worker 0 opens a session on it.\<close>

abbreviation run_reach :: "system option \<Rightarrow> bool" where
  "run_reach \<equiv> system_reach busy_answers (\<lambda>s. 0) (\<lambda>i. (0, i + 100)) (7, 8)
     (boot_start \<lparr>threadId = [], workerNum = 0\<rparr> empty_queue 5 (Some Master)) calm_kernel Map.empty 3 4"

abbreviation run_at :: "pool \<Rightarrow> bool" where
  "run_at p \<equiv> \<exists>y. run_reach (Some y) \<and> b_pool (y_boot y) = p \<and> y_shared y = shared_start"

lemma same_service_head: "\<not> serves w \<Longrightarrow> \<not> serves v \<Longrightarrow> same_service (w # ws) (v # ws)"
  by (auto simp: same_service_def nth_Cons split: nat.splits)

lemma run_master:
  assumes "run_at p" "master_step p q" "master p \<noteq> MLoop" "master q \<noteq> MDone" "workers q = workers p"
  shows "run_at q"
proof -
  from assms(1) obtain y where y: "run_reach (Some y)" "b_pool (y_boot y) = p" "y_shared y = shared_start" by blast
  have "run_reach (Some (y\<lparr>y_boot := (y_boot y)\<lparr>b_pool := q\<rparr>\<rparr>))"
    using y assms(2-5) by (intro sys_next [OF y(1)] sys_other goes_on) (simp_all add: same_service_def)
  with y show ?thesis by (intro exI [of _ "y\<lparr>y_boot := (y_boot y)\<lparr>b_pool := q\<rparr>\<rparr>"]) simp
qed

lemma run_worker:
  assumes "run_at p" "worker_step p q" "same_service (workers p) (workers q)"
  shows "run_at q"
proof -
  from assms(1) obtain y where y: "run_reach (Some y)" "b_pool (y_boot y) = p" "y_shared y = shared_start" by blast
  have "run_reach (Some (y\<lparr>y_boot := (y_boot y)\<lparr>b_pool := q\<rparr>\<rparr>))"
    using y assms(2,3) by (intro sys_next [OF y(1)] sys_other worker_turn) simp_all
  with y show ?thesis by (intro exI [of _ "y\<lparr>y_boot := (y_boot y)\<lparr>b_pool := q\<rparr>\<rparr>"]) simp
qed

lemma run_accepted: "run_at ((pool_start 4)\<lparr>master := MAccepted 9\<rparr>)"
proof -
  let ?r = "server_start busy_answers (\<lambda>s. 0) True (\<lambda>i. (0, i + 100)) (7, 8)
      (boot_start \<lparr>threadId = [], workerNum = 0\<rparr> empty_queue 5 (Some Master))"
  have "fst ?r = Inr (3, 4)" by code_simp
  then have r: "?r = (Inr (3, 4), snd ?r)" by (metis prod.collapse)
  have loop: "b_pool (snd ?r) = pool_start 4" "clients (calls (snd ?r)) = []"
    using server_start_run [OF r] by (auto simp: clients_def)
  let ?y = "\<lparr>y_boot = snd ?r, y_shared = shared_start, y_current = replicate (length (workers (b_pool (snd ?r)))) 0\<rparr>"
  let ?v = "snd (accept_client busy_answers 3 4 (snd ?r))"
  have acc: "accept_client busy_answers 3 4 (snd ?r) = (Inr (), ?v)" "clients (calls ?v) = [9]"
    "b_pool ?v = (pool_start 4)\<lparr>master := MAccepted 9\<rparr>"
    using loop by (simp_all add: accept_client_def epollADD_def busy_answers_def run)
  have "run_reach (Some (?y\<lparr>y_boot := ?v\<rparr>))"
    by (rule sys_next [OF sys_init [OF r]], rule sys_other, rule listener_ready)
      (use acc loop in \<open>simp_all add: same_service_def pool_start_def\<close>)
  with acc show ?thesis by (intro exI [of _ "?y\<lparr>y_boot := ?v\<rparr>"]) simp
qed

definition nine_queued :: tqueue where
  "nine_queued = \<lparr>heap = [1 \<mapsto> \<lparr>netFd = 9, Pnext = 0\<rparr>], queueSize = 1, phead = 1, ptail = 1\<rparr>"

lemma push_nine: "push_node (1, 0) 9 empty_queue = (Inr 0, nine_queued)"
  by (simp add: push_node_def taskQueuePush_def count_up_def empty_queue_def nine_queued_def INT_MAX_def)

lemma nine_ok: "queue_ok nine_queued" "contents nine_queued = [9]"
proof -
  have "queue_ok empty_queue" "contents empty_queue = []"
    using pool_inv_start [of 1] by (auto simp: pool_inv_def queue_inv_def pool_start_def)
  with push_node_ok [OF _ fresh_one push_nine] show "queue_ok nine_queued" "contents nine_queued = [9]" by simp_all
qed

lemma run_taken:
  "\<exists>q. run_at \<lparr>ptaskQueue = q, exitFlag = 0, mutex = Some (Worker 0), workers = [WTaken 9, WTop, WTop, WTop],
     master = MLoop, accepted = [9], served = [9]\<rparr>"
proof -
  let ?p = "\<lambda>q m w mst a. \<lparr>ptaskQueue = q, exitFlag = 0, mutex = m, workers = [w, WTop, WTop, WTop],
      master = mst, accepted = a, served = []\<rparr>"
  have "run_at (?p empty_queue None WTop (MAccepted 9) [])"
    using run_accepted by (simp add: pool_start_def numeral_eq_Suc)
  from run_master [OF this m_lock [of _ 9]] have "run_at (?p empty_queue (Some Master) WTop (MPushing 9) [])" by simp
  from run_master [OF this m_push [of _ 9 "(1, 0)" 0 nine_queued]] fresh_one push_nine
  have "run_at (?p nine_queued (Some Master) WTop MSignal [9])" by simp
  from run_master [OF this m_signal_none] have "run_at (?p nine_queued (Some Master) WTop MUnlock [9])" by simp
  from run_master [OF this m_unlock] have "run_at (?p nine_queued None WTop MLoop [9])" by simp
  from run_worker [OF this w_lock [of 0]] have hold: "run_at (?p nine_queued (Some (Worker 0)) WHolding MLoop [9])"
    by (simp add: same_service_head)
  have "queue_inv (?p nine_queued (Some (Worker 0)) WHolding MLoop [9])" using nine_ok by (simp add: queue_inv_def)
  from holder_takes [OF this, of 9 "[]" 0] nine_ok obtain q where
    "worker_step (?p nine_queued (Some (Worker 0)) WHolding MLoop [9]) ((?p q (Some (Worker 0)) (WTaken 9) MLoop [9])\<lparr>served := [9]\<rparr>)"
    by auto
  from run_worker [OF hold this] show ?thesis
    by (intro exI [of _ q]) (simp add: same_service_head)
qed

lemma run_session:
  "\<exists>y. run_reach (Some y) \<and> map s_fd (y_sessions y) = [9] \<and> y_workers y = [WServing 9, WTop, WTop, WTop]"
proof -
  from run_taken obtain q y where y: "run_reach (Some y)" "b_pool (y_boot y) = \<lparr>ptaskQueue = q, exitFlag = 0,
      mutex = Some (Worker 0), workers = [WTaken 9, WTop, WTop, WTop], master = MLoop, accepted = [9], served = [9]\<rparr>"
    "y_shared y = shared_start" by blast
  let ?z = "\<lparr>y_boot = set_worker 0 (WServing 9) None (y_boot y),
      y_shared = (y_shared y)\<lparr>sh_sessions := y_sessions y @ [new_session 9 [] []]\<rparr>,
      y_current = (y_current y)[0 := length (y_sessions y)]\<rparr>"
  have "run_reach (Some ?z)" by (rule sys_next [OF y(1) sys_begin]) (simp_all add: y(2))
  moreover have "map s_fd (y_sessions ?z) = [9]" "y_workers ?z = [WServing 9, WTop, WTop, WTop]"
    using y(2,3) by (simp_all add: shared_start_def new_session_def)
  ultimately show ?thesis by (intro exI [of _ ?z] conjI)
qed

section \<open>Properties\<close>

text \<open>
  C1. The server as a whole: from the start of the process on, if the four threads could be created,
  whatever the system answers to all other calls and however the threads and the sessions interleave, its process is one of \<open>Server_Main\<close> and its sessions are
  those of \<open>Shared_Sessions\<close>, so what is shown of these holds; the connections \<open>accept\<close> has returned
  are, in order, those that have got a session, at most one a worker has just taken, those in the queue
  and the one the main thread is about to queue; at most four sessions are open at a time; the last
  call of a session that is over has closed its connection; and when the main thread ends, all
  sessions are over.
\<close>

theorem server_system:
  assumes "system_reach ans inet_addr create exitPipefd (boot_start arr q flag m) K shadow sockFd epFd (Some y)"
    "\<forall>i. fst (create i) = 0"
  shows "main_reach ans inet_addr create exitPipefd (boot_start arr q flag m) sockFd epFd (y_boot y) \<and>
    shared_reach K shadow (Some (y_shared y)) \<and>
    (\<exists>t. length t \<le> 1 \<and> clients (calls (y_boot y)) = map s_fd (y_sessions y) @ t @
       contents (ptaskQueue (b_pool (y_boot y))) @ pending (master (b_pool (y_boot y)))) \<and>
    length (filter (\<lambda>s. \<not> over (s_phase s)) (y_sessions y)) \<le> 4 \<and>
    (\<forall>s \<in> set (y_sessions y). over (s_phase s) \<longrightarrow> s_calls s \<noteq> [] \<and> last (s_calls s) = OpClose (s_fd s)) \<and>
    (master (b_pool (y_boot y)) = MDone \<longrightarrow> (\<forall>s \<in> set (y_sessions y). over (s_phase s)))"
proof -
  from system_reach_ok [OF assms] have ok: "system_ok K shadow y"
    and main: "main_reach ans inet_addr create exitPipefd (boot_start arr q flag m) sockFd epFd (y_boot y)" by simp_all
  from main_reach_ok [OF main assms(2)] have pool: "pool_inv 4 (b_pool (y_boot y))"
    and mok: "main_ok sockFd (fst exitPipefd) epFd (y_boot y)" by (auto dest: pool_reach_inv)
  from ok have parts: "shared_reach K shadow (Some (y_shared y))" "linked y"
    "served (b_pool (y_boot y)) = map s_fd (y_sessions y) @ taken (y_workers y)" by (simp_all add: system_ok_def)
  have "clients (calls (y_boot y)) = map s_fd (y_sessions y) @ taken (y_workers y) @
      contents (ptaskQueue (b_pool (y_boot y))) @ pending (master (b_pool (y_boot y)))"
    using mok pool parts(3) by (simp add: main_ok_def pool_inv_def queue_inv_def)
  moreover have "length (taken (y_workers y)) \<le> 1" using pool taken_le by (simp add: pool_inv_def)
  moreover have "length (y_workers y) = 4" using pool by (simp add: pool_inv_def)
  moreover have "\<forall>s \<in> set (y_sessions y). over (s_phase s)" if "master (b_pool (y_boot y)) = MDone"
    using linked_ended [OF parts(2)] pool that by (auto simp: pool_inv_def exit_inv_def)
  ultimately show ?thesis
    using main parts(1) linked_open [OF parts(2)] shared_reach_closes [OF parts(1)] unfolding closes_ok_def by auto
qed

theorem server_system_witness:
  "\<exists>y. shared_reach calm_kernel Map.empty (Some (y_shared y)) \<and> y_workers y = [WServing 9, WTop, WTop, WTop] \<and>
    length (filter (\<lambda>s. \<not> over (s_phase s)) (y_sessions y)) \<le> 4 \<and>
    (\<exists>t. clients (calls (y_boot y)) = 9 # t)"
proof -
  from run_session obtain y where y: "run_reach (Some y)" "map s_fd (y_sessions y) = [9]"
    "y_workers y = [WServing 9, WTop, WTop, WTop]" by (elim exE conjE)
  have ok: "\<forall>i. fst ((\<lambda>i. (0 :: int, i + 100)) i) = 0" by simp
  note all = server_system [OF y(1) ok]
  from all have "shared_reach calm_kernel Map.empty (Some (y_shared y))" by (elim conjE)
  moreover from all have "length (filter (\<lambda>s. \<not> over (s_phase s)) (y_sessions y)) \<le> 4" by (elim conjE)
  moreover from all have "\<exists>t. clients (calls (y_boot y)) = 9 # t" unfolding y(2) by (elim conjE exE) simp
  ultimately show ?thesis using y(3) by (intro exI [of _ y] conjI)
qed

end
