(* ===== verification/Spec2Isabelle.thy ===== *)
theory Spec2Isabelle
  imports Worker_Pool File_Path Cmd_Opt Authentication Client_Handle Client_Main Whole_Session
    Client_Config Server_Config File_Transfer Net_Setup Server_Process Shared_Sessions
    Dispatcher Server_Main Server_System
begin

text \<open>
  NexFile is a network file service in C: a server that runs a pool of threads, and an interactive
  client. This theory imports the whole development, documents it, and holds the properties that
  span both programs.

  \<^bold>\<open>The program.\<close> The server (\<open>server/server.c\<close>) forks; the child fills a thread pool, opens a listening
  socket and accepts connections, which it hands to the workers through a queue. A worker
  (\<open>server/worker.c\<close>) takes a connection and runs \<open>handleClient\<close> (\<open>server/clientHandle.c\<close>): a login
  against the shadow password file, then a loop that receives 1036-byte command packets
  (\<open>server/recvCmd.c\<close>) and runs their handlers (\<open>server/cmdHandle.c\<close>). The client (\<open>client/client.c\<close>)
  connects, logs in with the hash of a typed password, then parses typed lines into packets
  (\<open>client/cmdOpt.c\<close>), sends them and waits for the results (\<open>client/fileOpt.c\<close>). Both sides move bytes
  with their own \<open>recvn\<close> and \<open>sendn\<close>. \<open>shared/protocol.h\<close> lays out the messages.

  \<^bold>\<open>How programs are modelled.\<close> A function of the code is a state-passing HOL function into
  \<open>stop + 'a\<close> (theory \<open>Prelude\<close>): it returns a value, or it stops because it blocks for good in a
  system call, ends the process, or reaches undefined behaviour (an access out of bounds, a bad
  pointer, signed overflow). C integers are words of their width, read with \<open>sint\<close>; arrays are lists
  of bytes and every store into one is bounds-checked. The socket of a process is a script of what
  successive \<open>recv\<close> and \<open>send\<close> calls meet (theory \<open>Kernel\<close>): segments of any length, interruptions,
  errors, the end of the stream, partial sends, or nothing more, which blocks. A theorem that speaks
  only of the \<open>payload\<close> of a script holds for every segmentation. Other system calls are answered by
  a record of functions of the call history, \<open>kernel\<close>, which can stand for any file system; the calls
  are logged in \<open>ops\<close>, and most results say exactly which calls are made.

  \<^bold>\<open>Theories and sources\<close>, in the order of import:
  \<^item> \<open>Prelude\<close>: programs, C integers and strings, \<open>memcpy\<close>, \<open>snprintf\<close>, \<open>fgets\<close>; the collections
    \<open>run\<close> (rules that execute a step), \<open>cmem\<close> and \<open>keep\<close> (programs that keep a part of the state).
  \<^item> \<open>Protocol\<close> (\<open>shared/protocol.h\<close>): the three structures and their memory images. The locale
    \<open>image\<close> states that decoding inverts encoding; it is interpreted on an int, the packet and the
    signal, and extended in \<open>Transport\<close> to transmission.
  \<^item> \<open>Kernel\<close>, \<open>Transport\<close> (\<open>server/sendMessage.c\<close>, \<open>client/clientsendMessage.c\<close>): both \<open>recvn\<close> and
    \<open>sendn\<close>: exactness, prefix property, termination by a measure, agreement of the two sides.
  \<^item> \<open>Frames\<close>: length-prefixed strings received into a \<open>train_t\<close>.
  \<^item> \<open>Status\<close> (\<open>client/status.c\<close>, \<open>server/userStatus.c\<close>): the records, and the states \<open>server\<close> and
    \<open>client\<close> of the two processes.
  \<^item> \<open>Task_Queue\<close> (\<open>server/taskQueue.c\<close>): the linked list on an explicit heap; the locale \<open>fifo\<close> is
    the contract, \<open>contents\<close> the abstraction.
  \<^item> \<open>Worker_Pool\<close> (\<open>server/threadPool.c\<close>, \<open>server/worker.c\<close>, the loop of \<open>server/server.c\<close>): a step
    relation in which workers and the main thread interleave at every lock operation; invariants by
    rule induction over the reachable states. \<open>Dispatcher\<close>: what the pool is for, as an abstract state
    machine, and that the pool implements it; the locale \<open>simulation\<close> of theory \<open>Simulation\<close> is the
    contract, \<open>simulation_chain\<close> composes it with that of the main thread.
  \<^item> \<open>File_Path\<close> (\<open>server/filePath.c\<close>): the path stack; the locale \<open>stack\<close> is its contract.
  \<^item> \<open>C_Text\<close>, \<open>Client_Config\<close> (\<open>client/config.c\<close>), \<open>Server_Config\<close> (\<open>server/configParser.c\<close>): the
    parsers, shown equal to a meaning over lists of settings; the locale \<open>settings_file\<close> gives the
    round trip of both from one law about a line.
  \<^item> \<open>Cmd_Opt\<close> (\<open>client/cmdOpt.c\<close>): the command line parser against the rule its comments state
    (\<open>documented\<close>), and the four lines on which it departs from it (\<open>left_alone\<close>).
  \<^item> \<open>Authentication\<close> (\<open>server/authen.c\<close>, \<open>client/encryption.c\<close>, \<open>UserAuthen\<close>, \<open>sendPassword\<close> and both
    \<open>handle_authen_event\<close>): the login from both sides; \<open>received_logins\<close> and \<open>read_logins\<close> read
    the names and passwords off a socket and off the bytes that came in.
  \<^item> \<open>Cmd_Handle\<close> (\<open>server/cmdHandle.c\<close>), \<open>File_Opt\<close> (\<open>client/fileOpt.c\<close>), \<open>File_Transfer\<close>
    (\<open>server/fileHandle.c\<close>): the handlers of both sides, errors included.
  \<^item> \<open>Client_Handle\<close> (\<open>server/clientHandle.c\<close>, \<open>server/recvCmd.c\<close>), \<open>Client_Main\<close> (\<open>client/client.c\<close>): the
    session loops.
  \<^item> \<open>Logger\<close> (\<open>shared/logger.h\<close>), \<open>Build_Config\<close> (\<open>server/serverConfig.h\<close>, \<open>client/clientConfig.h\<close>),
    \<open>Net_Setup\<close> (\<open>server/tcpInit.c\<close>, both \<open>epoll.c\<close>, the beginnings of both \<open>main\<close>): what happens before
    the loops. \<open>Server_Main\<close>: the event loop of the server with its system calls, next to the workers,
    from the start to the end of the process.
  \<^item> \<open>Server_Process\<close>: the pool with \<open>handleClient\<close> as what a worker does; \<open>Whole_Session\<close>: the client's
    program against \<open>handleClient\<close>, from the login to the close.
  \<^item> \<open>Shared_Sessions\<close>: \<open>handleClient\<close> cut into turns, and any number of sessions whose turns interleave
    over the global \<open>clientPath\<close>; the turns and \<open>serve_loop\<close> model the same lines, and lemma
    \<open>handleClient_turns\<close> shows that they agree. The state carries a history \<open>sh_hist\<close> of the attempts
    (\<open>Tried\<close>) and the calls (\<open>Called\<close>) of all sessions, in order, which no operation reads and in which
    the properties are stated: \<open>dir_after\<close> is the directory after a history, \<open>let_in\<close> that a session has
    been admitted in it. \<open>Server_System\<close>: the process of \<open>Server_Main\<close> with these sessions as
    what its workers do.

  \<^bold>\<open>What is shown.\<close> For the server as a whole: every connection is accounted for from \<open>accept\<close> to
  \<open>close\<close>, under every interleaving. For the pool: it implements a dispatcher with one line and \<open>n\<close>
  places; connections are served in order, once each, under mutual exclusion, without lost wake-ups; a
  waiting connection can start where a worker is free; a requested shutdown completes where every open
  session returns, by steps none of which is a wait that returns unasked, and cannot where one client
  stays idle. For the transport: exact transfer of packets
  and frames under every segmentation. For the login: both sides agree, any number of retries, success
  only where the bytes that came in end with the name and the stored password of a user. For sessions: exactly the received requests are executed, uploads
  included, and everything opened is closed, also where the client breaks off within a packet; sessions
  side by side extend the one directory they share by exactly the names of the matching attempts, create
  directories only below it, and make no lasting call before a matching attempt of their own; a client
  that has gone does not hold the worker of its session, whatever bytes it left; a whole session of the two programs against each other. For the
  parsers: totality, exactness and round trips. The remaining properties show where the code does not
  do what it means to: commands whose handlers never answer, uploads and downloads that fail, buffers
  that a peer can overrun before the login, sessions that hold up the pool.

  \<^bold>\<open>Loops and bounds.\<close> No definition uses fuel. Loops over a script, a line or a text terminate by a
  measure; the server's login loop, which can run for ever, is a \<open>partial_function\<close> whose value
  \<open>None\<close> means so, and theorems about it state that it returns, or that it does not. The loops around
  \<open>epoll_wait\<close> recurse over the list of its results, and block when there are no more. The
  bounds are those of the code: 1024 bytes of packet data and paths, 64 and 128 bytes for names and
  hashes, 511 characters per configuration line of the client, 1023 bytes of configuration file for
  the server.

  \<^bold>\<open>Parameters.\<close> \<open>getspnam\<close> (as \<open>shadow\<close>), \<open>crypt\<close>, \<open>inet_pton\<close>, \<open>inet_ntop\<close>, \<open>inet_addr\<close>, \<open>fopen\<close> and the one read
  of the server's configuration file are arguments of the definitions that use them, as is the
  contents of uninitialised memory (\<open>k_stack\<close>, \<open>junk\<close>). Nothing is assumed of them beyond what a
  theorem states. \<open>pthread_create\<close> is the argument \<open>create\<close>: the start of the server is described for all
  its results, the runs of the whole server for the case that all four threads were created.

  \<^bold>\<open>Not modelled.\<close> Where the handlers print messages that have no other effect (\<open>printf\<close>, \<open>perror\<close> and
  the macros \<open>LOG_ERROR\<close>, \<open>LOGINFO\<close> and \<open>LOG_DEBUG\<close>, whose lines are in \<open>Logger\<close>): they change nothing,
  and only what shows the user a result is logged as \<open>OpPrint\<close>. The build file and the database script
  hold no code of the program, and no code reads the database. The global \<open>clientPath\<close> is shared by
  all workers without a lock. Sessions interleave turn by turn: one login attempt, the set-up of the
  epoll instance or one return of \<open>epoll_wait\<close> is not interrupted. Accesses to \<open>clientPath\<close> that
  overlap inside a turn are a data race, which C leaves undefined. The memory model is sequentially consistent
  under the mutex, which is what POSIX promises for data that only the holder of a lock touches.
\<close>

section \<open>A command from end to end\<close>

text \<open>What both sides do with a packet that asks for a directory.\<close>

lemma mkdir_exchange:
  assumes "packet_ok cmd" "cmdCode cmd = code_word REQ_MKDIR" "argFlag cmd = 1" "cstr (p_data cmd) = Some arg"
    "plan c = []" "txed c = []" "failfree (rx c)"
    "payload (rx s) = txed (snd (client_cmdParse Kc cmd c)) @ later" "txed s = []" "flowing (plan s)"
    "path_ok (clientPath s) base" "length base + 1 + length arg < MAX_PATH_LEN"
    "payload (rx c) = txed (snd (serve_event K fd fd s))"
  shows "\<exists>s' c'. serve_event K fd fd s = (Inr False, s') \<and> payload (rx s') = later \<and>
    ops s' = ops s @ [OpMkdir (base @ ''/'' @ arg) (k_mkdir K (ops s) (base @ ''/'' @ arg))] \<and>
    client_cmdParse Kc cmd c = (Inr 0, c') \<and> ops c' = ops c \<and>
    payload (rx c') = (if k_mkdir K (ops s) (base @ ''/'' @ arg) = -1
      then ''Failed to create directory'' else ''Directory created successfully'')"
proof -
  let ?full = "base @ ''/'' @ arg"
  let ?r = "k_mkdir K (ops s) ?full"
  let ?sig = "if ?r = -1 then signal_bytes CMD_FAILURE ''Failed to create directory''
    else signal_bytes CMD_SUCCESS ''Directory created successfully''"
  have wo: "waits_only cmd" using assms(2,3) by (simp add: waits_only_def)
  have pay: "payload (rx s) = enc_packet cmd @ later"
    using assms(6,8) waits_only_sends [OF wo assms(5), of Kc] by simp
  obtain r p where srv: "payload r = later" "serve_event K fd fd s = (Inr False,
      s\<lparr>rx := r, ops := ops s @ [OpMkdir ?full ?r], plan := p, txed := ?sig\<rparr>)"
    by (rule mkdir_served [OF assms(1,2,4) pay assms(10-12)]) (simp add: assms(9))
  let ?msg = "if ?r = -1 then ''Failed to create directory'' else ''Directory created successfully''"
  let ?h = "\<lparr>sendACK = 1, recvACK = 1,
      cmdStatus = status_val (if ?r = -1 then CMD_FAILURE else CMD_SUCCESS), s_length = of_nat (length ?msg)\<rparr>"
  let ?c = "c\<lparr>plan := [], txed := txed c @ enc_packet cmd\<rparr>"
  have "payload (rx ?c) = ?sig" by (simp add: assms(13) srv(2))
  also have "?sig = enc_signal ?h @ ?msg"
    by (cases "?r = -1") (simp_all only: signal_bytes_def if_True if_False simp_thms)
  finally have reply: "payload (rx ?c) = enc_signal ?h @ ?msg" .
  have "failfree (rx ?c)" using assms(7) by simp
  then obtain t where "recvSignal Kc ?c = (Inr (-1), ?c\<lparr>rx := t\<rparr>)" "payload t = ?msg"
    by (rule recvSignal_complete [OF _ reply])
  then have cl: "client_cmdParse Kc cmd c = (Inr 0, ?c\<lparr>rx := t\<rparr>)" "payload t = ?msg"
    by (simp_all add: waits_only_run [OF wo assms(5)] next_do_def bnd_def run)
  from srv cl show ?thesis by simp
qed

text \<open>
  \<open>mkdir\<close> from the keyboard to the server's directory and back: the user types a line whose
  words are \<open>mkdir\<close> and an argument; where the server receives what the client then sends and the
  client what the server answers, in any segmentation, the server creates exactly the directory
  \<open>clientPath/argument\<close>, and the client goes on with its input, with nothing printed and the text of
  the result still unread in its socket, where the event loop finds it as a message of the server.
\<close>

lemma mkdir_crosses:
  assumes "tokens line = [''mkdir'', arg]" "no_nul line" "length line < 1023"
    and "plan c = []" "txed c = []" "failfree (rx c)"
    and "payload (rx s) = txed (snd (handle_stdin_event Kc (RxData (line @ [CHR 0x0A]) # inp) c)) @ later"
    and "txed s = []" "flowing (plan s)" "path_ok (clientPath s) base" "length base + 1 + length arg < MAX_PATH_LEN"
    and "payload (rx c) = txed (snd (serve_event K fd fd s))"
  shows "\<exists>s' c'. serve_event K fd fd s = (Inr False, s') \<and> payload (rx s') = later \<and>
    ops s' = ops s @ [OpMkdir (base @ ''/'' @ arg) (k_mkdir K (ops s) (base @ ''/'' @ arg))] \<and>
    handle_stdin_event Kc (RxData (line @ [CHR 0x0A]) # inp) c = (Inr (0, inp), c') \<and> ops c' = ops c \<and>
    payload (rx c') = (if k_mkdir K (ops s) (base @ ''/'' @ arg) = -1
      then ''Failed to create directory'' else ''Directory created successfully'')"
proof -
  let ?q = "arg_packet REQ_MKDIR arg (packet_junk Kc c)"
  have arg: "no_nul arg" "length arg < DATA_SIZE"
    using tokens_no_nul [OF assms(2), of arg] assms(1,11) by simp_all
  have ok: "packet_ok ?q" by (rule packet_ok_arg [OF packet_junk_ok arg(2)])
  have str: "cstr (p_data ?q) = Some arg" by (rule cstr_arg [OF arg(1)])
  have code: "cmdCode ?q = code_word REQ_MKDIR" "argFlag ?q = 1" by (simp_all add: arg_packet_def)
  have "parse_tokens (tokens line) (packet_junk Kc c) = Some ?q"
    using assms(1) arg(2) by (simp add: parse_tokens_def str_to_cmdcode_def)
  then have typed: "handle_stdin_event Kc (RxData (line @ [CHR 0x0A]) # inp) c
      = next_do (client_cmdParse Kc ?q) (ret (0, inp)) c"
    by (simp add: handle_stdin_line [OF assms(2,3)])
  then have "payload (rx s) = txed (snd (client_cmdParse Kc ?q c)) @ later"
    using assms(7) by (simp add: snd_next_do_ret)
  from mkdir_exchange [OF ok code str assms(4-6) this assms(8-12)] obtain s' c' where
    "serve_event K fd fd s = (Inr False, s')" "payload (rx s') = later"
    "ops s' = ops s @ [OpMkdir (base @ ''/'' @ arg) (k_mkdir K (ops s) (base @ ''/'' @ arg))]"
    "client_cmdParse Kc ?q c = (Inr 0, c')" "ops c' = ops c"
    "payload (rx c') = (if k_mkdir K (ops s) (base @ ''/'' @ arg) = -1
      then ''Failed to create directory'' else ''Directory created successfully'')" by blast
  then show ?thesis by (simp add: typed next_do_def bnd_def run)
qed

text \<open>A client with the server's answer in its socket, and the packet of \<open>mkdir docs\<close>.\<close>

definition answered_client :: proc where
  "answered_client =
     \<lparr>rx = [RxData (signal_bytes CMD_SUCCESS ''Directory created successfully'')], plan = [], txed = [], ops = []\<rparr>"

definition docs_packet :: packetCmd where
  "docs_packet = arg_packet REQ_MKDIR ''docs'' (packet_junk calm_kernel answered_client)"

lemma mkdir_crosses_example:
  "\<exists>s' c'. serve_event calm_kernel 7 7 (server_with (enc_packet docs_packet @ []) clientPath_start) = (Inr False, s') \<and>
    ops s' = [OpMkdir (home_prefix @ ''/'' @ ''docs'') 0] \<and>
    handle_stdin_event calm_kernel [RxData (''mkdir docs'' @ [CHR 0x0A])] answered_client = (Inr (0, []), c') \<and>
    payload (rx c') = ''Directory created successfully''"
proof -
  let ?s = "server_with (enc_packet docs_packet @ []) clientPath_start"
  have line: "tokens ''mkdir docs'' = [''mkdir'', ''docs'']" "no_nul ''mkdir docs''" "length ''mkdir docs'' < 1023"
    by (simp_all add: tokens.simps strtok_by_def is_sep_def)
  have str: "cstr (p_data docs_packet) = Some ''docs''"
    unfolding docs_packet_def by (rule cstr_arg) simp
  have ok: "packet_ok docs_packet"
    unfolding docs_packet_def by (rule packet_ok_arg [OF packet_junk_ok]) simp
  have code: "cmdCode docs_packet = code_word REQ_MKDIR" "argFlag docs_packet = 1"
    by (simp_all add: docs_packet_def arg_packet_def)
  have k: "k_mkdir calm_kernel h p = 0" for h p by (simp add: calm_kernel_def)
  have home: "length home_prefix + 1 + length ''docs'' < MAX_PATH_LEN" by (simp add: home_prefix_def)
  have s: "payload (rx ?s) = enc_packet docs_packet @ []" "txed ?s = []" "flowing (plan ?s)"
    "path_ok (clientPath ?s) home_prefix" by (simp_all add: clientPath_start_ok)
  have c: "plan answered_client = []" "txed answered_client = []" "failfree (rx answered_client)"
    by (simp_all add: failfree_def answered_client_def)
  have "parse_tokens (tokens ''mkdir docs'') (packet_junk calm_kernel answered_client) = Some docs_packet"
    by (simp add: line(1) parse_tokens_def str_to_cmdcode_def docs_packet_def)
  moreover have "waits_only docs_packet" using code by (simp add: waits_only_def)
  ultimately have sent: "payload (rx ?s) = txed (snd (handle_stdin_event calm_kernel
      [RxData (''mkdir docs'' @ [CHR 0x0A])] answered_client)) @ []"
    unfolding handle_stdin_line [OF line(2,3)]
    by (simp only: option.case snd_next_do_ret) (simp add: waits_only_sends c)
  obtain r p where "serve_event calm_kernel 7 7 ?s = (Inr False, ?s\<lparr>rx := r,
      ops := ops ?s @ [OpMkdir (home_prefix @ ''/'' @ ''docs'') (k_mkdir calm_kernel (ops ?s) (home_prefix @ ''/'' @ ''docs''))],
      plan := p, txed := txed ?s @ (if k_mkdir calm_kernel (ops ?s) (home_prefix @ ''/'' @ ''docs'') = -1
         then signal_bytes CMD_FAILURE ''Failed to create directory''
         else signal_bytes CMD_SUCCESS ''Directory created successfully'')\<rparr>)"
    by (rule mkdir_served [OF ok code(1) str s(1,3,4) home])
  then have reply: "payload (rx answered_client) = txed (snd (serve_event calm_kernel 7 7 ?s))"
    by (simp add: k answered_client_def)
  from mkdir_crosses [OF line c sent s(2-4) home reply]
  show ?thesis by (simp add: k) blast
qed

text \<open>
  \<open>cd\<close>, \<open>ls\<close>, \<open>rm\<close> and \<open>pwd\<close> never finish at the client: the server handles the packet and
  sends nothing, so a client whose connection stays open and carries nothing but the server's
  answer waits in \<open>recvSignal\<close> for ever.
\<close>

lemma silent_commands_hang:
  assumes "packet_ok cmd" "waits_only cmd" "cmdCode cmd \<noteq> code_word REQ_MKDIR"
    "argFlag cmd = 1 \<longrightarrow> NUL \<in> set (p_data cmd)" "plan c = []" "txed c = []" "txed s = []"
    "payload (rx s) = txed (snd (client_cmdParse Kc cmd c)) @ later"
    "failfree (rx c)" "ending (rx c) = RxWaits" "payload (rx c) = txed (snd (serve_event K fd fd s))"
  shows "fst (client_cmdParse Kc cmd c) = Inl Blocks \<and> txed (snd (serve_event K fd fd s)) = []"
proof -
  from assms(2,3) obtain co where code: "cmdCode cmd = code_word co" "co \<in> {REQ_CD, REQ_LS, REQ_PWD, REQ_RM}"
    by (auto simp: waits_only_def simp del: code_word_simps)
  have pay: "payload (rx s) = enc_packet cmd @ later"
    using assms(6,8) waits_only_sends [OF assms(2,5), of Kc] by simp
  obtain r where "serve_event K fd fd s = next_do (cmdParse K cmd) (ret False) (s\<lparr>rx := r\<rparr>)"
    by (rule serve_event_packet [OF assms(1,4) pay])
  moreover have "keeps txed (next_do (cmdParse K cmd) (ret False))"
    by (intro keep cmdParse_silent(2) [OF code])
  ultimately have silent: "txed (snd (serve_event K fd fd s)) = []"
    using keeps_apply [of txed _ "s\<lparr>rx := r\<rparr>"] assms(7) by simp
  let ?c = "c\<lparr>plan := [], txed := txed c @ enc_packet cmd\<rparr>"
  have "failfree (rx ?c)" "length (payload (rx ?c)) < 16" "ending (rx ?c) = RxWaits"
    using assms(9-11) silent by simp_all
  then obtain t where "recvSignal Kc ?c = (Inl Blocks, ?c\<lparr>rx := t\<rparr>)" by (rule recvSignal_waits)
  with silent show ?thesis by (simp add: waits_only_run [OF assms(2,5)] next_do_def bnd_def)
qed

lemma silent_commands_hang_example:
  "fst (client_cmdParse calm_kernel \<lparr>cmdCode = 2, argFlag = 0, p_length = 0, p_data = replicate DATA_SIZE NUL\<rparr>
    \<lparr>rx = [], plan = [], txed = [], ops = []\<rparr>) = Inl Blocks"
proof -
  let ?cmd = "\<lparr>cmdCode = 2, argFlag = 0, p_length = 0, p_data = replicate DATA_SIZE NUL\<rparr>"
  let ?c = "\<lparr>rx = [], plan = [], txed = [], ops = []\<rparr>"
  let ?s = "server_with (enc_packet ?cmd @ []) clientPath_start"
  have cmd: "packet_ok ?cmd" "waits_only ?cmd" "cmdCode ?cmd \<noteq> code_word REQ_MKDIR"
    "argFlag ?cmd = 1 \<longrightarrow> NUL \<in> set (p_data ?cmd)" "plan ?c = []" "txed ?c = []" "txed ?s = []"
    "payload (rx ?s) = enc_packet ?cmd @ []"
    by (simp_all add: packet_ok_def waits_only_def)
  then have sent: "payload (rx ?s) = txed (snd (client_cmdParse calm_kernel ?cmd ?c)) @ []"
    by (simp add: waits_only_sends)
  obtain r where ev: "serve_event calm_kernel 7 7 ?s = next_do (cmdParse calm_kernel ?cmd) (ret False) (?s\<lparr>rx := r\<rparr>)"
    by (rule serve_event_packet [OF cmd(1,4,8)])
  have "keeps txed (next_do (cmdParse calm_kernel ?cmd) (ret False))"
    by (intro keep cmdParse_silent(2) [of _ REQ_LS]) simp_all
  from keeps_apply [OF this, of "?s\<lparr>rx := r\<rparr>"] ev cmd(7)
  have reply: "payload (rx ?c) = txed (snd (serve_event calm_kernel 7 7 ?s))" by simp
  have c: "failfree (rx ?c)" "ending (rx ?c) = RxWaits" by (simp_all add: failfree_def)
  show ?thesis using silent_commands_hang [OF cmd(1-7) sent c reply] ..
qed

text \<open>
  Two users share one directory: \<open>clientPath\<close> is a global that is never reset, so when a second
  user logs in while the first one's session is open, the next \<open>mkdir\<close> of the first user creates its
  directory below the second user's name, which itself lies below the first one's.
\<close>

lemma sessions_share_directory:
  assumes "payload (rx a) = frame u @ frame p @ enc_packet cmd @ later" "payload (rx b) = frame v @ frame q @ t"
    "sendable (u, p)" "sendable (v, q)" "shadow u = Some p" "shadow v = Some q" "plan a = []" "plan b = []"
    "path_ok (clientPath a) cur" "asks_mkdir cmd d" "length cur + length u + length v + length d + 3 < MAX_PATH_LEN"
    "k_mkdir K (ops a) (login_path (login_path cur u) v @ ''/'' @ d) = r"
  shows "\<exists>a1 b1 a2. handle_authen_event shadow a = Some (Inr 0, a1) \<and>
    handle_authen_event shadow (b\<lparr>clientPath := clientPath a1\<rparr>) = Some (Inr 0, b1) \<and>
    serve_event K fd fd (a1\<lparr>clientPath := clientPath b1\<rparr>) = (Inr False, a2) \<and>
    ops a2 = ops a @ [OpMkdir (login_path (login_path cur u) v @ ''/'' @ d) r]"
proof -
  let ?cu = "login_path cur u" and ?full = "login_path (login_path cur u) v"
  have len: "length cur + 1 + length u < MAX_PATH_LEN" "length ?cu + 1 + length v < MAX_PATH_LEN"
    "length ?full + 1 + length d < MAX_PATH_LEN" using assms(11) by (simp_all add: login_path_def)
  obtain a1 where a1: "handle_authen_event shadow a = Some (Inr 0, a1)" "payload (rx a1) = enc_packet cmd @ later"
    "path_ok (clientPath a1) ?cu" "plan a1 = []"
    using handle_authen_attempts [where w = a and bad = "[]" and u = u and p = p and cur = cur and shadow = shadow]
      assms(1,3,5,7,9) len(1) by (auto simp: attempts_def)
  obtain b1 where b1: "handle_authen_event shadow (b\<lparr>clientPath := clientPath a1\<rparr>) = Some (Inr 0, b1)"
    "path_ok (clientPath b1) ?full"
    using handle_authen_attempts [where w = "b\<lparr>clientPath := clientPath a1\<rparr>" and bad = "[]" and u = v and p = q
        and cur = ?cu and shadow = shadow] assms(2,4,6,8) a1(3) len(2) by (auto simp: attempts_def)
  let ?a = "a1\<lparr>clientPath := clientPath b1\<rparr>"
  have cmd: "packet_ok cmd" "cmdCode cmd = code_word REQ_MKDIR" "cstr (p_data cmd) = Some d"
    using assms(10) by (simp_all add: asks_mkdir_def)
  have pre: "payload (rx ?a) = enc_packet cmd @ later" "flowing (plan ?a)" "path_ok (clientPath ?a) ?full"
    and ops: "ops ?a = ops a" using a1 b1(2) handle_authen_ops [OF a1(1)] by simp_all
  obtain s r' where "serve_event K fd fd ?a = (Inr False, s)" "ops s = ops ?a @ [OpMkdir (?full @ ''/'' @ d) r']"
    "r' = k_mkdir K (ops ?a) (?full @ ''/'' @ d)"
    by (rule mkdir_served [OF cmd pre len(3), of K fd]) simp
  with a1(1) b1(1) ops assms(12) show ?thesis by auto
qed

lemma sessions_share_directory_example:
  "\<exists>a1 b1 a2. handle_authen_event [''bob'' \<mapsto> ''h'', ''ann'' \<mapsto> ''k'']
      (server_with (frame ''bob'' @ frame ''h'' @ enc_packet docs_packet @ []) clientPath_start) = Some (Inr 0, a1) \<and>
    handle_authen_event [''bob'' \<mapsto> ''h'', ''ann'' \<mapsto> ''k'']
      ((server_with (frame ''ann'' @ frame ''k'' @ []) [])\<lparr>clientPath := clientPath a1\<rparr>) = Some (Inr 0, b1) \<and>
    serve_event calm_kernel 7 7 (a1\<lparr>clientPath := clientPath b1\<rparr>) = (Inr False, a2) \<and>
    ops a2 = [OpMkdir (home_prefix @ ''/bob/ann/docs'') 0]"
proof -
  let ?a = "server_with (frame ''bob'' @ frame ''h'' @ enc_packet docs_packet @ []) clientPath_start"
  let ?b = "server_with (frame ''ann'' @ frame ''k'' @ []) []"
  have rx: "payload (rx ?a) = frame ''bob'' @ frame ''h'' @ enc_packet docs_packet @ []"
    "payload (rx ?b) = frame ''ann'' @ frame ''k'' @ []" by simp_all
  have users: "sendable (''bob'', ''h'')" "sendable (''ann'', ''k'')"
    "[''bob'' \<mapsto> ''h'', ''ann'' \<mapsto> ''k''] ''bob'' = Some ''h''" "[''bob'' \<mapsto> ''h'', ''ann'' \<mapsto> ''k''] ''ann'' = Some ''k''"
    by (simp_all add: sendable_def)
  have idle: "plan ?a = []" "plan ?b = []" "path_ok (clientPath ?a) home_prefix" by (simp_all add: clientPath_start_ok)
  have asks: "asks_mkdir docs_packet ''docs''"
    unfolding docs_packet_def asks_mkdir_def
    by (intro conjI packet_ok_arg [OF packet_junk_ok] cstr_arg) (simp_all add: arg_packet_def)
  have home: "length home_prefix + length ''bob'' + length ''ann'' + length ''docs'' + 3 < MAX_PATH_LEN"
    "login_path (login_path home_prefix ''bob'') ''ann'' = home_prefix @ ''/bob/ann''"
    by (simp_all add: home_prefix_def login_path_def)
  have ok: "k_mkdir calm_kernel (ops ?a) (login_path (login_path home_prefix ''bob'') ''ann'' @ ''/'' @ ''docs'') = 0"
    by (simp add: calm_kernel_def)
  show ?thesis
    using sessions_share_directory [OF rx users idle asks home(1) ok, of 7]
    unfolding home(2) append_assoc append.simps server_with_simps by blast
qed

text \<open>
  C40. \<open>get\<close> never finishes either: for a file of at least one byte that the server can open, the
  server sends the name and the size and nothing more, so the client creates its local file and
  then waits for the contents for ever.
\<close>

theorem get_hangs:
  assumes "packet_ok cmd" "cmdCode cmd = code_word REQ_GET" "argFlag cmd = 1" "cstr (p_data cmd) = Some name"
    "plan c = []" "plan s = []" "txed s = []" "payload (rx s) = enc_packet cmd @ later"
    "k_open K (ops s) name [O_RDWR] = sfd" "sfd \<noteq> -1"
    "k_size K (ops s @ [OpOpen name [O_RDWR] sfd]) sfd = int n" "0 < n" "int n \<le> INT_MAX"
    "failfree (rx c)" "ending (rx c) = RxWaits" "payload (rx c) = txed (snd (serve_event K fd fd s))"
    "k_open Kc (ops c) name [O_RDWR, O_CREAT, O_TRUNC] = cfd" "cfd \<noteq> -1"
    "k_map Kc (ops c @ [OpOpen name [O_RDWR, O_CREAT, O_TRUNC] cfd, OpTruncate cfd (int n)]) cfd (int n) = Some mem"
  shows "\<exists>c'. client_cmdParse Kc cmd c = (Inl Blocks, c') \<and>
    ops c' = ops c @ [OpOpen name [O_RDWR, O_CREAT, O_TRUNC] cfd, OpTruncate cfd (int n), OpMap cfd (int n)]"
proof -
  have len: "length name < 1024" "no_nul name"
    using cstr_length [OF assms(4)] cstr_no_nul [OF assms(4)] assms(1) by (simp_all add: packet_ok_def)
  have nul: "argFlag cmd = 1 \<longrightarrow> NUL \<in> set (p_data cmd)" using assms(4) by (auto simp: cstr_Some_iff)
  obtain r where ev: "serve_event K fd fd s = next_do (cmdParse K cmd) (ret False) (s\<lparr>rx := r\<rparr>)"
    by (rule serve_event_packet [OF assms(1) nul assms(8)])
  have "plan (s\<lparr>rx := r\<rparr>) = []" "k_open K (ops (s\<lparr>rx := r\<rparr>)) name [O_RDWR] = sfd"
    "k_size K (ops (s\<lparr>rx := r\<rparr>) @ [OpOpen name [O_RDWR] sfd]) sfd = int n"
    using assms(6,9,11) by simp_all
  from GetFile_found_run [OF assms(4) len(1) this(1,2) assms(10) this(3)]
  have "txed (snd (serve_event K fd fd s)) = frame name @ frame (le64 (of_nat n))"
    by (simp add: ev cmdParse_def assms(2,7) next_do_def bnd_def run)
  with assms(16) have pay: "payload (rx c) = frame name @ frame (le64 (of_nat n))" by simp
  let ?c = "c\<lparr>plan := [], txed := txed c @ enc_packet cmd\<rparr>"
  have "\<exists>c'. getFile Kc cmd ?c = (Inl Blocks, c') \<and> ops c' = ops ?c @
    [OpOpen name [O_RDWR, O_CREAT, O_TRUNC] cfd, OpTruncate cfd (int n), OpMap cfd (int n)]"
    by (rule getFile_waits [where mem = mem]) (use assms pay len in simp_all)
  then obtain c' where "getFile Kc cmd ?c = (Inl Blocks, c')" "ops c' = ops c @
    [OpOpen name [O_RDWR, O_CREAT, O_TRUNC] cfd, OpTruncate cfd (int n), OpMap cfd (int n)]" by auto
  then show ?thesis
    by (simp add: client_cmdParse_def sendCmd_def assms(2) next_do_def bnd_def send1_idle [OF assms(5)] run)
qed

theorem get_hangs_witness:
  "\<exists>c'. client_cmdParse calm_kernel (path_packet REQ_GET ''a'')
      \<lparr>rx = [RxData (frame ''a'' @ frame (le64 3))], plan = [], txed = [], ops = []\<rparr> = (Inl Blocks, c') \<and>
    ops c' = [OpOpen ''a'' [O_RDWR, O_CREAT, O_TRUNC] 5, OpTruncate 5 3, OpMap 5 3]"
proof -
  let ?K = "calm_kernel\<lparr>k_size := \<lambda>h fd. 3\<rparr>"
  let ?cmd = "path_packet REQ_GET ''a''"
  let ?s = "server_with (enc_packet ?cmd) clientPath_start"
  let ?c = "\<lparr>rx = [RxData (frame ''a'' @ frame (le64 3))], plan = [], txed = [], ops = []\<rparr>"
  have data: "p_data ?cmd = ''a'' @ NUL # replicate 1022 NUL"
    by (simp add: path_packet_def fit_def flip: replicate_Suc)
  have cmd: "packet_ok ?cmd" "cmdCode ?cmd = code_word REQ_GET" "argFlag ?cmd = 1"
    "cstr (p_data ?cmd) = Some ''a''"
    unfolding data using cstr_terminated [of "''a''" "replicate 1022 NUL"]
    by (simp_all add: packet_ok_def path_packet_def)
  have nul: "argFlag ?cmd = 1 \<longrightarrow> NUL \<in> set (p_data ?cmd)" unfolding data by simp
  have s: "payload (rx ?s) = enc_packet ?cmd @ []" by simp
  obtain r where ev: "serve_event ?K 7 7 ?s = next_do (cmdParse ?K ?cmd) (ret False) (?s\<lparr>rx := r\<rparr>)"
    by (rule serve_event_packet [OF cmd(1) nul s])
  have "GetFile ?K ?cmd (?s\<lparr>rx := r\<rparr>) = (Inr 0, ?s\<lparr>rx := r, ops := ops (?s\<lparr>rx := r\<rparr>) @
      [OpOpen ''a'' [O_RDWR] 5, OpClose 5], plan := [],
      txed := txed (?s\<lparr>rx := r\<rparr>) @ frame ''a'' @ frame (le64 (word_of_int 3))\<rparr>)"
    by (rule GetFile_found_run [OF cmd(4)]) (simp_all add: calm_kernel_def)
  then have "txed (snd (serve_event ?K 7 7 ?s)) = frame ''a'' @ frame (le64 3)"
    by (simp add: ev cmdParse_def cmd(2) next_do_def bnd_def run)
  then have reply: "payload (rx ?c) = txed (snd (serve_event ?K 7 7 ?s))" by simp
  have c: "plan ?c = []" "plan ?s = []" "txed ?s = []" by simp_all
  have "\<exists>c'. client_cmdParse calm_kernel ?cmd ?c = (Inl Blocks, c') \<and> ops c' = ops ?c @
      [OpOpen ''a'' [O_RDWR, O_CREAT, O_TRUNC] 5, OpTruncate 5 (int 3), OpMap 5 (int 3)]"
    by (rule get_hangs [OF cmd c s _ _ _ _ _ _ _ reply, where sfd = 5 and mem = "[]"])
      (simp_all add: calm_kernel_def INT_MAX_def failfree_def)
  then show ?thesis by simp
qed

text \<open>
  C39. \<open>put\<close> breaks the server: the client exits after sending the packet and the name, and the server,
  which ignores that the second frame does not come, takes the name for the file's size and,
  where the name has more than eight characters, writes past the variable \<open>filesize\<close>.
\<close>

theorem put_overruns:
  assumes "packet_ok cmd" "cmdCode cmd = code_word REQ_PUT" "argFlag cmd = 1" "cstr (p_data cmd) = Some name"
    "8 < length name" "length name < 256" "plan c = []" "txed c = []" "k_open_at Kc (code_word REQ_PUT) = -1"
    "payload (rx s) = txed (snd (client_cmdParse Kc cmd c))" "ending (rx s) = Got []"
    "NUL \<in> set (drop (length name) (fit 256 (k_stack K (ops s) 256)))"
  shows "fst (client_cmdParse Kc cmd c) = Inl (Exits 1) \<and>
    fst (serve_loop K fd [PollReady [fd]] s) = Inl OutOfBounds"
proof -
  have len: "length name < DATA_SIZE" "no_nul name"
    using assms(6) cstr_no_nul [OF assms(4)] by simp_all
  have nul: "argFlag cmd = 1 \<longrightarrow> NUL \<in> set (p_data cmd)" using assms(4) by (auto simp: cstr_Some_iff)
  from putFile_run [OF assms(2-4) len(1) assms(7,9)] assms(8) have cl:
    "fst (client_cmdParse Kc cmd c) = Inl (Exits 1)"
    "txed (snd (client_cmdParse Kc cmd c)) = enc_packet cmd @ frame name" by auto
  obtain r where ev: "serve_event K fd fd s = next_do (cmdParse K cmd) (ret False) (s\<lparr>rx := r\<rparr>)"
    "payload r = frame name" "ending r = Got []"
    using serve_event_packet [OF assms(1) nul, of s "frame name" K fd] cl(2) assms(10,11) by metis
  have "fst (PutFile K cmd (s\<lparr>rx := r\<rparr>)) = Inl OutOfBounds"
    by (rule PutFile_cut_short [where name = name])
      (use ev assms(5,6,12) len in \<open>auto simp: cstr_def\<close>)
  then show ?thesis
    using cl(1)
    by (auto simp: bnd_def ev(1) cmdParse_def assms(2) next_do_def split: prod.splits)
qed

theorem put_overruns_witness:
  "fst (client_cmdParse calm_kernel (path_packet REQ_PUT ''notes2024'')
      \<lparr>rx = [], plan = [], txed = [], ops = []\<rparr>) = Inl (Exits 1) \<and>
   fst (serve_loop calm_kernel 7 [PollReady [7]]
      \<lparr>rx = cut 50 (enc_packet (path_packet REQ_PUT ''notes2024'') @ frame ''notes2024'') @ [RxEof],
       plan = [], txed = [], ops = [], clientPath = clientPath_start\<rparr>) = Inl OutOfBounds"
proof -
  let ?cmd = "path_packet REQ_PUT ''notes2024''"
  let ?c = "\<lparr>rx = [], plan = [], txed = [], ops = []\<rparr>"
  let ?s = "\<lparr>rx = cut 50 (enc_packet ?cmd @ frame ''notes2024'') @ [RxEof], plan = [], txed = [], ops = [],
      clientPath = clientPath_start\<rparr>"
  have data: "p_data ?cmd = ''notes2024'' @ NUL # replicate 1014 NUL"
    by (simp add: path_packet_def fit_def flip: replicate_Suc)
  have cmd: "packet_ok ?cmd" "cmdCode ?cmd = code_word REQ_PUT" "argFlag ?cmd = 1"
    "cstr (p_data ?cmd) = Some ''notes2024''"
    unfolding data using cstr_terminated [of "''notes2024''" "replicate 1014 NUL"]
    by (simp_all add: packet_ok_def path_packet_def)
  have k: "k_open_at calm_kernel (code_word REQ_PUT) = -1" by (simp add: calm_kernel_def)
  have c: "plan ?c = []" "txed ?c = []" by simp_all
  have len: "8 < length ''notes2024''" "length ''notes2024'' < 256" "length ''notes2024'' < DATA_SIZE" by simp_all
  have "payload (rx ?s) = enc_packet ?cmd @ frame ''notes2024''" "ending (rx ?s) = Got []"
    by (simp_all only: proc.simps payload_cut_more payload.simps ending.simps append_Nil2)
  moreover from putFile_run [OF cmd(2-4) len(3) c(1) k]
  have "txed (snd (client_cmdParse calm_kernel ?cmd ?c)) = enc_packet ?cmd @ frame ''notes2024''" by auto
  ultimately have sent: "payload (rx ?s) = txed (snd (client_cmdParse calm_kernel ?cmd ?c))"
    "ending (rx ?s) = Got []" by simp_all
  have "NUL \<in> set (drop (length ''notes2024'') (fit 256 (k_stack calm_kernel (ops ?s) 256)))"
    by (simp add: fit_def calm_kernel_def)
  from put_overruns [OF cmd len(1,2) c k sent this] show ?thesis .
qed

end
